(* ===== verification/Prelude.thy ===== *)
theory Prelude
  imports Main "HOL-Library.Word" "HOL-Library.Monad_Syntax"
begin

text \<open>
  Shared types, lemmas and simp collections of the development.

  The integer types of the C++ code are words of their width.  Signed types use the same
  word and are read with \<open>sint\<close>, so that a cast between the signed and the unsigned type
  of one width is the identity, as it is in the code.  Byte buffers, which the code passes
  as a pointer and a length, are lists.

  A read through a raw pointer is a checked read (\<open>rd8\<close>, \<open>rd_block\<close>): \<open>None\<close> stands for
  an access outside the buffer.  Functions that read raw buffers return an \<open>option\<close>, and
  that they never return \<open>None\<close> is a theorem about them.
\<close>

unbundle bit_operations_syntax

type_synonym u8 = "8 word"
type_synonym u16 = "16 word"
type_synonym u32 = "32 word"
type_synonym i16 = "16 word"
type_synonym i32 = "32 word"
type_synonym bytes = "u8 list"

named_theorems wire_simps \<open>unfolding of the byte-level encoders and decoders\<close>
named_theorems codec_intro \<open>composition rules of readers and writers\<close>
named_theorems safe_read \<open>reads that stay inside their buffer\<close>

section \<open>Checked reads\<close>

definition rd8 :: "bytes \<Rightarrow> nat \<Rightarrow> u8 option" where
  "rd8 p i = (if i < length p then Some (p ! i) else None)"

definition rd_block :: "bytes \<Rightarrow> nat \<Rightarrow> nat \<Rightarrow> bytes option" where
  "rd_block p off n = (if off + n \<le> length p then Some (take n (drop off p)) else None)"

lemma rd8_in [safe_read]: "i < length p \<Longrightarrow> rd8 p i = Some (p ! i)"
  by (simp add: rd8_def)

lemma rd8_None_iff: "rd8 p i = None \<longleftrightarrow> length p \<le> i"
  by (auto simp: rd8_def)

lemma rd_block_in [safe_read]:
  "off + n \<le> length p \<Longrightarrow> rd_block p off n = Some (take n (drop off p))"
  by (simp add: rd_block_def)

lemma rd8_append: "i < length p \<Longrightarrow> rd8 (p @ q) i = rd8 p i"
  by (simp add: rd8_def nth_append)

section \<open>Searching a byte\<close>

text \<open>The loop \<open>while (i < len && buf[i] != b) ++i;\<close>\<close>

function scan_for :: "u8 \<Rightarrow> bytes \<Rightarrow> nat \<Rightarrow> nat" where
  "scan_for b buf i = (if i < length buf \<and> buf ! i \<noteq> b then scan_for b buf (Suc i) else i)"
  by pat_completeness auto
termination
  by (relation "measure (\<lambda>(b, buf, i). length buf - i)") auto

declare scan_for.simps [simp del]

lemma scan_for_eq:
  "i \<le> length buf \<Longrightarrow> scan_for b buf i = i + length (takeWhile (\<lambda>c. c \<noteq> b) (drop i buf))"
proof (induction b buf i rule: scan_for.induct)
  case (1 b buf i)
  show ?case
  proof (cases "i < length buf")
    case True
    then have "drop i buf = buf ! i # drop (Suc i) buf" by (rule Cons_nth_drop_Suc [symmetric])
    with 1 True show ?thesis
      by (subst scan_for.simps) simp
  next
    case False
    with 1 show ?thesis by (subst scan_for.simps) simp
  qed
qed

lemma scan_for_le: "i \<le> length buf \<Longrightarrow> scan_for b buf i \<le> length buf"
  by (metis add_le_mono1 le_add_diff_inverse length_drop length_takeWhile_le scan_for_eq
      add_le_cancel_left)

lemma scan_for_ge: "i \<le> scan_for b buf i"
proof (induction b buf i rule: scan_for.induct)
  case (1 b buf i)
  show ?case
  proof (cases "i < length buf \<and> buf ! i \<noteq> b")
    case True
    then show ?thesis using 1 by (subst scan_for.simps) (auto dest: Suc_leD)
  next
    case False
    then show ?thesis by (subst scan_for.simps) auto
  qed
qed

lemma scan_for_hit:
  "i \<le> length buf \<Longrightarrow> scan_for b buf i < length buf \<Longrightarrow> buf ! scan_for b buf i = b"
  using nth_length_takeWhile [of "\<lambda>c. c \<noteq> b" "drop i buf"]
  by (auto simp: scan_for_eq)

lemma scan_for_miss_iff:
  "i \<le> length buf \<Longrightarrow> scan_for b buf i = length buf \<longleftrightarrow> b \<notin> set (drop i buf)"
proof -
  assume i: "i \<le> length buf"
  have "length (takeWhile (\<lambda>c. c \<noteq> b) xs) = length xs \<longleftrightarrow> b \<notin> set xs" for xs
    by (induction xs) auto
  from this [of "drop i buf"] i show ?thesis by (auto simp: scan_for_eq)
qed

lemma scan_for_before:
  "i \<le> j \<Longrightarrow> j < scan_for b buf i \<Longrightarrow> i \<le> length buf \<Longrightarrow> buf ! j \<noteq> b"
proof -
  assume a: "i \<le> j" "j < scan_for b buf i" "i \<le> length buf"
  then have j: "j - i < length (takeWhile (\<lambda>c. c \<noteq> b) (drop i buf))"
    by (simp add: scan_for_eq)
  then have "takeWhile (\<lambda>c. c \<noteq> b) (drop i buf) ! (j - i) \<noteq> b"
    using nth_mem set_takeWhileD by fastforce
  moreover have "takeWhile (\<lambda>c. c \<noteq> b) (drop i buf) ! (j - i) = drop i buf ! (j - i)"
    using j by (rule takeWhile_nth)
  moreover have "drop i buf ! (j - i) = buf ! j"
    using a by simp
  ultimately show ?thesis by simp
qed

lemma scan_for_append:
  "b \<notin> set xs \<Longrightarrow> scan_for b (y # xs @ b # zs) 1 = Suc (length xs)"
proof -
  assume "b \<notin> set xs"
  then have "takeWhile (\<lambda>c. c \<noteq> b) (xs @ b # zs) = xs"
    by (induction xs) auto
  then show ?thesis by (subst scan_for_eq) auto
qed

section \<open>Splitting and joining 16-bit words\<close>

text \<open>
  \<open>v >> 8\<close> and \<open>v & 0xFF\<close>, each cast to a byte, and the way back.
\<close>

abbreviation hi8 :: "u16 \<Rightarrow> u8" where
  "hi8 v \<equiv> ucast (drop_bit 8 v)"

abbreviation lo8 :: "u16 \<Rightarrow> u8" where
  "lo8 v \<equiv> ucast (v AND 0xFF)"

definition join16 :: "u8 \<Rightarrow> u8 \<Rightarrow> u16" where
  "join16 h l = ucast (push_bit 8 (ucast h :: u32) OR ucast l)"

lemma bit_255_int: "bit (0xFF :: int) n \<longleftrightarrow> n < 8"
proof -
  have "(mask 8 :: int) = 0xFF" by (simp add: mask_eq_exp_minus_1)
  moreover have "bit (mask 8 :: int) n \<longleftrightarrow> n < 8" by (simp add: bit_mask_iff)
  ultimately show ?thesis by metis
qed

lemma bit_15_int: "bit (0xF :: int) n \<longleftrightarrow> n < 4"
proof -
  have "(mask 4 :: int) = 0xF" by (simp add: mask_eq_exp_minus_1)
  moreover have "bit (mask 4 :: int) n \<longleftrightarrow> n < 4" by (simp add: bit_mask_iff)
  ultimately show ?thesis by metis
qed

lemma join16_split [simp]: "join16 (hi8 v) (lo8 v) = v"
  by (rule bit_word_eqI) (auto simp: join16_def bit_simps bit_255_int)

lemma hi8_join16 [simp]: "hi8 (join16 h l) = h"
  by (rule bit_word_eqI) (auto simp: join16_def bit_simps dest: bit_imp_le_length)

lemma lo8_join16 [simp]: "lo8 (join16 h l) = l"
  by (rule bit_word_eqI) (auto simp: join16_def bit_simps bit_255_int)


section \<open>Ranges\<close>

lemma unat_u8_less: "unat (n :: u8) < 256"
  using unsigned_less [where w = n and 'a = nat] by simp

lemma unat_u16_less: "unat (n :: u16) < 65536"
  using unsigned_less [where w = n and 'a = nat] by simp

lemma unat_u32_less: "unat (n :: u32) < 4294967296"
  using unsigned_less [where w = n and 'a = nat] by simp

lemma uint_u16_range: "0 \<le> uint (n :: u16)" "uint (n :: u16) < 65536"
  using unsigned_less [where w = n and 'a = int] by simp_all

lemma sint_i16_range: "- 32768 \<le> sint (n :: i16)" "sint (n :: i16) \<le> 32767"
  using sint_greater_eq [of n] sint_less [of n] by simp_all

lemma sint_i32_range: "- 2147483648 \<le> sint (n :: i32)" "sint (n :: i32) \<le> 2147483647"
  using sint_greater_eq [of n] sint_less [of n] by simp_all


lemma sint_word_of_int_i32:
  "- 2147483648 \<le> x \<Longrightarrow> x \<le> 2147483647 \<Longrightarrow> sint (word_of_int x :: i32) = x"
  by (simp add: sint_sbintrunc' signed_take_bit_int_eq_self)

lemma sint_word_of_int_i16:
  "- 32768 \<le> x \<Longrightarrow> x \<le> 32767 \<Longrightarrow> sint (word_of_int x :: i16) = x"
  by (simp add: sint_sbintrunc' signed_take_bit_int_eq_self)

end
