(* ===== verification/Jk_Data.thy ===== *)
theory Jk_Data
  imports Prelude
begin

text \<open>
  The data model shared by both BMS protocols, the inverter and the HTTP side: the structs
  of include/jk_protocol.hpp with the default member initialisers of the code.  Signed
  members (\<open>int16_t\<close>, \<open>int32_t\<close>) are words read with \<open>sint\<close>.
\<close>

section \<open>Cell and pack telemetry\<close>

record JkCellInfo =
  voltages_mv :: "u16 list"
  resistance_uohm :: "u16 list"
  average_voltage_mv :: u16
  voltage_diff_mv :: u16
  max_voltage_cell_idx :: u8
  min_voltage_cell_idx :: u8

definition JkCellInfo_default :: JkCellInfo where
  "JkCellInfo_default =
     \<lparr>voltages_mv = [], resistance_uohm = [], average_voltage_mv = 0, voltage_diff_mv = 0,
      max_voltage_cell_idx = 0, min_voltage_cell_idx = 0\<rparr>"

record JkPackInfo =
  voltage_mv :: i32
  current_ma :: i32
  state_of_charge_pct :: u8
  remaining_capacity_mah :: u32
  total_capacity_mah :: u32
  cycle_count :: u32
  battery_temp1_dC :: i16
  battery_temp2_dC :: i16
  power_tube_temp_dC :: i16
  charging_enabled :: bool
  discharging_enabled :: bool
  balancer_enabled :: bool
  balance_current_ma :: i16
  errors_bitmask :: u16

definition JkPackInfo_default :: JkPackInfo where
  "JkPackInfo_default =
     \<lparr>voltage_mv = 0, current_ma = 0, state_of_charge_pct = 0, remaining_capacity_mah = 0,
      total_capacity_mah = 0, cycle_count = 0, battery_temp1_dC = 0, battery_temp2_dC = 0,
      power_tube_temp_dC = 0, charging_enabled = False, discharging_enabled = False,
      balancer_enabled = False, balance_current_ma = 0, errors_bitmask = 0\<rparr>"

section \<open>Settings\<close>

record JkSettings =
  smart_sleep_mv :: u16
  cell_uvp_mv :: u16
  cell_uvpr_mv :: u16
  cell_ovp_mv :: u16
  cell_ovpr_mv :: u16
  balance_trigger_mv :: u16
  soc_100_mv :: u16
  soc_0_mv :: u16
  request_charge_mv :: u16
  request_float_mv :: u16
  power_off_mv :: u16
  max_charge_current_ma :: u32
  charge_ocp_delay_s :: u32
  charge_ocp_recovery_s :: u32
  max_discharge_current_ma :: u32
  discharge_ocp_delay_s :: u32
  discharge_ocp_recovery_s :: u32
  scp_recovery_s :: u32
  max_balance_current_ma :: u32
  charge_otp_dC :: i16
  charge_otp_recovery_dC :: i16
  discharge_otp_dC :: i16
  discharge_otp_recovery_dC :: i16
  charge_utp_dC :: i16
  charge_utp_recovery_dC :: i16
  mosfet_otp_dC :: i16
  mosfet_otp_recovery_dC :: i16
  cell_count :: u8
  charging_switch_on :: bool
  discharging_switch_on :: bool
  balancer_switch_on :: bool
  nominal_capacity_mah :: u32
  scp_delay_us :: u32
  start_balance_mv :: u16

definition JkSettings_default :: JkSettings where
  "JkSettings_default =
     \<lparr>smart_sleep_mv = 0, cell_uvp_mv = 0, cell_uvpr_mv = 0, cell_ovp_mv = 0, cell_ovpr_mv = 0,
      balance_trigger_mv = 0, soc_100_mv = 0, soc_0_mv = 0, request_charge_mv = 0,
      request_float_mv = 0, power_off_mv = 0, max_charge_current_ma = 0, charge_ocp_delay_s = 0,
      charge_ocp_recovery_s = 0, max_discharge_current_ma = 0, discharge_ocp_delay_s = 0,
      discharge_ocp_recovery_s = 0, scp_recovery_s = 0, max_balance_current_ma = 0,
      charge_otp_dC = 0, charge_otp_recovery_dC = 0, discharge_otp_dC = 0,
      discharge_otp_recovery_dC = 0, charge_utp_dC = 0, charge_utp_recovery_dC = 0,
      mosfet_otp_dC = 0, mosfet_otp_recovery_dC = 0, cell_count = 0, charging_switch_on = False,
      discharging_switch_on = False, balancer_switch_on = False, nominal_capacity_mah = 0,
      scp_delay_us = 0, start_balance_mv = 0\<rparr>"

section \<open>Device information\<close>

record JkDeviceInfo =
  vendor_id :: bytes
  hardware_version :: bytes
  firmware_version :: bytes
  uptime_s :: u32
  power_on_count :: u32
  device_name :: bytes
  login_password :: bytes
  manufacturing_date :: bytes
  serial_number :: bytes
  user_data_1 :: bytes
  settings_password :: bytes
  user_data_2 :: bytes
  uart1_protocol :: u8
  can_protocol :: u8
  uart2_protocol :: u8
  lcd_buzzer_trigger_protocol :: u8
  lcd_buzzer_trigger_value :: u32
  lcd_buzzer_release_value :: u32
  data_store_period_s :: u32
  rcv_time_01h :: u8
  rfv_time_01h :: u8
  emerg_time :: u8
  rebulk_soc_pct :: u8

definition JkDeviceInfo_default :: JkDeviceInfo where
  "JkDeviceInfo_default =
     \<lparr>vendor_id = [], hardware_version = [], firmware_version = [], uptime_s = 0,
      power_on_count = 0, device_name = [], login_password = [], manufacturing_date = [],
      serial_number = [], user_data_1 = [], settings_password = [], user_data_2 = [],
      uart1_protocol = 0, can_protocol = 0, uart2_protocol = 0, lcd_buzzer_trigger_protocol = 0,
      lcd_buzzer_trigger_value = 0, lcd_buzzer_release_value = 0, data_store_period_s = 0,
      rcv_time_01h = 0, rfv_time_01h = 0, emerg_time = 0, rebulk_soc_pct = 0\<rparr>"

end
