(* ===== verification/History.thy ===== *)
theory History
  imports Complex_Main Jk_Data "HOL-Library.Multiset"
begin

text \<open>
  src/history.cpp: the telemetry history, a window of samples in memory and an SQLite database.
  The tables the SQL of the file declares are lists of rows, in the order of their row ids, and
  each statement of the file is the function its SQL denotes; whether SQLite executes a
  statement is a choice of the environment (an argument per statement), as is the id it
  gives a new row; a statement that would break a constraint of the tables is refused.  A transaction works on
  a copy of the tables that COMMIT makes current; ROLLBACK needs no answer, since SQLite fails it only when
  the transaction was rolled back already, and the tables are the old ones either way.
  Times are milliseconds since the epoch.  Energies are computed on exact rational numbers;
  the rounding of \<open>double\<close> is not modelled.
\<close>

section \<open>Data\<close>

record TelemetrySample =
  ts_battery_id :: string
  ts_time :: int
  ts_cells :: JkCellInfo
  ts_pack :: JkPackInfo

text \<open>A row of \<open>samples\<close>: its columns, in the order of the table.\<close>

record SampleRow =
  sr_id :: int
  sr_battery_id :: int
  sr_ts_ms :: int
  sr_voltage_mv :: int
  sr_current_ma :: int
  sr_soc_pct :: int
  sr_remaining_mah :: int
  sr_total_mah :: int
  sr_cycle_count :: int
  sr_temp1_dc :: int
  sr_temp2_dc :: int
  sr_mos_temp_dc :: int
  sr_flags :: int
  sr_errors_bitmask :: int
  sr_avg_cell_mv :: int
  sr_diff_cell_mv :: int
  sr_max_cell_idx :: int
  sr_min_cell_idx :: int
  sr_balance_current_ma :: int

record CellRow =
  cr_sample_id :: int
  cr_cell_idx :: int
  cr_voltage_mv :: int
  cr_resistance_uohm :: int

record DailyRow =
  dr_battery_id :: int
  dr_day :: int
  dr_charged_wh :: rat
  dr_discharged_wh :: rat

record Database =
  db_batteries :: "(int \<times> string) list"
  db_samples :: "SampleRow list"
  db_cells :: "CellRow list"
  db_daily :: "DailyRow list"

record HistoryState =
  hs_ram_window :: int
  hs_ram :: "TelemetrySample list"
  hs_cache :: "(string \<times> int) list"
  hs_db :: Database

section \<open>Rows\<close>

definition pack_flags :: "JkPackInfo \<Rightarrow> u32" where
  "pack_flags p =
    (let f = 0;
         f = (if charging_enabled p then f OR 0x1 else f);
         f = (if discharging_enabled p then f OR 0x2 else f)
     in if balancer_enabled p then f OR 0x4 else f)"

definition sample_row :: "int \<Rightarrow> int \<Rightarrow> int \<Rightarrow> JkCellInfo \<Rightarrow> JkPackInfo \<Rightarrow> SampleRow" where
  "sample_row sample_id bat_id ts_ms cells pack =
     \<lparr>sr_id = sample_id, sr_battery_id = bat_id, sr_ts_ms = ts_ms,
      sr_voltage_mv = sint (voltage_mv pack), sr_current_ma = sint (current_ma pack),
      sr_soc_pct = uint (state_of_charge_pct pack),
      sr_remaining_mah = uint (remaining_capacity_mah pack),
      sr_total_mah = uint (total_capacity_mah pack), sr_cycle_count = uint (cycle_count pack),
      sr_temp1_dc = sint (battery_temp1_dC pack), sr_temp2_dc = sint (battery_temp2_dC pack),
      sr_mos_temp_dc = sint (power_tube_temp_dC pack), sr_flags = sint (pack_flags pack),
      sr_errors_bitmask = uint (errors_bitmask pack),
      sr_avg_cell_mv = uint (average_voltage_mv cells), sr_diff_cell_mv = uint (voltage_diff_mv cells),
      sr_max_cell_idx = uint (max_voltage_cell_idx cells), sr_min_cell_idx = uint (min_voltage_cell_idx cells),
      sr_balance_current_ma = sint (balance_current_ma pack)\<rparr>"

definition cell_row :: "int \<Rightarrow> JkCellInfo \<Rightarrow> nat \<Rightarrow> CellRow" where
  "cell_row sample_id cells k =
    (let r_uohm = (if k < length (resistance_uohm cells) then resistance_uohm cells ! k else 0)
     in \<lparr>cr_sample_id = sample_id, cr_cell_idx = int k,
         cr_voltage_mv = uint (voltages_mv cells ! k), cr_resistance_uohm = uint r_uohm\<rparr>)"

text \<open>The reader of \<open>range_core\<close>: the casts of the columns, and the cell rows by index.\<close>

definition row_sample :: "string \<Rightarrow> SampleRow \<Rightarrow> CellRow list \<Rightarrow> TelemetrySample" where
  "row_sample name r cs =
    (let flags = (word_of_int (sr_flags r) :: u32)
     in \<lparr>ts_battery_id = name, ts_time = sr_ts_ms r,
         ts_cells =
           \<lparr>voltages_mv = map (\<lambda>c. word_of_int (cr_voltage_mv c)) cs,
            resistance_uohm = map (\<lambda>c. word_of_int (cr_resistance_uohm c)) cs,
            average_voltage_mv = word_of_int (sr_avg_cell_mv r),
            voltage_diff_mv = word_of_int (sr_diff_cell_mv r),
            max_voltage_cell_idx = word_of_int (sr_max_cell_idx r),
            min_voltage_cell_idx = word_of_int (sr_min_cell_idx r)\<rparr>,
         ts_pack =
           \<lparr>voltage_mv = word_of_int (sr_voltage_mv r), current_ma = word_of_int (sr_current_ma r),
            state_of_charge_pct = word_of_int (sr_soc_pct r),
            remaining_capacity_mah = word_of_int (sr_remaining_mah r),
            total_capacity_mah = word_of_int (sr_total_mah r),
            cycle_count = word_of_int (sr_cycle_count r),
            battery_temp1_dC = word_of_int (sr_temp1_dc r),
            battery_temp2_dC = word_of_int (sr_temp2_dc r),
            power_tube_temp_dC = word_of_int (sr_mos_temp_dc r),
            charging_enabled = (flags AND 0x1 \<noteq> 0), discharging_enabled = (flags AND 0x2 \<noteq> 0),
            balancer_enabled = (flags AND 0x4 \<noteq> 0),
            balance_current_ma = word_of_int (sr_balance_current_ma r),
            errors_bitmask = word_of_int (sr_errors_bitmask r)\<rparr>\<rparr>)"

section \<open>Battery ids\<close>

text \<open>
  What SQLite answers: whether the lookup of a name is prepared and executed, and the id of a new row
  (\<open>None\<close>: the insert fails).
\<close>

record RowIdEnv =
  re_select :: bool
  re_insert :: "int option"

text \<open>
  \<open>battery_row_id\<close>: the cache first, then the table, then, for the writer, a new row.  A lookup that fails is
  taken for a name that is not there; the insert is then refused if the name is there, since it
  is \<open>UNIQUE\<close>.  The result \<open>-1\<close> is an unknown battery.
\<close>

definition battery_row_id :: "RowIdEnv \<Rightarrow> string \<Rightarrow> bool \<Rightarrow> HistoryState \<Rightarrow> int \<times> HistoryState" where
  "battery_row_id env name create h =
    (case map_of (hs_cache h) name of
       Some i \<Rightarrow> (i, h)
     | None \<Rightarrow>
         let row = find (\<lambda>b. snd b = name) (db_batteries (hs_db h));
             i = (if re_select env then (case row of Some b \<Rightarrow> fst b | None \<Rightarrow> -1) else -1);
             (i, db) = (if i < 0 \<and> create then
                 (case re_insert env of
                    Some k \<Rightarrow>
                      if row \<noteq> None then (i, hs_db h)
                      else (k, (hs_db h)\<lparr>db_batteries := db_batteries (hs_db h) @ [(k, name)]\<rparr>)
                  | None \<Rightarrow> (i, hs_db h))
               else (i, hs_db h));
             h = h\<lparr>hs_db := db\<rparr>
         in if i \<ge> 0 then (i, h\<lparr>hs_cache := (name, i) # hs_cache h\<rparr>) else (i, h))"

definition ensure_battery_id :: "RowIdEnv \<Rightarrow> string \<Rightarrow> HistoryState \<Rightarrow> int \<times> HistoryState" where
  "ensure_battery_id env name h = battery_row_id env name True h"

text \<open>A step that fails ends the rows of a query.\<close>

definition rows_until :: "nat option \<Rightarrow> 'a list \<Rightarrow> 'a list" where
  "rows_until failed rows = (case failed of None \<Rightarrow> rows | Some n \<Rightarrow> take n rows)"

definition load_battery_cache :: "nat option \<Rightarrow> HistoryState \<Rightarrow> HistoryState" where
  "load_battery_cache failed h =
     h\<lparr>hs_cache := rev (map (\<lambda>(i, n). (n, i)) (rows_until failed (db_batteries (hs_db h)))) @ hs_cache h\<rparr>"

definition battery_name :: "int \<Rightarrow> HistoryState \<Rightarrow> string" where
  "battery_name i h = (case find (\<lambda>e. snd e = i) (hs_cache h) of Some e \<Rightarrow> fst e | None \<Rightarrow> [])"

text \<open>The cache is a map: the table declares its names unique, so no name is in the list twice.\<close>

definition battery_list :: "HistoryState \<Rightarrow> (int \<times> string) list" where
  "battery_list h = sort_key fst (map (\<lambda>(n, i). (i, n)) (hs_cache h))"

section \<open>append\<close>

definition push_ram :: "int \<Rightarrow> TelemetrySample \<Rightarrow> HistoryState \<Rightarrow> HistoryState" where
  "push_ram now s h =
    (let cutoff = now - hs_ram_window h
     in h\<lparr>hs_ram := dropWhile (\<lambda>s. ts_time s < cutoff) (hs_ram h @ [s])\<rparr>)"

text \<open>Whether the statements of one \<open>append\<close> succeed, and the id of the new row.\<close>

record AppendEnv =
  ae_statements :: bool
  ae_new_battery :: RowIdEnv
  ae_begin :: bool
  ae_sample :: "int option"
  ae_cell :: "nat \<Rightarrow> bool"
  ae_commit :: bool

text \<open>The loop over the cells inside the transaction, up to the first insert that fails, and whether none did.\<close>

fun insert_cells :: "(nat \<Rightarrow> bool) \<Rightarrow> int \<Rightarrow> JkCellInfo \<Rightarrow> nat list \<Rightarrow> CellRow list \<Rightarrow> CellRow list \<times> bool" where
  "insert_cells ok sample_id cells [] rows = (rows, True)"
| "insert_cells ok sample_id cells (k # ks) rows =
     (if ok k then insert_cells ok sample_id cells ks (rows @ [cell_row sample_id cells k]) else (rows, False))"

text \<open>\<open>ROLLBACK\<close> restores the tables that \<open>BEGIN\<close> found.\<close>

definition rollback :: "Database \<Rightarrow> Database \<Rightarrow> Database" where
  "rollback db txn = db"

definition append_rows :: "AppendEnv \<Rightarrow> int \<Rightarrow> int \<Rightarrow> JkCellInfo \<Rightarrow> JkPackInfo \<Rightarrow> Database \<Rightarrow> Database" where
  "append_rows env bat_id ts_ms cells pack db =
    (if \<not> ae_begin env then db
     else case ae_sample env of
       None \<Rightarrow> rollback db db
     | Some sample_id \<Rightarrow>
         let txn = db\<lparr>db_samples := db_samples db @ [sample_row sample_id bat_id ts_ms cells pack]\<rparr>;
             (rows, ok) = insert_cells (ae_cell env) sample_id cells [0..<length (voltages_mv cells)] (db_cells txn);
             txn = txn\<lparr>db_cells := rows\<rparr>
         in if \<not> ok then rollback db txn
            else if ae_commit env then txn
            else rollback db txn)"

definition append_sample ::
    "AppendEnv \<Rightarrow> int \<Rightarrow> string \<Rightarrow> int \<Rightarrow> JkCellInfo \<Rightarrow> JkPackInfo \<Rightarrow> HistoryState \<Rightarrow> HistoryState" where
  "append_sample env now name ts cells pack h =
    (let h = push_ram now \<lparr>ts_battery_id = name, ts_time = ts, ts_cells = cells, ts_pack = pack\<rparr> h
     in if \<not> ae_statements env then h
        else let (bat_id, h) = battery_row_id (ae_new_battery env) name True h
             in if bat_id < 0 then h
                else h\<lparr>hs_db := append_rows env bat_id ts cells pack (hs_db h)\<rparr>)"

definition recent :: "string \<Rightarrow> HistoryState \<Rightarrow> TelemetrySample list" where
  "recent name h = filter (\<lambda>s. ts_battery_id s = name) (hs_ram h)"

section \<open>range\<close>

text \<open>\<open>ORDER BY ts_ms DESC\<close>; rows of one time keep an order SQL leaves open, here the order of
  their row ids reversed.\<close>

definition newest_first :: "SampleRow list \<Rightarrow> SampleRow list" where
  "newest_first rows = rev (sort_key sr_ts_ms rows)"

definition in_range :: "int \<Rightarrow> int \<Rightarrow> int \<Rightarrow> SampleRow \<Rightarrow> bool" where
  "in_range bat_id from_ms to_ms r \<longleftrightarrow> sr_battery_id r = bat_id \<and> sr_ts_ms r \<ge> from_ms \<and> sr_ts_ms r < to_ms"

definition bucket_of :: "int \<Rightarrow> int \<Rightarrow> SampleRow \<Rightarrow> int" where
  "bucket_of from_ms step_ms r = (sr_ts_ms r - from_ms) div step_ms"

text \<open>The window function: of the rows, newest first, the first of each bucket.\<close>

fun first_per_bucket :: "(SampleRow \<Rightarrow> int) \<Rightarrow> SampleRow list \<Rightarrow> SampleRow list" where
  "first_per_bucket f [] = []"
| "first_per_bucket f (r # rs) = r # first_per_bucket f (filter (\<lambda>s. f s \<noteq> f r) rs)"

definition select_samples :: "int \<Rightarrow> int \<Rightarrow> int \<Rightarrow> int \<Rightarrow> int \<Rightarrow> SampleRow list \<Rightarrow> SampleRow list" where
  "select_samples bat_id from_ms to_ms limit step_ms rows =
    (let rs = newest_first (filter (in_range bat_id from_ms to_ms) rows);
         rs = (if step_ms > 0 then first_per_bucket (bucket_of from_ms step_ms) rs else rs)
     in if limit > 0 then take (nat limit) rs else rs)"

definition cells_of :: "int \<Rightarrow> CellRow list \<Rightarrow> CellRow list" where
  "cells_of sample_id rows = sort_key cr_cell_idx (filter (\<lambda>c. cr_sample_id c = sample_id) rows)"

text \<open>
  What SQLite answers to a query: whether the lookup of the name, the statement for the samples and the one for
  their cells are prepared; and after how many rows a step fails, of the samples and of the cells of a sample
  (\<open>None\<close>: it does not), which the code takes for the end of the rows.  Without a read connection
  the answer is that of a statement that is not prepared.
\<close>

record QueryEnv =
  qe_select_id :: bool
  qe_samples :: bool
  qe_cells :: bool
  qe_rows :: "nat option"
  qe_cell_rows :: "int \<Rightarrow> nat option"

definition range_core ::
    "QueryEnv \<Rightarrow> int \<Rightarrow> string \<Rightarrow> int \<Rightarrow> int \<Rightarrow> int \<Rightarrow> int \<Rightarrow> Database \<Rightarrow> TelemetrySample list" where
  "range_core q bat_id name from_ms to_ms limit step_ms db =
    (if \<not> qe_samples q then []
     else if \<not> qe_cells q then []
     else map (\<lambda>r. row_sample name r (rows_until (qe_cell_rows q (sr_id r)) (cells_of (sr_id r) (db_cells db))))
       (rows_until (qe_rows q) (select_samples bat_id from_ms to_ms limit step_ms (db_samples db))))"

definition range_by_name ::
    "QueryEnv \<Rightarrow> string \<Rightarrow> int \<Rightarrow> int \<Rightarrow> int \<Rightarrow> int \<Rightarrow> HistoryState \<Rightarrow> TelemetrySample list \<times> HistoryState" where
  "range_by_name q name from_ms to_ms limit step_ms h =
    (let (bat_id, h) = battery_row_id \<lparr>re_select = qe_select_id q, re_insert = None\<rparr> name False h
     in if bat_id < 0 then ([], h)
        else (range_core q bat_id name from_ms to_ms limit step_ms (hs_db h), h))"

definition range_by_id ::
    "QueryEnv \<Rightarrow> int \<Rightarrow> int \<Rightarrow> int \<Rightarrow> int \<Rightarrow> int \<Rightarrow> HistoryState \<Rightarrow> TelemetrySample list" where
  "range_by_id q bat_id from_ms to_ms limit step_ms h =
     (if bat_id \<le> 0 then []
      else range_core q bat_id (battery_name bat_id h) from_ms to_ms limit step_ms (hs_db h))"

text \<open>A query that fails nowhere, and one that gives at least the first row there is.\<close>

definition query_ok :: "QueryEnv \<Rightarrow> bool" where
  "query_ok q \<longleftrightarrow> qe_samples q \<and> qe_cells q \<and> qe_rows q = None \<and> qe_cell_rows q = (\<lambda>_. None)"

definition query_answers :: "QueryEnv \<Rightarrow> bool" where
  "query_answers q \<longleftrightarrow> qe_samples q \<and> qe_cells q \<and> qe_rows q \<noteq> Some 0"

definition good_query :: QueryEnv where
  "good_query = \<lparr>qe_select_id = True, qe_samples = True, qe_cells = True, qe_rows = None, qe_cell_rows = (\<lambda>_. None)\<rparr>"

lemma good_query [simp]: "query_ok good_query" "query_answers good_query"
  by (simp_all add: query_ok_def query_answers_def good_query_def)

lemma rows_until_simps [simp]: "rows_until None rows = rows" "rows_until (Some n) rows = take n rows"
  by (simp_all add: rows_until_def)

lemma rows_until_sub: "set (rows_until failed rows) \<subseteq> set rows" "length (rows_until failed rows) \<le> length rows"
    "sorted_wrt P rows \<Longrightarrow> sorted_wrt P (rows_until failed rows)"
  by (cases failed; simp add: set_take_subset sorted_wrt_take)+

lemma rows_until_empty: "rows_until failed rows = [] \<longleftrightarrow> failed = Some 0 \<or> rows = []"
  by (cases failed) auto

section \<open>aggregate_pending\<close>

text \<open>
  UTC days are numbered from the epoch: \<open>date(ts_ms/1000, 'unixepoch')\<close> and the
  \<open>strptime\<close>/\<open>timegm\<close> of the result are inverse to each other on days (of the years 0 to 9999, which are the
  dates SQLite knows), so a date is its number.  The division of SQL, and the conversion of the clock to
  seconds, truncate towards zero.
\<close>

definition day_ms :: int where "day_ms = 86400000"

definition day_of :: "int \<Rightarrow> int" where
  "day_of ts_ms = (if ts_ms < 0 then - (- ts_ms div 1000) else ts_ms div 1000) div 86400"

text \<open>The power of a row in watts, and one step of the trapezoidal integration.\<close>

definition row_power :: "SampleRow \<Rightarrow> rat" where
  "row_power r = of_int (sr_voltage_mv r) * of_int (sr_current_ma r) / 1000000"

definition segment_wh :: "SampleRow \<Rightarrow> SampleRow \<Rightarrow> rat" where
  "segment_wh a b = (row_power a + row_power b) / 2 * (of_int (sr_ts_ms b - sr_ts_ms a) / 3600000)"

record Energy =
  en_prev :: "SampleRow option"
  en_charged :: rat
  en_discharged :: rat

definition energy_step :: "SampleRow \<Rightarrow> Energy \<Rightarrow> Energy" where
  "energy_step r e =
    (let e = (case en_prev e of None \<Rightarrow> e
              | Some p \<Rightarrow>
                  let dwh = segment_wh p r
                  in if dwh > 0 then e\<lparr>en_charged := en_charged e + dwh\<rparr>
                     else e\<lparr>en_discharged := en_discharged e - dwh\<rparr>)
     in e\<lparr>en_prev := Some r\<rparr>)"

definition day_energy :: "SampleRow list \<Rightarrow> Energy" where
  "day_energy rows = fold energy_step rows \<lparr>en_prev = None, en_charged = 0, en_discharged = 0\<rparr>"

definition day_samples :: "int \<Rightarrow> int \<Rightarrow> Database \<Rightarrow> SampleRow list" where
  "day_samples bat_id day db =
     sort_key sr_ts_ms (filter (in_range bat_id (day * day_ms) (day * day_ms + day_ms)) (db_samples db))"

definition pending_days :: "int \<Rightarrow> Database \<Rightarrow> (int \<times> int) list" where
  "pending_days today_ms db =
     sort_key fst (sort_key snd (remdups (map (\<lambda>r. (sr_battery_id r, day_of (sr_ts_ms r)))
       (filter (\<lambda>r. sr_ts_ms r < today_ms \<and>
           \<not> (\<exists>d \<in> set (db_daily db). dr_battery_id d = sr_battery_id r \<and> dr_day d = day_of (sr_ts_ms r)))
         (db_samples db)))))"

text \<open>\<open>INSERT OR REPLACE\<close> on the key (battery, date).\<close>

definition insert_daily :: "DailyRow \<Rightarrow> Database \<Rightarrow> Database" where
  "insert_daily d db =
     db\<lparr>db_daily := filter (\<lambda>x. \<not> (dr_battery_id x = dr_battery_id d \<and> dr_day x = dr_day d)) (db_daily db) @ [d]\<rparr>"

text \<open>
  What SQLite answers to an aggregation: how many of the pending days it finds before a step fails, none when the
  query is not prepared; for a day, how many of its samples it reads, and whether the other statements of
  the day succeed (the prepare of the read, \<open>BEGIN\<close>, the insert and \<open>COMMIT\<close>); and whether it deletes.
\<close>

record AggregateEnv =
  ag_pending :: "nat option"
  ag_samples :: "int \<times> int \<Rightarrow> nat option"
  ag_day :: "int \<times> int \<Rightarrow> bool"
  ag_purge :: bool

text \<open>One iteration of the loop over the pending days.\<close>

definition aggregate_day :: "AggregateEnv \<Rightarrow> int \<times> int \<Rightarrow> Database \<Rightarrow> Database" where
  "aggregate_day env p db =
    (let e = day_energy (rows_until (ag_samples env p) (day_samples (fst p) (snd p) db))
     in if ag_day env p then insert_daily \<lparr>dr_battery_id = fst p, dr_day = snd p,
            dr_charged_wh = en_charged e, dr_discharged_wh = en_discharged e\<rparr> db
        else db)"

text \<open>The delete cascades to the cell rows.\<close>

definition purge_samples :: "int \<Rightarrow> Database \<Rightarrow> Database" where
  "purge_samples purge_ms db =
    (let gone = filter (\<lambda>r. sr_ts_ms r < purge_ms) (db_samples db)
     in db\<lparr>db_samples := filter (\<lambda>r. \<not> sr_ts_ms r < purge_ms) (db_samples db),
           db_cells := filter (\<lambda>c. cr_sample_id c \<notin> sr_id ` set gone) (db_cells db)\<rparr>)"

definition aggregate_pending :: "AggregateEnv \<Rightarrow> int \<Rightarrow> Database \<Rightarrow> Database" where
  "aggregate_pending env now_ms db =
    (let today_ms = day_of now_ms * day_ms;
         purge_ms = today_ms - 8 * day_ms;
         pending = rows_until (ag_pending env) (pending_days today_ms db)
     in if pending = [] then db
        else let db = fold (aggregate_day env) pending db
             in if ag_purge env then purge_samples purge_ms db else db)"

text \<open>The answers of an aggregation in which nothing fails, except perhaps the delete.\<close>

definition aggregates :: "bool \<Rightarrow> AggregateEnv" where
  "aggregates purge = \<lparr>ag_pending = None, ag_samples = (\<lambda>_. None), ag_day = (\<lambda>_. True), ag_purge = purge\<rparr>"

lemma aggregates_simps [simp]:
  "ag_pending (aggregates purge) = None" "ag_day (aggregates purge) p" "ag_purge (aggregates purge) = purge"
  by (simp_all add: aggregates_def)

section \<open>Rows read back\<close>

lemma flags_read_back:
  "(word_of_int (sint (pack_flags p)) :: u32) = pack_flags p"
  "pack_flags p AND 0x1 \<noteq> 0 \<longleftrightarrow> charging_enabled p"
  "pack_flags p AND 0x2 \<noteq> 0 \<longleftrightarrow> discharging_enabled p"
  "pack_flags p AND 0x4 \<noteq> 0 \<longleftrightarrow> balancer_enabled p"
  by (simp_all add: pack_flags_def Let_def)

text \<open>What is stored of the cells: one resistance for each voltage, zero where there was none.\<close>

definition stored_cells :: "JkCellInfo \<Rightarrow> JkCellInfo" where
  "stored_cells cells = cells\<lparr>resistance_uohm :=
     map (\<lambda>k. if k < length (resistance_uohm cells) then resistance_uohm cells ! k else 0)
       [0..<length (voltages_mv cells)]\<rparr>"

lemma stored_cells_id:
  "length (resistance_uohm cells) = length (voltages_mv cells) \<Longrightarrow> stored_cells cells = cells"
proof -
  assume "length (resistance_uohm cells) = length (voltages_mv cells)"
  then have "map (\<lambda>k. if k < length (resistance_uohm cells) then resistance_uohm cells ! k else 0)
       [0..<length (voltages_mv cells)] = resistance_uohm cells"
    by (intro nth_equalityI) simp_all
  then show ?thesis by (simp add: stored_cells_def)
qed

lemma row_sample_row:
  assumes "map (\<lambda>c. word_of_int (cr_voltage_mv c)) cs = voltages_mv cells"
    and "map (\<lambda>c. word_of_int (cr_resistance_uohm c)) cs = resistance_uohm (stored_cells cells)"
  shows "row_sample name (sample_row i bat ts cells pack) cs =
    \<lparr>ts_battery_id = name, ts_time = ts, ts_cells = stored_cells cells, ts_pack = pack\<rparr>"
  using assms
  by (simp add: row_sample_def sample_row_def stored_cells_def Let_def flags_read_back)

lemma insert_cells_rows:
  "insert_cells ok i cells ks rows = (rows', True) \<Longrightarrow>
    rows' = rows @ map (cell_row i cells) ks \<and> list_all ok ks"
  by (induction ks arbitrary: rows) (force split: if_splits)+

lemma cell_rows_read_back:
  "map (\<lambda>c. word_of_int (cr_voltage_mv c)) (map (cell_row i cells) [0..<length (voltages_mv cells)]) = voltages_mv cells"
  by (simp add: cell_row_def Let_def comp_def map_nth)

lemma resistance_rows_read_back:
  "map (\<lambda>c. word_of_int (cr_resistance_uohm c)) (map (cell_row i cells) [0..<length (voltages_mv cells)]) =
     resistance_uohm (stored_cells cells)"
  by (simp add: cell_row_def stored_cells_def Let_def)

lemma cells_of_append:
  assumes "\<forall>c \<in> set rows. cr_sample_id c \<noteq> i"
  shows "cells_of i (rows @ map (cell_row i cells) [0..<n]) = map (cell_row i cells) [0..<n]"
proof -
  have "filter (\<lambda>c. cr_sample_id c = i) rows = []" using assms by (simp add: filter_empty_conv)
  moreover have "filter (\<lambda>c. cr_sample_id c = i) (map (cell_row i cells) [0..<n]) = map (cell_row i cells) [0..<n]"
    by (simp add: cell_row_def Let_def)
  moreover have "sorted (map cr_cell_idx (map (cell_row i cells) [0..<n]))"
    by (simp add: cell_row_def Let_def comp_def sorted_map_mono strict_mono_def mono_on_def monoI sorted_wrt_map)
  ultimately show ?thesis by (simp add: cells_of_def sort_key_id_if_sorted sorted_sort_id)
qed

lemma cells_of_other: "j \<noteq> i \<Longrightarrow> cells_of j (rows @ map (cell_row i cells) ks) = cells_of j rows"
proof -
  assume "j \<noteq> i"
  then have "filter (\<lambda>c. cr_sample_id c = j) (map (cell_row i cells) ks) = []"
    by (simp add: filter_empty_conv cell_row_def Let_def)
  then show ?thesis by (simp add: cells_of_def)
qed

lemma range_core_ok:
  "query_ok q \<Longrightarrow> mset (range_core q bat name from_ms to_ms (-1) 0 db) =
     image_mset (\<lambda>r. row_sample name r (cells_of (sr_id r) (db_cells db)))
       (mset (filter (in_range bat from_ms to_ms) (db_samples db)))"
  by (simp add: query_ok_def range_core_def select_samples_def newest_first_def)

section \<open>append\<close>

lemma append_rows_cases:
  "append_rows env bat ts cells pack db = db \<or>
   (\<exists>i. ae_sample env = Some i \<and> list_all (ae_cell env) [0..<length (voltages_mv cells)] \<and> ae_commit env \<and>
     append_rows env bat ts cells pack db =
       db\<lparr>db_samples := db_samples db @ [sample_row i bat ts cells pack],
          db_cells := db_cells db @ map (cell_row i cells) [0..<length (voltages_mv cells)]\<rparr>)"
  by (auto simp: append_rows_def rollback_def Let_def dest: insert_cells_rows split: option.splits prod.splits)

section \<open>range\<close>

lemma set_newest_first [simp]: "set (newest_first rs) = set rs"
  by (simp add: newest_first_def)

lemma newest_first_sorted: "sorted_wrt (\<lambda>a b. sr_ts_ms a \<ge> sr_ts_ms b) (newest_first rs)"
  using sorted_sort_key [of sr_ts_ms rs] by (simp add: newest_first_def sorted_wrt_rev sorted_map)

lemma first_per_bucket_subset: "set (first_per_bucket f rs) \<subseteq> set rs"
  by (induction f rs rule: first_per_bucket.induct) auto

lemma first_per_bucket_sorted: "sorted_wrt P rs \<Longrightarrow> sorted_wrt P (first_per_bucket f rs)"
proof (induction f rs rule: first_per_bucket.induct)
  case (2 f r rs)
  have "set (first_per_bucket f (filter (\<lambda>s. f s \<noteq> f r) rs)) \<subseteq> set rs"
    using first_per_bucket_subset [of f "filter (\<lambda>s. f s \<noteq> f r) rs"] by auto
  then show ?case using 2 by (auto simp: sorted_wrt_filter)
qed simp

lemma first_per_bucket_distinct: "distinct (map f (first_per_bucket f rs))"
proof (induction f rs rule: first_per_bucket.induct)
  case (2 f r rs)
  have "set (first_per_bucket f (filter (\<lambda>s. f s \<noteq> f r) rs)) \<subseteq> {s. f s \<noteq> f r}"
    using first_per_bucket_subset [of f "filter (\<lambda>s. f s \<noteq> f r) rs"] by auto
  then show ?case using 2 by force
qed simp

text \<open>Each row has a row of its bucket in the result that is not older.\<close>

lemma first_per_bucket_newest:
  assumes "sorted_wrt (\<lambda>a b. g a \<ge> g b) rs" "r \<in> set rs"
  shows "\<exists>s \<in> set (first_per_bucket f rs). f s = f r \<and> g s \<ge> (g r :: int)"
  using assms
proof (induction f rs rule: first_per_bucket.induct)
  case (2 f x rs)
  show ?case
  proof (cases "f r = f x")
    case True
    then show ?thesis using 2(2,3) by auto
  next
    case False
    then have "r \<in> set (filter (\<lambda>s. f s \<noteq> f x) rs)" using 2(3) by auto
    with 2(1) 2(2) show ?thesis by (auto simp: sorted_wrt_filter)
  qed
qed simp

section \<open>Energy\<close>

fun total_wh :: "SampleRow list \<Rightarrow> rat" where
  "total_wh (a # b # rs) = segment_wh a b + total_wh (b # rs)"
| "total_wh _ = 0"

lemma energy_balance:
  "en_charged (fold energy_step rs e) - en_discharged (fold energy_step rs e) =
     en_charged e - en_discharged e +
       (case en_prev e of None \<Rightarrow> total_wh rs | Some p \<Rightarrow> total_wh (p # rs))"
proof (induction rs arbitrary: e)
  case (Cons r rs)
  have "en_prev (energy_step r e) = Some r"
    "en_charged (energy_step r e) - en_discharged (energy_step r e) =
       en_charged e - en_discharged e + (case en_prev e of None \<Rightarrow> 0 | Some p \<Rightarrow> segment_wh p r)"
    by (auto simp: energy_step_def Let_def split: option.split)
  then show ?case using Cons.IH [of "energy_step r e"] by (simp split: option.split)
qed (simp split: option.split)

lemma energy_nonneg:
  "0 \<le> en_charged e \<Longrightarrow> 0 \<le> en_discharged e \<Longrightarrow>
   0 \<le> en_charged (fold energy_step rs e) \<and> 0 \<le> en_discharged (fold energy_step rs e)"
proof (induction rs arbitrary: e)
  case (Cons r rs)
  have "0 \<le> en_charged (energy_step r e)" "0 \<le> en_discharged (energy_step r e)"
    using Cons.prems by (auto simp: energy_step_def Let_def split: option.split)
  then show ?case using Cons.IH by simp
qed simp

section \<open>Aggregation\<close>

definition has_daily :: "Database \<Rightarrow> int \<Rightarrow> int \<Rightarrow> bool" where
  "has_daily db bat day \<longleftrightarrow> (\<exists>d \<in> set (db_daily db). dr_battery_id d = bat \<and> dr_day d = day)"

lemma pending_days_iff:
  "(bat, day) \<in> set (pending_days today db) \<longleftrightarrow>
     (\<exists>r \<in> set (db_samples db). sr_ts_ms r < today \<and> sr_battery_id r = bat \<and> day_of (sr_ts_ms r) = day) \<and>
     \<not> has_daily db bat day"
  by (auto simp: pending_days_def has_daily_def)

lemma aggregate_day_keeps [simp]:
  "db_samples (aggregate_day env p db) = db_samples db"
  "db_cells (aggregate_day env p db) = db_cells db"
  "db_batteries (aggregate_day env p db) = db_batteries db"
  by (simp_all add: aggregate_day_def insert_daily_def Let_def)

lemma aggregate_days_keep [simp]:
  "db_samples (fold (aggregate_day env) ps db) = db_samples db"
  "db_cells (fold (aggregate_day env) ps db) = db_cells db"
  by (induction ps arbitrary: db) simp_all

lemma has_daily_aggregate:
  "has_daily (aggregate_day env p db) bat day \<longleftrightarrow> has_daily db bat day \<or> (ag_day env p \<and> p = (bat, day))"
  by (cases p) (auto simp: has_daily_def aggregate_day_def insert_daily_def Let_def)

lemma has_daily_aggregates:
  "has_daily (fold (aggregate_day env) ps db) bat day \<longleftrightarrow>
     has_daily db bat day \<or> ((bat, day) \<in> set ps \<and> ag_day env (bat, day))"
  by (induction ps arbitrary: db) (simp add: has_daily_def, fastforce simp: has_daily_aggregate)

lemma aggregate_day_daily:
  "d \<in> set (db_daily db) \<Longrightarrow> (dr_battery_id d, dr_day d) \<noteq> p \<Longrightarrow> d \<in> set (db_daily (aggregate_day env p db))"
  by (cases p) (auto simp: aggregate_day_def insert_daily_def Let_def)

lemma aggregate_days_daily:
  "d \<in> set (db_daily db) \<Longrightarrow> (dr_battery_id d, dr_day d) \<notin> set ps \<Longrightarrow>
   d \<in> set (db_daily (fold (aggregate_day env) ps db))"
  by (induction ps arbitrary: db) (auto intro!: aggregate_day_daily)

section \<open>Samples used in witnesses\<close>

definition sample_cells :: JkCellInfo where
  "sample_cells = JkCellInfo_default\<lparr>voltages_mv := [3300, 3310], resistance_uohm := [500, 510]\<rparr>"

definition sample_history :: HistoryState where
  "sample_history = \<lparr>hs_ram_window = 86400000, hs_ram = [], hs_cache = [(''a'', 1)],
     hs_db = \<lparr>db_batteries = [(1, ''a'')], db_samples = [], db_cells = [], db_daily = []\<rparr>\<rparr>"

definition sample_env :: AppendEnv where
  "sample_env = \<lparr>ae_statements = True, ae_new_battery = \<lparr>re_select = True, re_insert = None\<rparr>,
     ae_begin = True, ae_sample = Some 1,
     ae_cell = (\<lambda>_. True), ae_commit = True\<rparr>"

section \<open>Properties\<close>

text \<open>C25: An append is atomic: whichever of its statements fail, the tables of samples and cells
  are either as before, or the inserts and the commit have all succeeded and the tables have gained exactly one
  sample row and all cell rows of it; the daily table never changes.\<close>

theorem append_is_atomic:
  "let db = hs_db h; db' = hs_db (append_sample env now name ts cells pack h) in
     db_daily db' = db_daily db \<and>
     (db_samples db' = db_samples db \<and> db_cells db' = db_cells db \<or>
      (\<exists>i bat. ae_sample env = Some i \<and> list_all (ae_cell env) [0..<length (voltages_mv cells)] \<and> ae_commit env \<and>
         db_samples db' = db_samples db @ [sample_row i bat ts cells pack] \<and>
         db_cells db' = db_cells db @ map (cell_row i cells) [0..<length (voltages_mv cells)]))"
proof -
  have id: "db_daily (hs_db (snd (battery_row_id n name c k))) = db_daily (hs_db k)"
    "db_samples (hs_db (snd (battery_row_id n name c k))) = db_samples (hs_db k)"
    "db_cells (hs_db (snd (battery_row_id n name c k))) = db_cells (hs_db k)" for n c k
    by (auto simp: battery_row_id_def Let_def split: option.split prod.split)
  define h1 where "h1 = push_ram now \<lparr>ts_battery_id = name, ts_time = ts, ts_cells = cells, ts_pack = pack\<rparr> h"
  obtain bat h2 where b: "battery_row_id (ae_new_battery env) name True h1 = (bat, h2)" by (cases rule: prod.exhaust)
  have h1: "hs_db h1 = hs_db h" by (simp add: h1_def push_ram_def Let_def)
  have h2: "db_daily (hs_db h2) = db_daily (hs_db h)" "db_samples (hs_db h2) = db_samples (hs_db h)"
    "db_cells (hs_db h2) = db_cells (hs_db h)"
    using id [of "ae_new_battery env" True h1] by (simp_all add: b h1)
  let ?db' = "hs_db (append_sample env now name ts cells pack h)"
  have "?db' = hs_db h \<or> ?db' = hs_db h2 \<or> ?db' = append_rows env bat ts cells pack (hs_db h2)"
    using h1 by (auto simp: append_sample_def Let_def h1_def [symmetric] b)
  with append_rows_cases [of env bat ts cells pack "hs_db h2"] h2
  consider "db_daily ?db' = db_daily (hs_db h)" "db_samples ?db' = db_samples (hs_db h)" "db_cells ?db' = db_cells (hs_db h)"
    | i where "ae_sample env = Some i" "list_all (ae_cell env) [0..<length (voltages_mv cells)]" "ae_commit env"
      "db_daily ?db' = db_daily (hs_db h)"
      "db_samples ?db' = db_samples (hs_db h) @ [sample_row i bat ts cells pack]"
      "db_cells ?db' = db_cells (hs_db h) @ map (cell_row i cells) [0..<length (voltages_mv cells)]"
    by fastforce
  then show ?thesis
    unfolding Let_def by cases blast+
qed



text \<open>A range query returns only rows of its battery and its half-open time range, newest
  first and at most as many as its limit; a decimated query without limit returns at most one row per time
  bucket, and for every row in range a row of the same bucket that is not older.\<close>

theorem range_selects:
  "let out = select_samples bat from_ms to_ms limit step_ms rows;
       all = filter (in_range bat from_ms to_ms) rows in
   set out \<subseteq> set all \<and>
   sorted_wrt (\<lambda>a b. sr_ts_ms a \<ge> sr_ts_ms b) out \<and>
   (if limit > 0 then int (length out) \<le> limit
    else if step_ms > 0 then
      distinct (map (bucket_of from_ms step_ms) out) \<and>
      set all \<subseteq> {r. \<exists>s \<in> set out. bucket_of from_ms step_ms s = bucket_of from_ms step_ms r \<and> sr_ts_ms s \<ge> sr_ts_ms r}
    else set out = set all)"
proof -
  let ?all = "filter (in_range bat from_ms to_ms) rows"
  let ?f = "bucket_of from_ms step_ms"
  define rs where "rs = (if step_ms > 0 then first_per_bucket ?f (newest_first ?all) else newest_first ?all)"
  have out: "select_samples bat from_ms to_ms limit step_ms rows = (if limit > 0 then take (nat limit) rs else rs)"
    by (simp add: select_samples_def rs_def Let_def)
  have sub: "set rs \<subseteq> set ?all" using first_per_bucket_subset [of ?f "newest_first ?all"] by (auto simp: rs_def)
  have sorted: "sorted_wrt (\<lambda>a b. sr_ts_ms a \<ge> sr_ts_ms b) rs"
    using newest_first_sorted [of ?all] first_per_bucket_sorted [OF newest_first_sorted [of ?all]]
    by (auto simp: rs_def)
  have "set ?all \<subseteq> {r. \<exists>s \<in> set rs. ?f s = ?f r \<and> sr_ts_ms s \<ge> sr_ts_ms r}" if "step_ms > 0"
    using first_per_bucket_newest [OF newest_first_sorted [of ?all], of _ ?f] that
    by (auto simp: rs_def)
  moreover have "distinct (map ?f rs)" if "step_ms > 0"
    using first_per_bucket_distinct [of ?f "newest_first ?all"] that by (simp add: rs_def)
  moreover have "set (take k rs) \<subseteq> set ?all" for k using sub set_take_subset [of k rs] by blast
  moreover have "step_ms \<le> 0 \<Longrightarrow> set rs = set ?all" by (simp add: rs_def)
  ultimately show ?thesis
    using sub sorted by (auto simp: Let_def out sorted_wrt_take)
qed

text \<open>The energies of a day are never negative, and charged minus discharged is exactly the
  trapezoidal sum over the consecutive samples of the day.\<close>

theorem energy_is_trapezoid_sum:
  "0 \<le> en_charged (day_energy rows) \<and> 0 \<le> en_discharged (day_energy rows) \<and>
   en_charged (day_energy rows) - en_discharged (day_energy rows) = total_wh rows"
  using energy_balance [of rows "\<lparr>en_prev = None, en_charged = 0, en_discharged = 0\<rparr>"]
    energy_nonneg [of "\<lparr>en_prev = None, en_charged = 0, en_discharged = 0\<rparr>" rows]
  by (simp add: day_energy_def)


text \<open>When no past day is waiting to be aggregated, nothing is purged, however old the samples
  are: the early return comes before the purge.\<close>

theorem purge_skipped_when_nothing_pending:
  assumes "\<forall>r \<in> set (db_samples db). has_daily db (sr_battery_id r) (day_of (sr_ts_ms r))"
  shows "aggregate_pending env now db = db"
proof -
  have "p \<notin> set (pending_days (day_of now * day_ms) db)" for p
    using assms by (cases p) (auto simp: pending_days_iff)
  then have "pending_days (day_of now * day_ms) db = []" by (metis last_in_set)
  then show ?thesis by (simp add: aggregate_pending_def Let_def rows_until_empty)
qed

lemma purge_skipped_when_nothing_pending_witness:
  "let r = sample_row 1 1 0 sample_cells JkPackInfo_default;
       db = \<lparr>db_batteries = [(1, ''a'')], db_samples = [r], db_cells = [],
             db_daily = [\<lparr>dr_battery_id = 1, dr_day = 0, dr_charged_wh = 0, dr_discharged_wh = 0\<rparr>]\<rparr>
   in aggregate_pending (aggregates True) (100 * day_ms) db = db"
  unfolding Let_def
  by (rule purge_skipped_when_nothing_pending) (simp add: has_daily_def sample_row_def day_of_def day_ms_def)

text \<open>While samples are appended in the order of their times, the window in memory holds them
  in order, and after an append nothing that is older than the window.\<close>

theorem ram_window:
  assumes "sorted (map ts_time (hs_ram h))" "\<forall>s \<in> set (hs_ram h). ts_time s \<le> ts"
  shows "let h' = append_sample env now name ts cells pack h in
    sorted (map ts_time (hs_ram h')) \<and> (\<forall>s \<in> set (hs_ram h'). ts_time s \<ge> now - hs_ram_window h)"
proof -
  define h' where "h' = append_sample env now name ts cells pack h"
  let ?s = "\<lparr>ts_battery_id = name, ts_time = ts, ts_cells = cells, ts_pack = pack\<rparr>"
  let ?c = "now - hs_ram_window h"
  have id: "hs_ram (snd (battery_row_id n name c k)) = hs_ram k" for n c k
    by (auto simp: battery_row_id_def Let_def split: option.split prod.split)
  have ram: "hs_ram h' = dropWhile (\<lambda>s. ts_time s < ?c) (hs_ram h @ [?s])"
    using id [of "ae_new_battery env" True "push_ram now ?s h"]
    by (auto simp: h'_def append_sample_def push_ram_def Let_def split: prod.splits)
  have srt: "sorted (map ts_time (hs_ram h @ [?s]))" using assms(1,2) by (auto simp: sorted_append)
  have "sorted (map ts_time (dropWhile P xs))" if "sorted (map ts_time xs)" for P and xs :: "TelemetrySample list"
    using that by (induction xs) auto
  moreover have "\<forall>s \<in> set (dropWhile (\<lambda>s. ts_time s < ?c) xs). ts_time s \<ge> ?c"
    if "sorted (map ts_time xs)" for xs :: "TelemetrySample list"
    using that by (induction xs) auto
  ultimately show ?thesis
    unfolding h'_def [symmetric] Let_def ram using srt by blast
qed

lemma ram_window_witness:
  "\<forall>s \<in> set (hs_ram (append_sample sample_env 5000 ''a'' 5000 sample_cells JkPackInfo_default sample_history)).
     ts_time s \<ge> 5000 - 86400000"
  using ram_window [of sample_history 5000 sample_env 5000 "''a''" sample_cells JkPackInfo_default]
  by (simp add: sample_history_def Let_def)

end
