(* ===== verification/Daily.thy ===== *)
theory Daily
  imports History "HOL-Library.List_Lexorder" "HOL-Library.Char_ord"
begin

text \<open>
  src/history.cpp, \<open>get_daily_energy\<close>: the rows of one month, chosen by comparing date texts.
  \<open>civil\<close> is the calendar (day number to year, month, day) that SQLite's \<open>date()\<close> used when it
  wrote the rows; it is a parameter, and the text of a date is its ISO form.  SQLite compares
  texts as \<open>memcmp\<close> does, which is the lexicographic order of the library on strings.
\<close>

section \<open>Texts\<close>

fun decimal :: "nat \<Rightarrow> string" where
  "decimal n = (if n < 10 then [char_of (48 + n)] else decimal (n div 10) @ [char_of (48 + n mod 10)])"

declare decimal.simps [simp del]

text \<open>\<open>%0wd\<close> of a number that is not negative.\<close>

definition pad :: "nat \<Rightarrow> nat \<Rightarrow> string" where
  "pad w n = replicate (w - length (decimal n)) CHR ''0'' @ decimal n"

definition iso_date :: "nat \<times> nat \<times> nat \<Rightarrow> string" where
  "iso_date d = (case d of (y, m, d) \<Rightarrow> pad 4 y @ ''-'' @ pad 2 m @ ''-'' @ pad 2 d)"

text \<open>\<open>snprintf\<close> into a buffer of 11 bytes.\<close>

definition month_text :: "nat \<Rightarrow> nat \<Rightarrow> string" where
  "month_text year month = take 10 (pad 4 year @ ''-'' @ pad 2 month @ ''-01'')"

section \<open>The query\<close>

record DailyEnergy =
  de_battery_id :: int
  de_battery_name :: string
  de_date :: string
  de_charged_wh :: rat
  de_discharged_wh :: rat

definition daily_entry :: "(int \<Rightarrow> nat \<times> nat \<times> nat) \<Rightarrow> HistoryState \<Rightarrow> DailyRow \<Rightarrow> DailyEnergy" where
  "daily_entry civil h d =
     \<lparr>de_battery_id = dr_battery_id d, de_battery_name = battery_name (dr_battery_id d) h,
      de_date = iso_date (civil (dr_day d)),
      de_charged_wh = dr_charged_wh d, de_discharged_wh = dr_discharged_wh d\<rparr>"

text \<open>One statement; a step that fails ends the rows.\<close>

definition get_daily_energy ::
    "QueryEnv \<Rightarrow> (int \<Rightarrow> nat \<times> nat \<times> nat) \<Rightarrow> int \<Rightarrow> nat \<Rightarrow> nat \<Rightarrow> HistoryState \<Rightarrow> DailyEnergy list" where
  "get_daily_energy q civil battery_id year month h =
    (let month_start = month_text year month;
         (ny, nm) = (if month + 1 > 12 then (year + 1, 1) else (year, month + 1));
         month_end = month_text ny nm;
         date = (\<lambda>d. iso_date (civil (dr_day d)));
         rows = filter (\<lambda>d. dr_battery_id d = battery_id \<and> date d \<ge> month_start \<and> date d < month_end)
                  (db_daily (hs_db h))
     in if \<not> qe_samples q then []
        else map (daily_entry civil h) (rows_until (qe_rows q) (sort_key date rows)))"

section \<open>Texts of fixed width are ordered as numbers\<close>

fun fixed :: "nat \<Rightarrow> nat \<Rightarrow> string" where
  "fixed 0 n = []"
| "fixed (Suc w) n = fixed w (n div 10) @ [char_of (48 + n mod 10)]"

lemma digit_zero [simp]: "char_of (48 :: nat) = CHR ''0''"
  by code_simp

lemma digit_one [simp]: "char_of (49 :: nat) = CHR ''1''"
  by code_simp

lemma fixed_zero: "fixed w 0 = replicate w CHR ''0''"
  by (induction w) (simp_all add: replicate_append_same)

lemma length_decimal: "n < 10 ^ w \<Longrightarrow> w > 0 \<Longrightarrow> length (decimal n) \<le> w"
proof (induction w arbitrary: n)
  case (Suc w)
  show ?case
  proof (cases "n < 10")
    case False
    then have "w > 0" using Suc.prems by (cases w) auto
    moreover have "n div 10 < 10 ^ w" using Suc.prems by (simp add: less_mult_imp_div_less)
    ultimately show ?thesis using Suc.IH [of "n div 10"] False by (subst decimal.simps) simp
  qed (subst decimal.simps, simp)
qed simp

lemma pad_fixed: "n < 10 ^ w \<Longrightarrow> w > 0 \<Longrightarrow> pad w n = fixed w n"
proof (induction w arbitrary: n)
  case (Suc w)
  show ?case
  proof (cases "n < 10")
    case True
    then show ?thesis by (simp add: pad_def decimal.simps fixed_zero)
  next
    case False
    then have w: "w > 0" using Suc.prems by (cases w) auto
    have d: "n div 10 < 10 ^ w" using Suc.prems by (simp add: less_mult_imp_div_less)
    have "decimal n = decimal (n div 10) @ [char_of (48 + n mod 10)]"
      using False by (subst decimal.simps) simp
    then show ?thesis using Suc.IH [OF d w] length_decimal [OF d w] by (simp add: pad_def)
  qed
qed simp

lemma digit_less: "d < 10 \<Longrightarrow> e < 10 \<Longrightarrow> char_of (48 + d) < (char_of (48 + e) :: char) \<longleftrightarrow> d < (e :: nat)"
  by (simp add: less_char_def)

lemma digit_eq: "d < 10 \<Longrightarrow> e < 10 \<Longrightarrow> char_of (48 + d) = (char_of (48 + e) :: char) \<longleftrightarrow> d = (e :: nat)"
  by (simp add: char_of_eq_iff take_bit_nat_eq_self)

lemma div_mod_less:
  "x div 10 < y div 10 \<or> x div 10 = y div 10 \<and> x mod 10 < y mod 10 \<longleftrightarrow> x < (y :: nat)"
proof -
  have "10 * a + r < 10 * b + s \<longleftrightarrow> a < b \<or> a = b \<and> r < s" if "r < 10" "s < 10" for a b r s :: nat
    using that by linarith
  from this [of "x mod 10" "y mod 10" "x div 10" "y div 10"] show ?thesis by simp
qed

lemma div_mod_eq: "x div 10 = y div 10 \<and> x mod 10 = y mod 10 \<longleftrightarrow> x = (y :: nat)"
  by (metis div_mult_mod_eq)

lemma fixed_less:
  "x < 10 ^ w \<Longrightarrow> y < 10 ^ w \<Longrightarrow> fixed w x @ s < fixed w y @ t \<longleftrightarrow> x < y \<or> x = y \<and> s < t"
proof (induction w arbitrary: x y s t)
  case (Suc w)
  have d: "x div 10 < 10 ^ w" "y div 10 < 10 ^ w"
    using Suc.prems by (simp_all add: less_mult_imp_div_less)
  have "fixed (Suc w) x @ s < fixed (Suc w) y @ t \<longleftrightarrow>
    x div 10 < y div 10 \<or> x div 10 = y div 10 \<and> (x mod 10 < y mod 10 \<or> x mod 10 = y mod 10 \<and> s < t)"
    using Suc.IH [OF d, of "char_of (48 + x mod 10) # s" "char_of (48 + y mod 10) # t"]
      digit_less [of "x mod 10" "y mod 10"] digit_eq [of "x mod 10" "y mod 10"] by simp
  then show ?case using div_mod_less [of x y] div_mod_eq [of x y] by blast
qed simp

lemma fixed_le:
  "x < 10 ^ w \<Longrightarrow> y < 10 ^ w \<Longrightarrow> fixed w x @ s \<le> fixed w y @ t \<longleftrightarrow> x < y \<or> x = y \<and> s \<le> t"
  using fixed_less [of y w x t s] by (auto simp flip: not_less)

definition calendar_date :: "nat \<times> nat \<times> nat \<Rightarrow> bool" where
  "calendar_date c = (case c of (y, m, d) \<Rightarrow> y \<le> 9999 \<and> 1 \<le> m \<and> m \<le> 12 \<and> 1 \<le> d \<and> d \<le> 31)"

lemma iso_date_fixed:
  "calendar_date (y, m, d) \<Longrightarrow> iso_date (y, m, d) = fixed 4 y @ CHR ''-'' # fixed 2 m @ CHR ''-'' # fixed 2 d @ []"
  by (simp add: iso_date_def calendar_date_def pad_fixed)

lemma length_fixed [simp]: "length (fixed w n) = w"
  by (induction w arbitrary: n) simp_all

lemma month_text_fixed:
  "y \<le> 9999 \<Longrightarrow> m \<le> 12 \<Longrightarrow> month_text y m = fixed 4 y @ CHR ''-'' # fixed 2 m @ CHR ''-'' # fixed 2 1 @ []"
  by (simp add: month_text_def pad_fixed numeral_2_eq_2)

lemma iso_date_less:
  assumes "calendar_date (y, m, d)" "calendar_date (y', m', d')"
  shows "iso_date (y, m, d) < iso_date (y', m', d') \<longleftrightarrow>
    y < y' \<or> y = y' \<and> (m < m' \<or> m = m' \<and> d < d')"
  using assms iso_date_fixed [OF assms(1)] iso_date_fixed [OF assms(2)]
    fixed_less [of y 4 y'] fixed_less [of m 2 m'] fixed_less [of d 2 d' "[]" "[]"]
  by (simp add: calendar_date_def)

lemma month_text_date: "y \<le> 9999 \<Longrightarrow> m \<le> 12 \<Longrightarrow> 1 \<le> m \<Longrightarrow> month_text y m = iso_date (y, m, 1)"
  by (simp add: month_text_fixed iso_date_fixed calendar_date_def)

lemma in_month:
  assumes c: "calendar_date c" and "0 < year" "year \<le> 9998" "1 \<le> month" "month \<le> 12"
  shows "month_text year month \<le> iso_date c \<and>
     iso_date c < (if month + 1 > 12 then month_text (year + 1) 1 else month_text year (month + 1)) \<longleftrightarrow>
     fst c = year \<and> fst (snd c) = month"
proof -
  obtain y m d where [simp]: "c = (y, m, d)" by (cases c)
  have cal: "calendar_date (year, month, 1)" "calendar_date (year + 1, 1, 1)"
    "month < 12 \<Longrightarrow> calendar_date (year, month + 1, 1)"
    using assms by (auto simp: calendar_date_def)
  have lo: "month_text year month \<le> iso_date c \<longleftrightarrow> \<not> (y < year \<or> y = year \<and> (m < month \<or> m = month \<and> d < 1))"
    using assms iso_date_less [of y m d year month 1] cal by (simp add: month_text_date not_less [symmetric])
  show ?thesis
  proof (cases "month < 12")
    case True
    then show ?thesis using lo assms iso_date_less [of y m d year "month + 1" 1] cal
      by (auto simp: month_text_date calendar_date_def)
  next
    case False
    then have [simp]: "month = 12" using assms by simp
    show ?thesis using lo assms iso_date_less [of y m d "year + 1" 1 1] cal
      by (auto simp: month_text_date calendar_date_def)
  qed
qed

text \<open>For years up to 9998 the page of a month lists exactly the daily rows of the battery
  whose date lies in that month, one entry each, in the order of the days: comparing the texts
  of the dates agrees with the calendar, December included.  The query must not fail.\<close>

theorem month_rows_are_exact:
  assumes "0 < year" "year \<le> 9998" "1 \<le> month" "month \<le> 12" and cal: "\<And>n. calendar_date (civil n)"
    and q: "query_ok q"
  shows "\<exists>rows. get_daily_energy q civil bat year month h = map (daily_entry civil h) rows \<and>
    mset rows = mset (filter (\<lambda>d. dr_battery_id d = bat \<and> fst (civil (dr_day d)) = year \<and>
      fst (snd (civil (dr_day d))) = month) (db_daily (hs_db h))) \<and>
    sorted (map (\<lambda>d. snd (snd (civil (dr_day d)))) rows)"
proof -
  let ?date = "\<lambda>d. iso_date (civil (dr_day d))"
  let ?rows = "filter (\<lambda>d. dr_battery_id d = bat \<and> fst (civil (dr_day d)) = year \<and>
      fst (snd (civil (dr_day d))) = month) (db_daily (hs_db h))"
  have eq: "get_daily_energy q civil bat year month h = map (daily_entry civil h) (sort_key ?date ?rows)"
    using in_month [OF cal assms(1-4)]
    by (cases "month + 1 > 12") (use q in \<open>simp_all add: get_daily_energy_def Let_def query_ok_def\<close>)
  have le: "snd (snd (civil (dr_day a))) \<le> snd (snd (civil (dr_day b)))"
    if "a \<in> set ?rows" "b \<in> set ?rows" "?date a \<le> ?date b" for a b
  proof -
    have d: "civil (dr_day a) = (year, month, snd (snd (civil (dr_day a))))"
      using that(1) by (simp add: prod_eq_iff)
    have e: "civil (dr_day b) = (year, month, snd (snd (civil (dr_day b))))"
      using that(2) by (simp add: prod_eq_iff)
    from cal [of "dr_day a"] cal [of "dr_day b"] that(3) show ?thesis
      using iso_date_less [of year month "snd (snd (civil (dr_day b)))" year month "snd (snd (civil (dr_day a)))"]
      by (metis d e linorder_not_less)
  qed
  have "sorted_wrt (\<lambda>a b. ?date a \<le> ?date b) (sort_key ?date ?rows)"
    using sorted_sort_key [of ?date ?rows] by (simp only: sorted_map)
  then have "sorted_wrt (\<lambda>a b. snd (snd (civil (dr_day a))) \<le> snd (snd (civil (dr_day b)))) (sort_key ?date ?rows)"
    by (rule sorted_wrt_mono_rel [rotated]) (rule le, simp_all)
  then show ?thesis using eq by (intro exI [of _ "sort_key ?date ?rows"]) (simp add: sorted_map)
qed

text \<open>A calendar with the months of a common year, day 0 being the first of January 2024.\<close>

definition sample_civil :: "int \<Rightarrow> nat \<times> nat \<times> nat" where
  "sample_civil n = (2024, 1 + nat (n div 31) mod 12, 1 + nat (n mod 31))"

lemma month_rows_are_exact_witness:
  "\<exists>rows. get_daily_energy good_query sample_civil 1 2024 12 sample_history = map (daily_entry sample_civil sample_history) rows \<and>
     sorted (map (\<lambda>d. snd (snd (sample_civil (dr_day d)))) rows)"
proof -
  have "calendar_date (sample_civil n)" for n
  proof -
    have "nat (n mod 31) < 31" using pos_mod_bound [of 31 n] by linarith
    moreover have "nat (n div 31) mod 12 < 12" by simp
    ultimately show ?thesis by (simp add: calendar_date_def sample_civil_def)
  qed
  from month_rows_are_exact [where year = 2024 and month = 12 and bat = 1 and h = sample_history and civil = sample_civil and q = good_query,
      OF _ _ _ _ this] show ?thesis by auto
qed

end
