(* ===== verification/Config.thy ===== *)
theory Config
  imports Prelude
begin

text \<open>
  src/config.cpp and include/config.hpp: the configuration and its validation.  The libconfuse
  library is not part of the repository; what it hands back is a parameter: the return code of
  \<open>cfg_parse\<close> and, per section, the getters \<open>cfg_title\<close>, \<open>cfg_getstr\<close> (\<open>None\<close> is the null
  pointer) and \<open>cfg_getint\<close>.  The three validation callbacks are modelled as functions; that
  libconfuse calls them on the values a file does give is documented behaviour.
  \<open>BatteryConfig bc;\<close> leaves \<open>bc.link\<close> indeterminate: its value is the parameter \<open>garbage\<close>.
\<close>

section \<open>Data\<close>

datatype BatteryLink = Bluetooth | Ttl | Reserve

record BatteryConfig =
  bc_name :: string
  bc_link :: BatteryLink
  bc_link_raw :: string
  bc_address :: string
  bc_capacity :: i32
  bc_protocol :: string
  bc_service_uuid :: string
  bc_char_write_uuid :: string
  bc_char_notify_uuid :: string
  bc_scan_timeout_ms :: i32
  bc_adapter_poll_ms :: i32
  bc_uart_baud :: i32
  bc_pylontech_address :: i32
  bc_mirror :: string
  bc_reconnect_ms :: i32
  bc_bms_poll_period_ms :: i32
  bc_settings_refresh_period_ms :: i32
  bc_bms_state_update_interval_ms :: i32

definition bc_monitored :: "BatteryConfig \<Rightarrow> bool" where
  "bc_monitored bc \<longleftrightarrow> bc_link bc = Bluetooth \<or> bc_link bc = Ttl"

record InverterConfig =
  inv_uart_device :: string
  inv_uart_baud :: i32

record HttpConfig =
  http_port :: i32
  www_root :: string

record HistoryConfig =
  db_path :: string
  ram_window_s :: i32

record AppConfig =
  ac_log_level :: i32
  ac_log_file :: string
  ac_batteries :: "BatteryConfig list"
  ac_inverter :: InverterConfig
  ac_http :: HttpConfig
  ac_history :: HistoryConfig

definition AppConfig_default :: AppConfig where
  "AppConfig_default =
     \<lparr>ac_log_level = 4, ac_log_file = [], ac_batteries = [],
      ac_inverter = \<lparr>inv_uart_device = [], inv_uart_baud = 115200\<rparr>,
      ac_http = \<lparr>http_port = 80, www_root = ''/usr/share/bms_bridge/www''\<rparr>,
      ac_history = \<lparr>db_path = ''/var/lib/bms_bridge/history.sqlite3'', ram_window_s = 86400\<rparr>\<rparr>"

section \<open>What libconfuse hands back\<close>

record cfg_sec =
  sec_title :: "string option"
  sec_str :: "string \<Rightarrow> string option"
  sec_int :: "string \<Rightarrow> int"

record cfg_file =
  cf_log_level :: int
  cf_log_file :: "string option"
  cf_inverter :: "cfg_sec option"
  cf_http :: "cfg_sec option"
  cf_history :: "cfg_sec option"
  cf_batteries :: "cfg_sec list"

datatype cfg_rc = CFG_SUCCESS | CFG_FILE_ERROR | CFG_PARSE_ERROR

section \<open>Validation callbacks\<close>

definition link_from_str :: "string \<Rightarrow> BatteryLink option" where
  "link_from_str s =
     (if s = ''bluetooth'' then Some Bluetooth
      else if s = ''ttl'' then Some Ttl
      else if s = ''reserve'' then Some Reserve
      else None)"

definition is_supported_protocol :: "string \<Rightarrow> bool" where
  "is_supported_protocol p \<longleftrightarrow> p = ''jk_bt'' \<or> p = ''pylontech''"

definition vf_type :: "string option \<Rightarrow> int" where
  "vf_type v =
     (case v of None \<Rightarrow> -1 | Some s \<Rightarrow> if link_from_str s = None then -1 else 0)"

definition vf_protocol :: "string option \<Rightarrow> int" where
  "vf_protocol v =
     (let p = (case v of None \<Rightarrow> [] | Some s \<Rightarrow> s)
      in if p \<noteq> [] \<and> \<not> is_supported_protocol p then -1 else 0)"

definition vf_battery :: "cfg_sec option \<Rightarrow> int" where
  "vf_battery osec =
     (case osec of None \<Rightarrow> 0 | Some sec \<Rightarrow>
        if sec_str sec ''protocol'' = Some ''pylontech'' \<and>
           (sec_int sec ''pylontech_address'' < 1 \<or> sec_int sec ''pylontech_address'' > 16) then -1
        else if sec_str sec ''type'' = Some ''reserve'' \<and>
           (sec_str sec ''mirror'' = None \<or> sec_str sec ''mirror'' = Some []) then -1
        else 0)"

definition sstr :: "cfg_sec \<Rightarrow> string \<Rightarrow> string" where
  "sstr s name = (case sec_str s name of None \<Rightarrow> [] | Some v \<Rightarrow> v)"

definition sint_of :: "cfg_sec \<Rightarrow> string \<Rightarrow> i32" where
  "sint_of s name = word_of_int (sec_int s name)"

section \<open>load_config\<close>

text \<open>The error messages, without their wording.\<close>

datatype config_error =
    CannotOpen | ParseError | InverterRequired | UartRequired | NoBattery | MissingName
  | DuplicateName string | AddressRequired string | ProtocolRequired string
  | CapacityNotPositive string | UnknownMirror string string | UnmonitoredMirror string string

definition read_battery ::
    "BatteryLink \<Rightarrow> string set \<Rightarrow> cfg_sec \<Rightarrow> config_error + BatteryConfig" where
  "read_battery garbage seen b =
    (let name = (case sec_title b of None \<Rightarrow> [] | Some t \<Rightarrow> t) in
     if name = [] then Inl MissingName
     else if name \<in> seen then Inl (DuplicateName name)
     else
       let bc = \<lparr>bc_name = name,
              bc_link = (case link_from_str (sstr b ''type'') of Some l \<Rightarrow> l | None \<Rightarrow> garbage),
              bc_link_raw = sstr b ''type'', bc_address = sstr b ''address'',
              bc_capacity = sint_of b ''capacity'', bc_protocol = sstr b ''protocol'',
              bc_service_uuid = sstr b ''service_uuid'',
              bc_char_write_uuid = sstr b ''char_write_uuid'',
              bc_char_notify_uuid = sstr b ''char_notify_uuid'',
              bc_scan_timeout_ms = sint_of b ''scan_timeout_ms'',
              bc_adapter_poll_ms = sint_of b ''adapter_poll_ms'',
              bc_uart_baud = sint_of b ''uart_baud'',
              bc_pylontech_address = sint_of b ''pylontech_address'',
              bc_mirror = sstr b ''mirror'',
              bc_reconnect_ms = sint_of b ''reconnect_ms'',
              bc_bms_poll_period_ms = sint_of b ''bms_poll_period_ms'',
              bc_settings_refresh_period_ms = sint_of b ''settings_refresh_period_ms'',
              bc_bms_state_update_interval_ms = sint_of b ''bms_state_update_interval_ms''\<rparr> in
       if bc_address bc = [] then Inl (AddressRequired name)
       else if bc_monitored bc \<and> bc_protocol bc = [] then Inl (ProtocolRequired name)
       else if \<not> bc_monitored bc \<and> sint (bc_capacity bc) \<le> 0 then Inl (CapacityNotPositive name)
       else Inr bc)"

text \<open>The loop over the \<open>batery\<close> sections; \<open>seen_names\<close> grows with each accepted name.\<close>

fun read_batteries ::
    "BatteryLink \<Rightarrow> string set \<Rightarrow> cfg_sec list \<Rightarrow> config_error + BatteryConfig list" where
  "read_batteries garbage seen [] = Inr []"
| "read_batteries garbage seen (b # bs) =
     (case read_battery garbage seen b of
        Inl e \<Rightarrow> Inl e
      | Inr bc \<Rightarrow>
          (case read_batteries garbage (insert (bc_name bc) seen) bs of
             Inl e \<Rightarrow> Inl e
           | Inr bcs \<Rightarrow> Inr (bc # bcs)))"

text \<open>The cross-section check of the mirrors, over all batteries.\<close>

fun check_mirrors :: "BatteryConfig list \<Rightarrow> BatteryConfig list \<Rightarrow> config_error option" where
  "check_mirrors all [] = None"
| "check_mirrors all (bc # bcs) =
     (if bc_monitored bc then check_mirrors all bcs
      else case find (\<lambda>b. bc_name b = bc_mirror bc) all of
          None \<Rightarrow> Some (UnknownMirror (bc_name bc) (bc_mirror bc))
        | Some m \<Rightarrow>
            if bc_monitored m then check_mirrors all bcs
            else Some (UnmonitoredMirror (bc_name bc) (bc_mirror bc)))"

definition load_config ::
    "BatteryLink \<Rightarrow> cfg_rc \<Rightarrow> cfg_file \<Rightarrow> AppConfig \<Rightarrow> config_error + AppConfig" where
  "load_config garbage rc cfg out =
    (if rc = CFG_FILE_ERROR then Inl CannotOpen
     else if rc = CFG_PARSE_ERROR then Inl ParseError
     else
       let out = out\<lparr>ac_log_level := word_of_int (cf_log_level cfg),
                     ac_log_file := (case cf_log_file cfg of None \<Rightarrow> [] | Some v \<Rightarrow> v)\<rparr> in
       case cf_inverter cfg of
         None \<Rightarrow> Inl InverterRequired
       | Some iv \<Rightarrow>
           if sstr iv ''uart'' = [] then Inl UartRequired
           else
             let out = out\<lparr>ac_inverter := \<lparr>inv_uart_device = sstr iv ''uart'',
                                            inv_uart_baud = sint_of iv ''baud''\<rparr>\<rparr>;
                 out = (case cf_http cfg of None \<Rightarrow> out
                        | Some s \<Rightarrow> out\<lparr>ac_http := \<lparr>http_port = sint_of s ''port'',
                                                     www_root = sstr s ''www_root''\<rparr>\<rparr>);
                 out = (case cf_history cfg of None \<Rightarrow> out
                        | Some s \<Rightarrow> out\<lparr>ac_history := \<lparr>db_path = sstr s ''db_path'',
                                                        ram_window_s = sint_of s ''ram_window_s''\<rparr>\<rparr>) in
             if cf_batteries cfg = [] then Inl NoBattery
             else case read_batteries garbage {} (cf_batteries cfg) of
                 Inl e \<Rightarrow> Inl e
               | Inr bcs \<Rightarrow>
                   let out = out\<lparr>ac_batteries := ac_batteries out @ bcs\<rparr> in
                   case check_mirrors (ac_batteries out) (ac_batteries out) of
                     Some e \<Rightarrow> Inl e
                   | None \<Rightarrow> Inr out)"

section \<open>What an accepted configuration satisfies\<close>

definition battery_ok :: "BatteryConfig \<Rightarrow> bool" where
  "battery_ok bc \<longleftrightarrow> bc_name bc \<noteq> [] \<and> bc_address bc \<noteq> [] \<and>
     (bc_monitored bc \<longrightarrow> bc_protocol bc \<noteq> []) \<and>
     (\<not> bc_monitored bc \<longrightarrow> sint (bc_capacity bc) > 0)"

definition mirror_ok :: "BatteryConfig list \<Rightarrow> BatteryConfig \<Rightarrow> bool" where
  "mirror_ok all bc \<longleftrightarrow> bc_monitored bc \<or>
     (\<exists>m \<in> set all. bc_name m = bc_mirror bc \<and> bc_monitored m)"

lemma read_battery_ok:
  assumes "read_battery garbage seen b = Inr bc"
  shows "battery_ok bc" "bc_name bc \<notin> seen" "sec_title b = Some (bc_name bc)"
  using assms by (auto simp: read_battery_def battery_ok_def Let_def split: if_splits option.splits)

lemma read_batteries_ok:
  assumes "read_batteries garbage seen bs = Inr bcs"
  shows "(\<forall>bc \<in> set bcs. battery_ok bc \<and> bc_name bc \<notin> seen) \<and> distinct (map bc_name bcs) \<and>
    map (Some \<circ> bc_name) bcs = map sec_title bs"
  using assms
proof (induction bs arbitrary: seen bcs)
  case (Cons b bs)
  then obtain bc bcs' where r: "read_battery garbage seen b = Inr bc"
      "read_batteries garbage (insert (bc_name bc) seen) bs = Inr bcs'" "bcs = bc # bcs'"
    by (auto split: sum.splits)
  from Cons.IH [OF r(2)] read_battery_ok [OF r(1)] r(3) show ?case by auto
qed simp

lemma check_mirrors_ok:
  "check_mirrors all bcs = None \<Longrightarrow> \<forall>bc \<in> set bcs. mirror_ok all bc"
proof (induction bcs)
  case (Cons bc bcs)
  show ?case
  proof (cases "bc_monitored bc")
    case False
    with Cons.prems obtain m where "find (\<lambda>b. bc_name b = bc_mirror bc) all = Some m"
        "bc_monitored m" "check_mirrors all bcs = None"
      by (auto split: option.splits if_splits)
    with Cons.IH show ?thesis by (auto simp: mirror_ok_def find_Some_iff)
  qed (use Cons in \<open>simp add: mirror_ok_def\<close>)
qed simp

lemma load_config_cases:
  assumes "load_config garbage rc cfg AppConfig_default = Inr out"
  shows "read_batteries garbage {} (cf_batteries cfg) = Inr (ac_batteries out)"
    "cf_batteries cfg \<noteq> []" "check_mirrors (ac_batteries out) (ac_batteries out) = None"
    "inv_uart_device (ac_inverter out) \<noteq> []"
  using assms
  by (auto simp: load_config_def AppConfig_default_def Let_def split: if_splits option.splits sum.splits)

section \<open>Sample sections\<close>

definition sample_sec :: "string \<Rightarrow> (string \<times> string) list \<Rightarrow> (string \<times> int) list \<Rightarrow> cfg_sec" where
  "sample_sec title strs ints =
     \<lparr>sec_title = Some title, sec_str = map_of strs,
      sec_int = (\<lambda>k. case map_of ints k of None \<Rightarrow> 0 | Some v \<Rightarrow> v)\<rparr>"

definition sample_file :: "cfg_sec list \<Rightarrow> cfg_file" where
  "sample_file bs =
     \<lparr>cf_log_level = 4, cf_log_file = None,
      cf_inverter = Some (sample_sec [] [(''uart'', ''/dev/ttyS0'')] [(''baud'', 115200)]),
      cf_http = None, cf_history = None, cf_batteries = bs\<rparr>"

definition sample_monitored :: cfg_sec where
  "sample_monitored = sample_sec ''a''
     [(''type'', ''bluetooth''), (''address'', ''C8:47''), (''protocol'', ''jk_bt'')] [(''capacity'', 280)]"

definition sample_reserve :: cfg_sec where
  "sample_reserve = sample_sec ''r''
     [(''type'', ''reserve''), (''address'', ''-''), (''mirror'', ''a'')] [(''capacity'', 100)]"

definition sample_untyped :: cfg_sec where
  "sample_untyped = sample_sec ''u''
     [(''address'', ''-''), (''protocol'', ''jk_bt''), (''mirror'', ''a'')] [(''capacity'', 100)]"

section \<open>Properties\<close>

text \<open>C23: A configuration that is accepted has an inverter device, at least one battery, and
  pairwise different, non-empty battery names; every battery has an address, every monitored
  one a protocol, and every reserve a positive capacity and a mirror that names a monitored
  battery of the same configuration.\<close>

theorem accepted_config_valid:
  assumes "load_config garbage rc cfg AppConfig_default = Inr out"
  shows "inv_uart_device (ac_inverter out) \<noteq> [] \<and> ac_batteries out \<noteq> [] \<and>
    distinct (map bc_name (ac_batteries out)) \<and>
    (\<forall>bc \<in> set (ac_batteries out). battery_ok bc \<and> mirror_ok (ac_batteries out) bc)"
proof -
  note c = load_config_cases [OF assms]
  note b = read_batteries_ok [OF c(1)]
  have "map (Some \<circ> bc_name) (ac_batteries out) \<noteq> []" using b c(2) by simp
  then show ?thesis using b c(4) check_mirrors_ok [OF c(3)] by auto
qed

lemma accepted_config_valid_witness:
  "\<exists>out. load_config Ttl CFG_SUCCESS (sample_file [sample_monitored, sample_reserve]) AppConfig_default = Inr out \<and>
     distinct (map bc_name (ac_batteries out))"
proof -
  obtain out where out: "load_config Ttl CFG_SUCCESS (sample_file [sample_monitored, sample_reserve])
      AppConfig_default = Inr out"
    by (simp add: load_config_def sample_file_def sample_monitored_def sample_reserve_def
        sample_sec_def AppConfig_default_def sstr_def sint_of_def read_battery_def link_from_str_def
        bc_monitored_def Let_def)
  with accepted_config_valid [OF out] show ?thesis by blast
qed

text \<open>A battery block without \<open>type\<close> is accepted: no callback sees it, and the link of that
  battery is whatever the uninitialised member held.\<close>

theorem missing_type_accepted:
  "sec_str sample_untyped ''type'' = None \<and>
   (\<forall>garbage. \<exists>out. load_config garbage CFG_SUCCESS (sample_file [sample_monitored, sample_untyped])
      AppConfig_default = Inr out \<and> map bc_link (ac_batteries out) = [Bluetooth, garbage])"
proof -
  have "\<exists>out. load_config g CFG_SUCCESS (sample_file [sample_monitored, sample_untyped])
      AppConfig_default = Inr out \<and> map bc_link (ac_batteries out) = [Bluetooth, g]" for g
    by (cases g)
       (simp_all add: load_config_def sample_file_def sample_monitored_def sample_untyped_def
        sample_sec_def AppConfig_default_def sstr_def sint_of_def read_battery_def link_from_str_def
        bc_monitored_def Let_def)
  then show ?thesis by (simp add: sample_untyped_def sample_sec_def)
qed

end
