(* ===== verification/Battery_Protocol.thy ===== *)
theory Battery_Protocol
  imports Jk_Data
begin

text \<open>
  include/battery_protocol.hpp: the abstract class \<open>BatteryProtocol\<close> as a locale.  Its virtual
  functions are the operations the handler calls; the laws are what both drivers promise:
  an invariant that every operation keeps, a bound on what is buffered, that \<open>reset\<close> forgets
  the buffered bytes, and that a request never changes the receive side.  \<open>BmsHandler\<close> relies
  on these laws alone, so its lemmas hold for every driver that satisfies them.
\<close>

record Telemetry =
  t_cells :: JkCellInfo
  t_pack :: JkPackInfo

definition Telemetry_default :: Telemetry where
  "Telemetry_default = \<lparr>t_cells = JkCellInfo_default, t_pack = JkPackInfo_default\<rparr>"

record Parsed =
  p_telemetry :: "Telemetry option"
  p_settings :: "JkSettings option"

definition Parsed_default :: Parsed where
  "Parsed_default = \<lparr>p_telemetry = None, p_settings = None\<rparr>"

section \<open>The interface\<close>

locale battery_protocol =
  fixes reset :: "'s \<Rightarrow> 's"
    and poll_request :: "'s \<Rightarrow> bytes"
    and settings_request :: "'s \<Rightarrow> bytes"
    and feed :: "'s \<Rightarrow> bytes \<Rightarrow> 's \<times> Parsed"
    and inv :: "'s \<Rightarrow> bool"
    and pending :: "'s \<Rightarrow> bytes"
    and limit :: nat
  assumes inv_reset: "inv s \<Longrightarrow> inv (reset s)"
    and inv_feed: "inv s \<Longrightarrow> inv (fst (feed s data))"
    and bounded: "inv s \<Longrightarrow> length (pending s) \<le> limit"
    and reset_empties: "pending (reset s) = []"
    and poll_reset: "poll_request (reset s) = poll_request s"
    and settings_reset: "settings_request (reset s) = settings_request s"
    and poll_feed: "poll_request (fst (feed s data)) = poll_request s"
    and settings_feed: "settings_request (fst (feed s data)) = settings_request s"
begin

text \<open>The state after any sequence of received chunks.\<close>

lemma inv_feeds: "inv s \<Longrightarrow> inv (foldl (\<lambda>s d. fst (feed s d)) s chunks)"
  by (induction chunks arbitrary: s) (auto intro: inv_feed)

lemma bounded_feeds:
  "inv s \<Longrightarrow> length (pending (foldl (\<lambda>s d. fst (feed s d)) s chunks)) \<le> limit"
  by (intro bounded inv_feeds)

lemma requests_feeds:
  "poll_request (foldl (\<lambda>s d. fst (feed s d)) s chunks) = poll_request s"
  "settings_request (foldl (\<lambda>s d. fst (feed s d)) s chunks) = settings_request s"
  by (induction chunks arbitrary: s) (simp_all add: poll_feed settings_feed)

end

end
