(* ===== verification/Shared_State.thy ===== *)
theory Shared_State
  imports Jk_Data
begin

text \<open>
  include/shared_state.hpp: the per-battery snapshot the BMS side writes and the inverter and
  HTTP sides read.  Each method holds the mutex for its whole body, so each is one atomic
  step.  Times are readings of the steady clock in milliseconds, as integers; a method that
  reads the clock takes the reading as an argument.
\<close>

record SharedState =
  ss_connected :: bool
  ss_cells :: "JkCellInfo option"
  ss_pack :: "JkPackInfo option"
  ss_settings :: "JkSettings option"
  ss_updated_at :: int

definition shared_init :: SharedState where
  "shared_init = \<lparr>ss_connected = False, ss_cells = None, ss_pack = None, ss_settings = None,
     ss_updated_at = 0\<rparr>"

definition set_connected :: "bool \<Rightarrow> SharedState \<Rightarrow> SharedState" where
  "set_connected v s = s\<lparr>ss_connected := v\<rparr>"

definition apply_telemetry :: "int \<Rightarrow> JkCellInfo \<Rightarrow> JkPackInfo \<Rightarrow> SharedState \<Rightarrow> SharedState" where
  "apply_telemetry now c p s = s\<lparr>ss_cells := Some c, ss_pack := Some p, ss_updated_at := now\<rparr>"

definition apply_settings :: "JkSettings \<Rightarrow> SharedState \<Rightarrow> SharedState" where
  "apply_settings v s = s\<lparr>ss_settings := Some v\<rparr>"

text \<open>\<open>snapshot\<close> copies the whole state.\<close>

definition snapshot :: "SharedState \<Rightarrow> SharedState" where
  "snapshot s = s"

definition is_fresh :: "int \<Rightarrow> int \<Rightarrow> SharedState \<Rightarrow> bool" where
  "is_fresh now max_age s \<longleftrightarrow>
     (if \<not> ss_connected s \<or> ss_cells s = None \<or> ss_pack s = None then False
      else now - ss_updated_at s \<le> max_age)"

text \<open>Cells and pack are only ever set together.\<close>

definition shared_ok :: "SharedState \<Rightarrow> bool" where
  "shared_ok s \<longleftrightarrow> (ss_cells s = None \<longleftrightarrow> ss_pack s = None)"

lemma shared_ok_ops [simp, intro]:
  "shared_ok shared_init"
  "shared_ok s \<Longrightarrow> shared_ok (set_connected v s)"
  "shared_ok s \<Longrightarrow> shared_ok (apply_settings x s)"
  "shared_ok (apply_telemetry now c p s)"
  by (auto simp: shared_ok_def shared_init_def set_connected_def apply_settings_def apply_telemetry_def)

end
