(* ===== verification/Bms_Handler.thy ===== *)
theory Bms_Handler
  imports Battery_Protocol Shared_State
begin

text \<open>
  src/bms_handler.cpp: the driver of one battery.  It owns a protocol, here the record
  \<open>BatteryProtocolOps\<close> of the virtual functions with the protocol's state, and writes the
  shared state and the history.  What it gives to the transport and to the history is
  recorded in \<open>h_sent\<close> and \<open>h_history\<close>, oldest first; a history entry carries the steady-clock
  reading of the throttle and the wall clock it is filed under.  Events come from the
  transport and the timers, all on the dispatcher thread.  Log lines are left out.
\<close>

section \<open>State\<close>

record 'p BatteryProtocolOps =
  op_reset :: "'p \<Rightarrow> 'p"
  op_poll_request :: "'p \<Rightarrow> bytes"
  op_settings_request :: "'p \<Rightarrow> bytes"
  op_feed :: "'p \<Rightarrow> bytes \<Rightarrow> 'p \<times> Parsed"

type_synonym history_entry = "int \<times> int \<times> JkCellInfo \<times> JkPackInfo"

record 'p BmsHandler =
  h_protocol :: 'p
  h_state :: SharedState
  h_sent :: "bytes list"
  h_history :: "history_entry list"
  h_last_history_write :: int
  h_last_state_update :: int

definition handler_init :: "'p \<Rightarrow> 'p BmsHandler" where
  "handler_init p = \<lparr>h_protocol = p, h_state = shared_init, h_sent = [], h_history = [],
     h_last_history_write = 0, h_last_state_update = 0\<rparr>"

record intervals =
  history_interval :: int
  state_update_interval :: int

section \<open>Handlers\<close>

definition send :: "bytes \<Rightarrow> 'p BmsHandler \<Rightarrow> 'p BmsHandler" where
  "send bs h = (if bs = [] then h else h\<lparr>h_sent := h_sent h @ [bs]\<rparr>)"

definition on_poll_tick :: "'p BatteryProtocolOps \<Rightarrow> 'p BmsHandler \<Rightarrow> 'p BmsHandler" where
  "on_poll_tick ops h = send (op_poll_request ops (h_protocol h)) h"

definition on_settings_tick :: "'p BatteryProtocolOps \<Rightarrow> 'p BmsHandler \<Rightarrow> 'p BmsHandler" where
  "on_settings_tick ops h = send (op_settings_request ops (h_protocol h)) h"

definition on_connected :: "'p BatteryProtocolOps \<Rightarrow> 'p BmsHandler \<Rightarrow> 'p BmsHandler" where
  "on_connected ops h =
    (let h = h\<lparr>h_state := set_connected True (h_state h)\<rparr>;
         h = h\<lparr>h_protocol := op_reset ops (h_protocol h)\<rparr>;
         h = send (op_settings_request ops (h_protocol h)) h
     in send (op_poll_request ops (h_protocol h)) h)"

definition on_disconnected :: "'p BatteryProtocolOps \<Rightarrow> 'p BmsHandler \<Rightarrow> 'p BmsHandler" where
  "on_disconnected ops h =
    (let h = h\<lparr>h_state := set_connected False (h_state h)\<rparr>
     in h\<lparr>h_protocol := op_reset ops (h_protocol h)\<rparr>)"

text \<open>The clock readings of one call: the steady clock at the throttle, the wall clock of the
  history entry, and the steady clock inside \<open>apply_telemetry\<close>.\<close>

record clocks =
  ck_now :: int
  ck_wall :: int
  ck_stamp :: int

definition on_telemetry ::
    "intervals \<Rightarrow> clocks \<Rightarrow> JkCellInfo \<Rightarrow> JkPackInfo \<Rightarrow> 'p BmsHandler \<Rightarrow> 'p BmsHandler" where
  "on_telemetry iv ck cells pack h =
    (let now = ck_now ck;
         h = (if now - h_last_history_write h \<ge> history_interval iv
              then h\<lparr>h_history := h_history h @ [(now, ck_wall ck, cells, pack)],
                     h_last_history_write := now\<rparr>
              else h)
     in if now - h_last_state_update h \<ge> state_update_interval iv
        then h\<lparr>h_state := apply_telemetry (ck_stamp ck) cells pack (h_state h),
               h_last_state_update := now\<rparr>
        else h)"

definition on_bytes ::
    "'p BatteryProtocolOps \<Rightarrow> intervals \<Rightarrow> clocks \<Rightarrow> bytes \<Rightarrow> 'p BmsHandler \<Rightarrow> 'p BmsHandler" where
  "on_bytes ops iv ck data h =
    (let (p, parsed) = op_feed ops (h_protocol h) data;
         h = h\<lparr>h_protocol := p\<rparr>;
         h = (case p_telemetry parsed of None \<Rightarrow> h
              | Some t \<Rightarrow> on_telemetry iv ck (t_cells t) (t_pack t) h)
     in case p_settings parsed of None \<Rightarrow> h
        | Some s \<Rightarrow> h\<lparr>h_state := apply_settings s (h_state h)\<rparr>)"

section \<open>Runs\<close>

datatype handler_event =
    LinkUp | LinkDown | Received clocks bytes | PollTick | SettingsTick

fun handler_step :: "'p BatteryProtocolOps \<Rightarrow> intervals \<Rightarrow> handler_event \<Rightarrow> 'p BmsHandler \<Rightarrow> 'p BmsHandler" where
  "handler_step ops iv LinkUp h = on_connected ops h"
| "handler_step ops iv LinkDown h = on_disconnected ops h"
| "handler_step ops iv (Received ck data) h = on_bytes ops iv ck data h"
| "handler_step ops iv PollTick h = on_poll_tick ops h"
| "handler_step ops iv SettingsTick h = on_settings_tick ops h"

abbreviation handler_run where
  "handler_run ops iv evs h \<equiv> fold (handler_step ops iv) evs h"

lemma send_fields [simp]:
  "h_protocol (send bs h) = h_protocol h" "h_state (send bs h) = h_state h"
  "h_history (send bs h) = h_history h" "h_last_history_write (send bs h) = h_last_history_write h"
  "h_last_state_update (send bs h) = h_last_state_update h"
  by (simp_all add: send_def)

lemmas handler_ops =
  on_connected_def on_disconnected_def on_bytes_def on_telemetry_def on_poll_tick_def
  on_settings_tick_def Let_def

section \<open>Throttling and freshness\<close>

definition throttled :: "intervals \<Rightarrow> 'p BmsHandler \<Rightarrow> bool" where
  "throttled iv h \<longleftrightarrow>
     successively (\<lambda>a b. fst b - fst a \<ge> history_interval iv) (h_history h) \<and>
     (h_history h \<noteq> [] \<longrightarrow> h_last_history_write h = fst (last (h_history h)))"

lemma throttled_init: "throttled iv (handler_init p)"
  by (simp add: throttled_def handler_init_def)

lemma throttled_step: "throttled iv h \<Longrightarrow> throttled iv (handler_step ops iv e h)"
  by (cases e)
     (auto simp: throttled_def handler_ops successively_append_iff
       split: prod.splits option.splits)

lemma throttled_run: "throttled iv h \<Longrightarrow> throttled iv (handler_run ops iv evs h)"
  by (induction evs arbitrary: h) (auto intro: throttled_step)

lemma shared_ok_step: "shared_ok (h_state h) \<Longrightarrow> shared_ok (h_state (handler_step ops iv e h))"
  by (cases e) (auto simp: handler_ops split: prod.splits option.splits)

lemma shared_ok_run: "shared_ok (h_state h) \<Longrightarrow> shared_ok (h_state (handler_run ops iv evs h))"
  by (induction evs arbitrary: h) (auto intro: shared_ok_step)

text \<open>The link state a run of events ends in.\<close>

fun link_after :: "handler_event list \<Rightarrow> bool \<Rightarrow> bool" where
  "link_after [] b = b"
| "link_after (LinkUp # es) b = link_after es True"
| "link_after (LinkDown # es) b = link_after es False"
| "link_after (_ # es) b = link_after es b"

lemma connected_step:
  "ss_connected (h_state (handler_step ops iv e h)) =
     (case e of LinkUp \<Rightarrow> True | LinkDown \<Rightarrow> False | _ \<Rightarrow> ss_connected (h_state h))"
  by (cases e)
     (auto simp: handler_ops set_connected_def apply_telemetry_def apply_settings_def
       split: prod.splits option.splits)

lemma connected_run:
  "ss_connected (h_state (handler_run ops iv evs h)) = link_after evs (ss_connected (h_state h))"
proof (induction evs arbitrary: h)
  case (Cons e evs)
  then show ?case by (cases e) (simp_all add: connected_step del: handler_step.simps)
qed simp

section \<open>Lemmas for every protocol\<close>

text \<open>A handler whose virtual functions are those of a protocol that satisfies the interface.\<close>

locale driven_battery = battery_protocol reset poll_request settings_request feed inv pending limit
  for reset :: "'s \<Rightarrow> 's" and poll_request :: "'s \<Rightarrow> bytes" and settings_request :: "'s \<Rightarrow> bytes"
    and feed :: "'s \<Rightarrow> bytes \<Rightarrow> 's \<times> Parsed" and inv :: "'s \<Rightarrow> bool"
    and pending :: "'s \<Rightarrow> bytes" and limit :: nat +
  fixes ops :: "'s BatteryProtocolOps"
  assumes ops_eq: "ops = \<lparr>op_reset = reset, op_poll_request = poll_request,
      op_settings_request = settings_request, op_feed = feed\<rparr>"
begin

lemma ops_sel [simp]:
  "op_reset ops = reset" "op_poll_request ops = poll_request"
  "op_settings_request ops = settings_request" "op_feed ops = feed"
  by (simp_all add: ops_eq)

lemma inv_step: "inv (h_protocol h) \<Longrightarrow> inv (h_protocol (handler_step ops iv e h))"
proof (cases e)
  case (Received ck data)
  assume "inv (h_protocol h)"
  then have "inv (fst (feed (h_protocol h) data))" by (rule inv_feed)
  then show ?thesis by (auto simp: Received handler_ops split: prod.splits option.splits)
qed (auto simp: handler_ops intro: inv_reset)

lemma inv_run: "inv (h_protocol h) \<Longrightarrow> inv (h_protocol (handler_run ops iv evs h))"
  by (induction evs arbitrary: h) (auto intro: inv_step simp del: handler_step.simps)

lemma bounded_run:
  "inv (h_protocol h) \<Longrightarrow> length (pending (h_protocol (handler_run ops iv evs h))) \<le> limit"
  by (intro bounded inv_run)

lemma requests_step:
  "poll_request (h_protocol (handler_step ops iv e h)) = poll_request (h_protocol h)"
  "settings_request (h_protocol (handler_step ops iv e h)) = settings_request (h_protocol h)"
proof -
  have f: "poll_request p' = poll_request p" "settings_request p' = settings_request p"
    if "feed p data = (p', r)" for p p' data r
    using poll_feed [of p data] settings_feed [of p data] that by simp_all
  show "poll_request (h_protocol (handler_step ops iv e h)) = poll_request (h_protocol h)"
    "settings_request (h_protocol (handler_step ops iv e h)) = settings_request (h_protocol h)"
    by (cases e; auto simp: handler_ops poll_reset settings_reset split: prod.splits option.splits
        dest: f)+
qed

text \<open>Whatever happened before, a new connection starts with an empty receive buffer and sends
  the settings request and the poll request, in that order.\<close>

lemma connect_handshake:
  assumes "poll_request (h_protocol h) \<noteq> []" "settings_request (h_protocol h) \<noteq> []"
  shows "h_sent (on_connected ops h) =
      h_sent h @ [settings_request (h_protocol h), poll_request (h_protocol h)]"
    "pending (h_protocol (on_connected ops h)) = []"
    "ss_connected (h_state (on_connected ops h))"
  using assms
  by (auto simp: on_connected_def Let_def send_def poll_reset settings_reset reset_empties set_connected_def)

end

end
