(* ===== verification/Jk_Frame.thy ===== *)
theory Jk_Frame
  imports Jk_Data
begin

text \<open>
  The JK BMS frame layer (first half of src/jk_protocol.cpp): the 20-byte requests, the
  8-bit checksum and \<open>JkFrameAssembler\<close>, which cuts 300-byte responses out of the BLE
  notification stream.  The assembler is a state machine over single bytes; a chunk is a
  fold of its step.
\<close>

section \<open>Wire constants\<close>

definition kJkRequestSize :: nat where "kJkRequestSize = 20"
definition kJkResponseSize :: nat where "kJkResponseSize = 300"
definition kJkRequestMagic :: bytes where "kJkRequestMagic = [0xAA, 0x55, 0x90, 0xEB]"
definition kJkResponseMagic :: bytes where "kJkResponseMagic = [0x55, 0xAA, 0xEB, 0x90]"
definition kJkCmdDeviceInfo :: u8 where "kJkCmdDeviceInfo = 0x97"
definition kJkCmdCellInfo :: u8 where "kJkCmdCellInfo = 0x96"
definition kJkFrameTypeSettings :: u8 where "kJkFrameTypeSettings = 0x01"
definition kJkFrameTypeCellInfo :: u8 where "kJkFrameTypeCellInfo = 0x02"
definition kJkFrameTypeDeviceInfo :: u8 where "kJkFrameTypeDeviceInfo = 0x03"

section \<open>Requests\<close>

record JkRequest =
  jr_command :: u8
  jr_value_length :: u8
  jr_value :: u32

text \<open>\<open>uint16_t s\<close> wraps at \<open>2^16\<close> while it sums.\<close>

definition jk_crc8 :: "bytes \<Rightarrow> u8" where
  "jk_crc8 data = ucast (foldl (\<lambda>s b. s + ucast b) (0 :: u16) data AND 0xFF)"

definition lw_u32 :: "bytes \<Rightarrow> u32 \<Rightarrow> bytes" where
  "lw_u32 out v =
     out @ [ucast v] @ [ucast (drop_bit 8 v)] @ [ucast (drop_bit 16 v)] @ [ucast (drop_bit 24 v)]"

definition JkRequest_serialize :: "JkRequest \<Rightarrow> bytes \<Rightarrow> bytes" where
  "JkRequest_serialize r out =
    (let start = length out;
         w = out @ kJkRequestMagic;
         w = w @ [jr_command r];
         w = w @ [jr_value_length r];
         w = lw_u32 w (jr_value r);
         w = w @ replicate 9 0;
         crc = jk_crc8 (take (kJkRequestSize - 1) (drop start w))
     in w @ [crc])"

section \<open>The frame assembler\<close>

record JkFrameAssembler =
  asm_buf :: bytes
  asm_ready :: bytes

definition assembler_init :: JkFrameAssembler where
  "assembler_init = \<lparr>asm_buf = [], asm_ready = []\<rparr>"

text \<open>One iteration of the loop of \<open>push_chunk\<close>.\<close>

definition push_byte :: "JkFrameAssembler \<Rightarrow> u8 \<Rightarrow> JkFrameAssembler" where
  "push_byte s b =
    (if asm_buf s = [] \<and> b \<noteq> kJkResponseMagic ! 0 then s
     else let buf = asm_buf s @ [b] in
       if length buf \<le> 4 \<and> buf ! (length buf - 1) \<noteq> kJkResponseMagic ! (length buf - 1)
       then s\<lparr>asm_buf := []\<rparr>
       else if length buf = kJkResponseSize then
         (let computed = jk_crc8 (take (kJkResponseSize - 1) buf);
              received = buf ! (kJkResponseSize - 1)
          in if computed = received then s\<lparr>asm_ready := buf, asm_buf := []\<rparr>
             else s\<lparr>asm_buf := []\<rparr>)
       else s\<lparr>asm_buf := buf\<rparr>)"

definition push_chunk :: "JkFrameAssembler \<Rightarrow> bytes \<Rightarrow> JkFrameAssembler" where
  "push_chunk s data = foldl push_byte s data"

definition take_complete_frame :: "JkFrameAssembler \<Rightarrow> bytes option \<times> JkFrameAssembler" where
  "take_complete_frame s =
     (if asm_ready s = [] then (None, s) else (Some (asm_ready s), s\<lparr>asm_ready := []\<rparr>))"

definition assembler_reset :: "JkFrameAssembler \<Rightarrow> JkFrameAssembler" where
  "assembler_reset s = s\<lparr>asm_buf := [], asm_ready := []\<rparr>"

section \<open>The checksum is the sum modulo 256\<close>

lemma jk_crc8_foldl:
  "uint (foldl (\<lambda>s b. s + ucast b) (a :: u16) (data :: bytes)) = (uint a + (\<Sum>b \<leftarrow> data. uint b)) mod 65536"
proof (induction data arbitrary: a)
  case Nil
  then show ?case using uint_u16_range [of a] by simp
next
  case (Cons b data)
  have "uint (a + ucast b) = (uint a + uint b) mod 65536"
    by (simp add: uint_word_ariths uint_up_ucast is_up)
  then show ?case by (simp add: Cons mod_add_left_eq add.assoc)
qed

text \<open>The checksum of the JK protocol is the sum of the bytes modulo 256: the 16-bit
  accumulator of the code may wrap and still gives it.\<close>

theorem crc_is_byte_sum: "uint (jk_crc8 data) = (\<Sum>b \<leftarrow> data. uint b) mod 256"
proof -
  let ?s = "foldl (\<lambda>s b. s + ucast b) (0 :: u16) data"
  have m: "(?s AND 0xFF) = take_bit 8 ?s"
    using take_bit_eq_mask [of 8 ?s] by (simp add: mask_eq_exp_minus_1)
  have "uint (jk_crc8 data) = take_bit 8 (take_bit 8 (uint ?s))"
    unfolding jk_crc8_def m by (simp only: unsigned_ucast_eq unsigned_take_bit_eq) simp
  then have "uint (jk_crc8 data) = uint ?s mod 256"
    by (simp add: take_bit_eq_mod)
  also have "\<dots> = (\<Sum>b \<leftarrow> data. uint b) mod 65536 mod 256"
    by (simp add: jk_crc8_foldl)
  also have "\<dots> = (\<Sum>b \<leftarrow> data. uint b) mod 256"
    by (simp add: mod_mod_cancel)
  finally show ?thesis .
qed

section \<open>Well-formed response frames\<close>

definition good_frame :: "bytes \<Rightarrow> bool" where
  "good_frame fr \<longleftrightarrow> length fr = kJkResponseSize \<and> take 4 fr = kJkResponseMagic \<and>
     jk_crc8 (take (kJkResponseSize - 1) fr) = fr ! (kJkResponseSize - 1)"

text \<open>The invariant of the assembler.\<close>

definition assembler_ok :: "JkFrameAssembler \<Rightarrow> bool" where
  "assembler_ok s \<longleftrightarrow>
     length (asm_buf s) < kJkResponseSize \<and>
     take 4 (asm_buf s) = take (length (asm_buf s)) kJkResponseMagic \<and>
     (asm_ready s = [] \<or> good_frame (asm_ready s))"

lemma length_magic [simp]: "length kJkResponseMagic = 4"
  by (simp add: kJkResponseMagic_def)

lemma assembler_init_ok: "assembler_ok assembler_init"
  by (simp add: assembler_ok_def assembler_init_def kJkResponseSize_def)

lemma magic_extend:
  assumes "take 4 buf = take (length buf) kJkResponseMagic"
    and "length buf < 4 \<Longrightarrow> b = kJkResponseMagic ! length buf"
  shows "take 4 (buf @ [b]) = take (length (buf @ [b])) kJkResponseMagic"
proof (cases "length buf < 4")
  case True
  with assms show ?thesis
    by (simp add: take_Suc_conv_app_nth)
next
  case False
  with assms(1) show ?thesis by simp
qed

lemma push_byte_ok: "assembler_ok s \<Longrightarrow> assembler_ok (push_byte s b)"
proof -
  assume s: "assembler_ok s"
  have ext: "take 4 (asm_buf s @ [b]) = take (length (asm_buf s @ [b])) kJkResponseMagic"
    if "\<not> (length (asm_buf s @ [b]) \<le> 4 \<and> (asm_buf s @ [b]) ! length (asm_buf s) \<noteq> kJkResponseMagic ! length (asm_buf s))"
    using s that by (intro magic_extend) (auto simp: assembler_ok_def)
  show ?thesis
    using s ext
    by (auto simp: push_byte_def assembler_ok_def good_frame_def Let_def kJkResponseSize_def)
qed

lemma push_chunk_ok: "assembler_ok s \<Longrightarrow> assembler_ok (push_chunk s data)"
  unfolding push_chunk_def by (induction data arbitrary: s) (simp_all add: push_byte_ok)

lemma take_complete_frame_ok:
  "assembler_ok s \<Longrightarrow> take_complete_frame s = (r, s') \<Longrightarrow>
   assembler_ok s' \<and> asm_ready s' = [] \<and> (case r of None \<Rightarrow> True | Some fr \<Rightarrow> good_frame fr)"
  by (auto simp: take_complete_frame_def assembler_ok_def split: if_splits)

lemma assembler_reset_ok: "assembler_ok (assembler_reset s)"
  by (simp add: assembler_ok_def assembler_reset_def kJkResponseSize_def)

lemma push_chunk_append: "push_chunk s (xs @ ys) = push_chunk (push_chunk s xs) ys"
  by (simp add: push_chunk_def)

lemma push_chunk_Nil [simp]: "push_chunk s [] = s"
  by (simp add: push_chunk_def)

section \<open>Noise and frames\<close>

lemma push_noise:
  assumes "0x55 \<notin> set noise" and "asm_buf s = []"
  shows "push_chunk s noise = s"
  using assms unfolding push_chunk_def
  by (induction noise) (auto simp: push_byte_def kJkResponseMagic_def)

lemma push_frame_prefix:
  assumes "good_frame fr" and "asm_buf s = []" and "n < kJkResponseSize"
  shows "push_chunk s (take n fr) = s\<lparr>asm_buf := take n fr\<rparr>"
  using assms(3)
proof (induction n)
  case 0
  then show ?case using assms(2) by simp
next
  case (Suc n)
  from assms(1) have len: "length fr = 300" and magic: "take 4 fr = kJkResponseMagic"
    by (simp_all add: good_frame_def kJkResponseSize_def)
  from Suc have n: "n < 299" by (simp add: kJkResponseSize_def)
  have m: "fr ! k = kJkResponseMagic ! k" if "k < 4" for k
    using that magic nth_take [of k 4 fr] by simp
  have "push_chunk s (take (Suc n) fr) = push_byte (s\<lparr>asm_buf := take n fr\<rparr>) (fr ! n)"
    using Suc n len by (simp add: take_Suc_conv_app_nth push_chunk_def)
  moreover have "take n fr @ [fr ! n] = take (Suc n) fr"
    using n len by (simp add: take_Suc_conv_app_nth)
  ultimately show ?case
    using n len m [of n] m [of 0] by (auto simp: push_byte_def Let_def kJkResponseSize_def nth_append)
qed

text \<open>A whole frame, cut into chunks anywhere, is what is ready afterwards.\<close>

lemma push_frame:
  assumes "good_frame fr" and "asm_buf s = []"
  shows "push_chunk s fr = s\<lparr>asm_ready := fr\<rparr>"
proof -
  from assms(1) have len: "length fr = 300"
    and crc: "jk_crc8 (take 299 fr) = fr ! 299"
    by (simp_all add: good_frame_def kJkResponseSize_def)
  have fr: "fr = take 299 fr @ [fr ! 299]"
    using len by (simp add: take_Suc_conv_app_nth [symmetric])
  have "push_chunk s fr = push_byte (push_chunk s (take 299 fr)) (fr ! 299)"
    by (subst fr) (simp add: push_chunk_def)
  also have "\<dots> = push_byte (s\<lparr>asm_buf := take 299 fr\<rparr>) (fr ! 299)"
    using assms by (simp add: push_frame_prefix kJkResponseSize_def)
  also have "\<dots> = s\<lparr>asm_ready := fr\<rparr>"
  proof -
    have "take 299 fr \<noteq> []" using len by auto
    then show ?thesis
      using fr len crc assms(2)
      by (simp add: push_byte_def Let_def kJkResponseSize_def nth_append fr [symmetric])
  qed
  finally show ?thesis .
qed


lemma noise_then_frame:
  assumes "good_frame fr" and "0x55 \<notin> set noise" and "asm_buf s = []"
  shows "take_complete_frame (push_chunk s (noise @ fr)) = (Some fr, s\<lparr>asm_ready := []\<rparr>)"
proof -
  have "fr \<noteq> []" using assms(1) by (auto simp: good_frame_def kJkResponseSize_def)
  then show ?thesis
    using assms by (simp add: push_chunk_append push_noise push_frame take_complete_frame_def)
qed

text \<open>
  Fewer bytes than a frame still needs complete nothing; in particular a stray
  \<open>0x55\<close> in front of a frame loses that frame: the mismatch on the second byte clears the
  buffer and the byte itself, although it is the first byte of the magic.
\<close>

lemma push_too_few:
  "length (asm_buf s) + length data < kJkResponseSize \<Longrightarrow> asm_ready (push_chunk s data) = asm_ready s"
proof (induction data arbitrary: s)
  case (Cons b data)
  have "asm_ready (push_byte s b) = asm_ready s" "length (asm_buf (push_byte s b)) \<le> Suc (length (asm_buf s))"
    using Cons.prems by (auto simp: push_byte_def Let_def)
  then show ?case using Cons.IH [of "push_byte s b"] Cons.prems by (simp add: push_chunk_def)
qed simp

text \<open>A stray start byte directly before a frame loses the frame: after the mismatch the
  code clears the buffer without looking at the mismatching byte again, which was the start
  of the real frame.\<close>

theorem stray_start_byte_loses_frame:
  assumes "good_frame fr" and "asm_buf s = []"
  shows "asm_ready (push_chunk s (0x55 # fr)) = asm_ready s"
proof -
  from assms(1) have len: "length fr = 300" and magic: "take 4 fr = kJkResponseMagic"
    by (simp_all add: good_frame_def kJkResponseSize_def)
  then obtain t where t: "fr = 0x55 # t"
    by (cases fr) (auto simp: kJkResponseMagic_def)
  have "push_byte (push_byte s 0x55) 0x55 = s"
    using assms(2) by (simp add: push_byte_def Let_def kJkResponseMagic_def kJkResponseSize_def)
  then have "push_chunk s (0x55 # fr) = push_chunk s t"
    by (simp add: t push_chunk_def)
  moreover have "length (asm_buf s) + length t < kJkResponseSize"
    using len t assms(2) by (simp add: kJkResponseSize_def)
  ultimately show ?thesis by (simp add: push_too_few)
qed

text \<open>There is one slot for a complete frame: a chunk that completes two delivers the second.\<close>

text \<open>The assembler has one slot for a complete frame: when one chunk completes two frames
  the first is lost.\<close>

theorem later_frame_replaces_earlier:
  assumes "good_frame f1" and "good_frame f2" and "asm_buf s = []"
  shows "push_chunk s (f1 @ f2) = s\<lparr>asm_ready := f2\<rparr>"
  using assms by (simp add: push_chunk_append push_frame)

section \<open>Requests carry a valid checksum\<close>

lemma length_JkRequest: "length (JkRequest_serialize r []) = kJkRequestSize"
  by (simp add: JkRequest_serialize_def Let_def lw_u32_def kJkRequestMagic_def kJkRequestSize_def)

lemma JkRequest_serialize_append: "JkRequest_serialize r out = out @ JkRequest_serialize r []"
  by (simp add: JkRequest_serialize_def Let_def lw_u32_def kJkRequestSize_def kJkRequestMagic_def)

lemma JkRequest_wellformed:
  "JkRequest_serialize r out = out @ w \<Longrightarrow>
     length w = kJkRequestSize \<and> take 4 w = kJkRequestMagic \<and> w ! 4 = jr_command r \<and>
     w ! 5 = jr_value_length r \<and> jk_crc8 (take 19 w) = w ! 19"
  by (subst (asm) JkRequest_serialize_append)
    (auto simp: JkRequest_serialize_def Let_def lw_u32_def kJkRequestMagic_def kJkRequestSize_def
      eval_nat_numeral)

section \<open>A sample frame\<close>

definition sample_frame :: "u8 \<Rightarrow> bytes" where
  "sample_frame ty = kJkResponseMagic @ [ty] @ replicate 294 0 @ [0x7A + ty]"

lemma sample_frame_good: "good_frame (sample_frame 0x02)" "good_frame (sample_frame 0x01)"
  by code_simp+

section \<open>Properties\<close>

text \<open>A serialized request appends 20 bytes: the request magic, the command, the value
  length and value, zeros, and a checksum that is the sum of the 19 bytes before it.\<close>

theorem request_wellformed:
  "\<exists>w. JkRequest_serialize r out = out @ w \<and>
     length w = kJkRequestSize \<and> take 4 w = kJkRequestMagic \<and> w ! 4 = jr_command r \<and>
     w ! 5 = jr_value_length r \<and> jk_crc8 (take 19 w) = w ! 19"
  using JkRequest_serialize_append [of r out] JkRequest_wellformed by blast

text \<open>The assembler keeps its invariant for any input: it buffers less than a frame, what
  it buffers starts like a frame, and a frame it has ready has the right length, magic and
  checksum.\<close>

theorem assembler_invariant:
  "assembler_ok (fold (\<lambda>c s. push_chunk (snd (take_complete_frame s)) c) chunks assembler_init)"
proof -
  have "assembler_ok s \<Longrightarrow> assembler_ok (fold (\<lambda>c s. push_chunk (snd (take_complete_frame s)) c) chunks s)" for s
    by (induction chunks arbitrary: s)
       (simp_all add: push_chunk_ok take_complete_frame_ok [OF _ surjective_pairing])
  then show ?thesis by (simp add: assembler_init_ok)
qed

lemma stray_start_byte_loses_frame_witness:
  "asm_ready (push_chunk assembler_init (0x55 # sample_frame 0x02)) = []"
  using stray_start_byte_loses_frame [OF sample_frame_good(1), of assembler_init]
  by (simp add: assembler_init_def)

lemma later_frame_replaces_earlier_witness:
  "asm_ready (push_chunk assembler_init (sample_frame 0x02 @ sample_frame 0x01)) = sample_frame 0x01"
  using later_frame_replaces_earlier [OF sample_frame_good(1) sample_frame_good(2), of assembler_init]
  by (simp add: assembler_init_def)

end
