(* ===== verification/Jk_Parse.thy ===== *)
theory Jk_Parse
  imports Jk_Frame
begin

text \<open>
  The parsers of the JK response frames (second half of src/jk_protocol.cpp).  They index
  the frame with constant offsets after checking its length once; every access here is a
  checked read, and \<open>parse_*_safe\<close> say that no access leaves the frame, whatever the
  frame's bytes are.  The result of a parser is its \<open>bool\<close> and the objects it fills.
\<close>

section \<open>Little-endian reads\<close>

definition le16 :: "bytes \<Rightarrow> nat \<Rightarrow> u16 option" where
  "le16 p i = do {
     a \<leftarrow> rd8 p i;
     b \<leftarrow> rd8 p (i + 1);
     Some (ucast a OR push_bit 8 (ucast b))
   }"

definition le16s :: "bytes \<Rightarrow> nat \<Rightarrow> i16 option" where
  "le16s p i = le16 p i"

definition le32 :: "bytes \<Rightarrow> nat \<Rightarrow> u32 option" where
  "le32 p i = do {
     a \<leftarrow> rd8 p i;
     b \<leftarrow> rd8 p (i + 1);
     c \<leftarrow> rd8 p (i + 2);
     d \<leftarrow> rd8 p (i + 3);
     Some (ucast a OR push_bit 8 (ucast b) OR push_bit 16 (ucast c) OR push_bit 24 (ucast d))
   }"

definition le32s :: "bytes \<Rightarrow> nat \<Rightarrow> i32 option" where
  "le32s p i = le32 p i"

text \<open>
  \<open>read_string\<close>: the bytes up to the first NUL, at most \<open>max_len\<close>, without trailing
  blanks.
\<close>

fun scan_str :: "bytes \<Rightarrow> nat \<Rightarrow> nat \<Rightarrow> bytes option" where
  "scan_str p off 0 = Some []"
| "scan_str p off (Suc max_len) = do {
     c \<leftarrow> rd8 p off;
     if c = 0 then Some []
     else do { cs \<leftarrow> scan_str p (Suc off) max_len; Some (c # cs) }
   }"

definition pop_blanks :: "bytes \<Rightarrow> bytes" where
  "pop_blanks s = rev (dropWhile (\<lambda>c. c = 0x20) (rev s))"

definition read_string :: "bytes \<Rightarrow> nat \<Rightarrow> nat \<Rightarrow> bytes option" where
  "read_string p off max_len = map_option pop_blanks (scan_str p off max_len)"

definition starts_with_response_magic :: "bytes \<Rightarrow> bool" where
  "starts_with_response_magic p \<longleftrightarrow>
     length p \<ge> 4 \<and> p ! 0 = kJkResponseMagic ! 0 \<and> p ! 1 = kJkResponseMagic ! 1 \<and>
     p ! 2 = kJkResponseMagic ! 2 \<and> p ! 3 = kJkResponseMagic ! 3"

text \<open>The outer \<open>option\<close> is the checked read, the inner one the \<open>std::optional\<close>.\<close>

definition jk_response_frame_type :: "bytes \<Rightarrow> u8 option option" where
  "jk_response_frame_type frame =
     (if length frame < kJkResponseSize then Some None
      else if \<not> starts_with_response_magic frame then Some None
      else map_option Some (rd8 frame 4))"

section \<open>parse_cell_info\<close>

definition looks_like_bitmask :: "u32 \<Rightarrow> bool" where
  "looks_like_bitmask v \<longleftrightarrow> v \<ge> 0x0F \<and> (v + 1) AND v = 0"

text \<open>The loop over the cell slots, which stops at the first zero voltage.\<close>

fun read_cells :: "bytes \<Rightarrow> nat \<Rightarrow> nat \<Rightarrow> u16 list option" where
  "read_cells frame i 0 = Some []"
| "read_cells frame i (Suc slots) = do {
     v \<leftarrow> le16 frame (6 + i * 2);
     if v = 0 then Some []
     else do { vs \<leftarrow> read_cells frame (Suc i) slots; Some (v # vs) }
   }"

fun read_resistances :: "bytes \<Rightarrow> nat \<Rightarrow> nat \<Rightarrow> nat \<Rightarrow> u16 list option" where
  "read_resistances frame res_off i 0 = Some []"
| "read_resistances frame res_off i (Suc n) = do {
     r \<leftarrow> le16 frame (res_off + i * 2);
     rs \<leftarrow> read_resistances frame res_off (Suc i) n;
     Some (r # rs)
   }"

definition zero_based :: "u8 \<Rightarrow> u8" where
  "zero_based b = (if b \<noteq> 0 then b - 1 else 0)"

definition parse_cells :: "bytes \<Rightarrow> bool \<Rightarrow> JkCellInfo option" where
  "parse_cells frame is_32s = do {
     let cell_slots = (if is_32s then 32 else 24);
     let cell_shift = (if is_32s then 16 else 0);
     vs \<leftarrow> read_cells frame 0 cell_slots;
     avg \<leftarrow> le16 frame (58 + cell_shift);
     diff \<leftarrow> le16 frame (60 + cell_shift);
     mx \<leftarrow> rd8 frame (62 + cell_shift);
     mn \<leftarrow> rd8 frame (63 + cell_shift);
     let res_off = (if is_32s then 80 else 64);
     rs \<leftarrow> read_resistances frame res_off 0 (length vs);
     Some \<lparr>voltages_mv = vs, resistance_uohm = rs, average_voltage_mv = avg,
           voltage_diff_mv = diff, max_voltage_cell_idx = zero_based mx,
           min_voltage_cell_idx = zero_based mn\<rparr>
   }"

definition parse_pack :: "bytes \<Rightarrow> bool \<Rightarrow> JkPackInfo option" where
  "parse_pack frame is_32s = do {
     let telem_shift = (if is_32s then 32 else 0);
     mos_temp \<leftarrow> (if is_32s then le16s frame 144 else le16s frame 134);
     voltage \<leftarrow> le32 frame (118 + telem_shift);
     current \<leftarrow> le32s frame (126 + telem_shift);
     temp1 \<leftarrow> le16s frame (130 + telem_shift);
     temp2 \<leftarrow> le16s frame (132 + telem_shift);
     errors \<leftarrow> le16 frame (if is_32s then 166 else 136);
     soc \<leftarrow> rd8 frame (141 + telem_shift);
     remaining \<leftarrow> le32 frame (142 + telem_shift);
     total_cap \<leftarrow> le32 frame (146 + telem_shift);
     cycles \<leftarrow> le32 frame (150 + telem_shift);
     charging \<leftarrow> rd8 frame (166 + telem_shift);
     discharging \<leftarrow> rd8 frame (167 + telem_shift);
     balance_current \<leftarrow> le16 frame (138 + telem_shift);
     balancer \<leftarrow> rd8 frame (140 + telem_shift);
     Some \<lparr>voltage_mv = voltage, current_ma = current, state_of_charge_pct = soc,
           remaining_capacity_mah = remaining, total_capacity_mah = total_cap,
           cycle_count = cycles, battery_temp1_dC = temp1, battery_temp2_dC = temp2,
           power_tube_temp_dC = mos_temp, charging_enabled = (charging \<noteq> 0),
           discharging_enabled = (discharging \<noteq> 0), balancer_enabled = (balancer \<noteq> 0),
           balance_current_ma = balance_current, errors_bitmask = errors\<rparr>
   }"

definition parse_cell_info ::
    "bytes \<Rightarrow> JkCellInfo \<Rightarrow> JkPackInfo \<Rightarrow> (bool \<times> JkCellInfo \<times> JkPackInfo) option" where
  "parse_cell_info frame cells pack =
     (if length frame < kJkResponseSize then Some (False, cells, pack)
      else if \<not> starts_with_response_magic frame then Some (False, cells, pack)
      else do {
        ty \<leftarrow> rd8 frame 4;
        if ty \<noteq> kJkFrameTypeCellInfo then Some (False, cells, pack)
        else do {
          mask \<leftarrow> le32 frame 54;
          let is_32s = (\<not> looks_like_bitmask mask);
          cells \<leftarrow> parse_cells frame is_32s;
          pack \<leftarrow> parse_pack frame is_32s;
          Some (True, cells, pack)
        }
      })"


section \<open>parse_device_info\<close>

definition parse_device_info :: "bytes \<Rightarrow> JkDeviceInfo \<Rightarrow> (bool \<times> JkDeviceInfo) option" where
  "parse_device_info frame out =
     (if length frame < kJkResponseSize then Some (False, out)
      else if \<not> starts_with_response_magic frame then Some (False, out)
      else do {
        ty \<leftarrow> rd8 frame 4;
        if ty \<noteq> kJkFrameTypeDeviceInfo then Some (False, out)
        else do {
          vendor \<leftarrow> read_string frame 6 16;
          hw \<leftarrow> read_string frame 22 8;
          fw \<leftarrow> read_string frame 30 8;
          uptime \<leftarrow> le32 frame 38;
          power_on \<leftarrow> le32 frame 42;
          dev_name \<leftarrow> read_string frame 46 16;
          password \<leftarrow> read_string frame 62 16;
          mfg_date \<leftarrow> read_string frame 78 8;
          serial \<leftarrow> read_string frame 86 16;
          user1 \<leftarrow> read_string frame 102 16;
          settings_pw \<leftarrow> read_string frame 118 16;
          user2 \<leftarrow> read_string frame 134 16;
          uart1 \<leftarrow> rd8 frame 184;
          can \<leftarrow> rd8 frame 185;
          uart2 \<leftarrow> rd8 frame 218;
          buzzer_proto \<leftarrow> rd8 frame 234;
          buzzer_trigger \<leftarrow> le32 frame 238;
          buzzer_release \<leftarrow> le32 frame 242;
          store_period \<leftarrow> le32 frame 262;
          rcv \<leftarrow> rd8 frame 266;
          rfv \<leftarrow> rd8 frame 267;
          emerg \<leftarrow> rd8 frame 269;
          rebulk \<leftarrow> rd8 frame 278;
          Some (True,
            \<lparr>vendor_id = vendor, hardware_version = hw, firmware_version = fw,
             uptime_s = uptime, power_on_count = power_on, device_name = dev_name,
             login_password = password, manufacturing_date = mfg_date, serial_number = serial,
             user_data_1 = user1, settings_password = settings_pw, user_data_2 = user2,
             uart1_protocol = uart1, can_protocol = can, uart2_protocol = uart2,
             lcd_buzzer_trigger_protocol = buzzer_proto, lcd_buzzer_trigger_value = buzzer_trigger,
             lcd_buzzer_release_value = buzzer_release, data_store_period_s = store_period,
             rcv_time_01h = rcv, rfv_time_01h = rfv, emerg_time = emerg, rebulk_soc_pct = rebulk\<rparr>)
        }
      })"

section \<open>parse_settings\<close>

text \<open>\<open>static_cast<uint16_t>(le32(..))\<close> and \<open>static_cast<int16_t>(le32s(..))\<close>.\<close>

definition le32_16 :: "bytes \<Rightarrow> nat \<Rightarrow> u16 option" where
  "le32_16 p i = map_option ucast (le32 p i)"

definition le32_8 :: "bytes \<Rightarrow> nat \<Rightarrow> u8 option" where
  "le32_8 p i = map_option ucast (le32 p i)"

definition le32_bool :: "bytes \<Rightarrow> nat \<Rightarrow> bool option" where
  "le32_bool p i = map_option (\<lambda>v. v \<noteq> 0) (le32 p i)"

definition parse_settings :: "bytes \<Rightarrow> JkSettings \<Rightarrow> (bool \<times> JkSettings) option" where
  "parse_settings frame out =
     (if length frame < kJkResponseSize then Some (False, out)
      else if \<not> starts_with_response_magic frame then Some (False, out)
      else do {
        ty \<leftarrow> rd8 frame 4;
        if ty \<noteq> kJkFrameTypeSettings then Some (False, out)
        else do {
          v6 \<leftarrow> le32_16 frame 6;
          v10 \<leftarrow> le32_16 frame 10;
          v14 \<leftarrow> le32_16 frame 14;
          v18 \<leftarrow> le32_16 frame 18;
          v22 \<leftarrow> le32_16 frame 22;
          v26 \<leftarrow> le32_16 frame 26;
          v30 \<leftarrow> le32_16 frame 30;
          v34 \<leftarrow> le32_16 frame 34;
          v38 \<leftarrow> le32_16 frame 38;
          v42 \<leftarrow> le32_16 frame 42;
          v46 \<leftarrow> le32_16 frame 46;
          v50 \<leftarrow> le32 frame 50;
          v54 \<leftarrow> le32 frame 54;
          v58 \<leftarrow> le32 frame 58;
          v62 \<leftarrow> le32 frame 62;
          v66 \<leftarrow> le32 frame 66;
          v70 \<leftarrow> le32 frame 70;
          v74 \<leftarrow> le32 frame 74;
          v78 \<leftarrow> le32 frame 78;
          v82 \<leftarrow> le32_16 frame 82;
          v86 \<leftarrow> le32_16 frame 86;
          v90 \<leftarrow> le32_16 frame 90;
          v94 \<leftarrow> le32_16 frame 94;
          v98 \<leftarrow> le32_16 frame 98;
          v102 \<leftarrow> le32_16 frame 102;
          v106 \<leftarrow> le32_16 frame 106;
          v110 \<leftarrow> le32_16 frame 110;
          v114 \<leftarrow> le32_8 frame 114;
          v118 \<leftarrow> le32_bool frame 118;
          v122 \<leftarrow> le32_bool frame 122;
          v126 \<leftarrow> le32_bool frame 126;
          v130 \<leftarrow> le32 frame 130;
          v134 \<leftarrow> le32 frame 134;
          v138 \<leftarrow> le32_16 frame 138;
          Some (True,
            \<lparr>smart_sleep_mv = v6, cell_uvp_mv = v10, cell_uvpr_mv = v14, cell_ovp_mv = v18,
             cell_ovpr_mv = v22, balance_trigger_mv = v26, soc_100_mv = v30, soc_0_mv = v34,
             request_charge_mv = v38, request_float_mv = v42, power_off_mv = v46,
             max_charge_current_ma = v50, charge_ocp_delay_s = v54, charge_ocp_recovery_s = v58,
             max_discharge_current_ma = v62, discharge_ocp_delay_s = v66,
             discharge_ocp_recovery_s = v70, scp_recovery_s = v74, max_balance_current_ma = v78,
             charge_otp_dC = v82, charge_otp_recovery_dC = v86, discharge_otp_dC = v90,
             discharge_otp_recovery_dC = v94, charge_utp_dC = v98, charge_utp_recovery_dC = v102,
             mosfet_otp_dC = v106, mosfet_otp_recovery_dC = v110, cell_count = v114,
             charging_switch_on = v118, discharging_switch_on = v122, balancer_switch_on = v126,
             nominal_capacity_mah = v130, scp_delay_us = v134, start_balance_mv = v138\<rparr>)
        }
      })"

section \<open>No parser reads outside its frame\<close>

lemma le16_in [safe_read]: "i + 1 < length p \<Longrightarrow> \<exists>v. le16 p i = Some v"
  by (simp add: le16_def safe_read)

lemma le16s_in [safe_read]: "i + 1 < length p \<Longrightarrow> \<exists>v. le16s p i = Some v"
  by (simp add: le16s_def le16_in)

lemma le32_in [safe_read]: "i + 3 < length p \<Longrightarrow> \<exists>v. le32 p i = Some v"
  by (simp add: le32_def safe_read)

lemma le32s_in [safe_read]: "i + 3 < length p \<Longrightarrow> \<exists>v. le32s p i = Some v"
  by (simp add: le32s_def le32_in)

lemma le32_cast_in [safe_read]:
  "i + 3 < length p \<Longrightarrow> \<exists>v. le32_16 p i = Some v"
  "i + 3 < length p \<Longrightarrow> \<exists>v. le32_8 p i = Some v"
  "i + 3 < length p \<Longrightarrow> \<exists>v. le32_bool p i = Some v"
  using le32_in [of i p] by (auto simp: le32_16_def le32_8_def le32_bool_def)

lemma scan_str_in: "off + n \<le> length p \<Longrightarrow> \<exists>s. scan_str p off n = Some s"
proof (induction n arbitrary: off)
  case (Suc n)
  then obtain s where "scan_str p (Suc off) n = Some s" by fastforce
  with Suc.prems show ?case by (simp add: rd8_in)
qed simp

lemma read_string_in [safe_read]: "off + n \<le> length p \<Longrightarrow> \<exists>s. read_string p off n = Some s"
  using scan_str_in [of off n p] by (auto simp: read_string_def)

lemma read_cells_in: "6 + 2 * (i + n) \<le> length p \<Longrightarrow> \<exists>vs. read_cells p i n = Some vs \<and> length vs \<le> n"
proof (induction n arbitrary: i)
  case (Suc n)
  have "6 + 2 * (Suc i + n) \<le> length p" using Suc.prems by simp
  from Suc.IH [OF this] obtain vs where "read_cells p (Suc i) n = Some vs" "length vs \<le> n"
    by auto
  moreover obtain v where "le16 p (6 + i * 2) = Some v"
    using le16_in [of "6 + i * 2" p] Suc.prems by auto
  ultimately show ?case by simp
qed simp

lemma read_resistances_in:
  "off + 2 * (i + n) \<le> length p \<Longrightarrow> \<exists>rs. read_resistances p off i n = Some rs \<and> length rs = n"
proof (induction n arbitrary: i)
  case (Suc n)
  have "off + 2 * (Suc i + n) \<le> length p" using Suc.prems by simp
  from Suc.IH [OF this] obtain rs where "read_resistances p off (Suc i) n = Some rs" "length rs = n"
    by auto
  moreover obtain r where "le16 p (off + i * 2) = Some r"
    using le16_in [of "off + i * 2" p] Suc.prems by auto
  ultimately show ?case by simp
qed simp

text \<open>The calculus that walks a parser: each read is inside the frame, each branch is total.\<close>

lemma inside_bind:
  "\<exists>v. m = Some v \<Longrightarrow> (\<And>v. \<exists>w. f v = Some w) \<Longrightarrow> \<exists>w. m \<bind> f = Some w"
  by auto

lemma inside_if:
  "(c \<Longrightarrow> \<exists>w. a = Some w) \<Longrightarrow> (\<not> c \<Longrightarrow> \<exists>w. b = Some w) \<Longrightarrow> \<exists>w. (if c then a else b) = Some w"
  by auto

lemma inside_some: "\<exists>w. Some x = Some w"
  by auto

lemma rd8_reads: "i < length p \<Longrightarrow> \<exists>v. rd8 p i = Some v"
  by (simp add: rd8_in)

lemmas inside_rules =
  inside_bind inside_if inside_some rd8_reads le16_in le16s_in le32_in le32s_in le32_cast_in
  read_string_in

lemma parse_cells_in:
  assumes "length frame \<ge> kJkResponseSize"
  shows "\<exists>cells. parse_cells frame is_32s = Some cells \<and>
    length (voltages_mv cells) \<le> (if is_32s then 32 else 24) \<and>
    length (resistance_uohm cells) = length (voltages_mv cells)"
proof -
  let ?slots = "if is_32s then 32 else 24 :: nat"
  have len: "length frame \<ge> 300" using assms by (simp add: kJkResponseSize_def)
  obtain vs where vs: "read_cells frame 0 ?slots = Some vs" "length vs \<le> ?slots"
    using read_cells_in [of 0 ?slots frame] len by (cases is_32s) auto
  moreover obtain rs where
    "read_resistances frame (if is_32s then 80 else 64) 0 (length vs) = Some rs"
    "length rs = length vs"
    using read_resistances_in [of "if is_32s then 80 else 64" 0 "length vs" frame] len vs(2)
    by (cases is_32s) auto
  moreover obtain avg where "le16 frame (58 + (if is_32s then 16 else 0)) = Some avg"
    using le16_in [of "58 + (if is_32s then 16 else 0)" frame] len by (cases is_32s) auto
  moreover obtain df where "le16 frame (60 + (if is_32s then 16 else 0)) = Some df"
    using le16_in [of "60 + (if is_32s then 16 else 0)" frame] len by (cases is_32s) auto
  ultimately show ?thesis
    using len by (cases is_32s) (simp_all add: parse_cells_def rd8_in)
qed

lemma parse_pack_in:
  assumes "length frame \<ge> kJkResponseSize"
  shows "\<exists>pack. parse_pack frame is_32s = Some pack"
  unfolding parse_pack_def Let_def using assms
  by (intro inside_rules; simp add: kJkResponseSize_def)

text \<open>No access of the three parsers leaves the frame, whatever its bytes are.\<close>

lemma parse_cells_reads:
  "length frame \<ge> kJkResponseSize \<Longrightarrow> \<exists>cells. parse_cells frame is_32s = Some cells"
  using parse_cells_in [of frame is_32s] by auto

lemma parse_cell_info_total: "\<exists>r. parse_cell_info frame cells pack = Some r"
  unfolding parse_cell_info_def Let_def
  by (intro inside_rules parse_pack_in parse_cells_reads; simp add: kJkResponseSize_def)

lemma parse_device_info_total: "\<exists>r. parse_device_info frame out = Some r"
  unfolding parse_device_info_def
  by (intro inside_rules; simp add: kJkResponseSize_def)

lemma parse_settings_total: "\<exists>r. parse_settings frame out = Some r"
  unfolding parse_settings_def
  by (intro inside_rules; simp add: kJkResponseSize_def)

section \<open>What the cell table is\<close>

text \<open>The 16-bit word of a slot, and the slots of a table.\<close>

abbreviation word_at :: "bytes \<Rightarrow> nat \<Rightarrow> u16" where
  "word_at p i \<equiv> ucast (p ! i) OR push_bit 8 (ucast (p ! Suc i))"

lemma le16_word_at: "i + 1 < length p \<Longrightarrow> le16 p i = Some (word_at p i)"
  by (simp add: le16_def rd8_in)

lemma read_cells_takeWhile:
  "6 + 2 * (i + n) \<le> length p \<Longrightarrow>
   read_cells p i n = Some (takeWhile (\<lambda>v. v \<noteq> 0) (map (\<lambda>k. word_at p (6 + k * 2)) [i..<i + n]))"
proof (induction n arbitrary: i)
  case (Suc n)
  have "6 + 2 * (Suc i + n) \<le> length p" using Suc.prems by simp
  note ih = Suc.IH [OF this]
  have "le16 p (6 + i * 2) = Some (word_at p (6 + i * 2))"
    using Suc.prems by (intro le16_word_at) simp
  moreover have "[i..<i + Suc n] = i # [Suc i..<Suc i + n]" by (simp add: upt_conv_Cons del: upt_Suc)
  ultimately show ?case by (simp add: ih del: upt_Suc)
qed simp

lemma read_resistances_map:
  "off + 2 * (i + n) \<le> length p \<Longrightarrow>
   read_resistances p off i n = Some (map (\<lambda>k. word_at p (off + k * 2)) [i..<i + n])"
proof (induction n arbitrary: i)
  case (Suc n)
  have "off + 2 * (Suc i + n) \<le> length p" using Suc.prems by simp
  note ih = Suc.IH [OF this]
  have "le16 p (off + i * 2) = Some (word_at p (off + i * 2))"
    using Suc.prems by (intro le16_word_at) simp
  moreover have "[i..<i + Suc n] = i # [Suc i..<Suc i + n]" by (simp add: upt_conv_Cons del: upt_Suc)
  ultimately show ?case by (simp add: ih del: upt_Suc)
qed simp

section \<open>Telling the two layouts apart\<close>

lemma and_Suc_zero_iff: "(Suc m AND m = 0) = (\<exists>k. Suc m = 2 ^ k)"
proof (induction m rule: less_induct)
  case (less m)
  show ?case
  proof (cases "m = 0")
    case True then show ?thesis by (auto intro: exI [of _ 0])
  next
    case m: False
    show ?thesis
    proof (cases "even m")
      case True
      then have "Suc m AND m = m" using m
        by (subst and_rec) (auto elim!: evenE)
      moreover have "\<not> (\<exists>k. Suc m = 2 ^ k)"
      proof
        assume "\<exists>k. Suc m = 2 ^ k"
        then obtain k where "Suc m = 2 ^ k" ..
        moreover have "odd (Suc m)" using True by simp
        ultimately show False using m by (cases k) auto
      qed
      ultimately show ?thesis using m by simp
    next
      case False
      then obtain h where h: "m = 2 * h + 1" by (elim oddE)
      then have "Suc m AND m = 2 * (Suc h AND h)"
        by (subst and_rec) simp
      moreover have "h < m" using h by simp
      moreover have "(\<exists>k. Suc m = 2 ^ k) = (\<exists>k. Suc h = 2 ^ k)"
      proof
        assume "\<exists>k. Suc m = 2 ^ k"
        then obtain k where "Suc m = 2 ^ k" ..
        with h obtain k' where "2 * Suc h = 2 * 2 ^ k'" by (cases k) auto
        then have "Suc h = 2 ^ k'" by (simp only: mult_cancel1) simp
        then show "\<exists>k. Suc h = 2 ^ k" ..
      next
        assume "\<exists>k. Suc h = 2 ^ k"
        then obtain k where "Suc h = 2 ^ k" ..
        with h have "Suc m = 2 ^ Suc k" by simp
        then show "\<exists>k. Suc m = 2 ^ k" ..
      qed
      ultimately show ?thesis using less.IH [of h] by simp
    qed
  qed
qed

lemma looks_like_bitmask_iff:
  "looks_like_bitmask v \<longleftrightarrow> (\<exists>n. 4 \<le> n \<and> n \<le> 32 \<and> unat v = 2 ^ n - 1)"
proof -
  have pow: "(2::nat) ^ n < 2 ^ 32 \<longleftrightarrow> n < 32" "(2::nat) ^ 4 \<le> 2 ^ n \<longleftrightarrow> 4 \<le> n" for n
    using power_strict_increasing_iff [of "2::nat" n 32] power_increasing_iff [of "2::nat" 4 n]
    by simp_all
  have ge: "v \<ge> 0x0F \<longleftrightarrow> unat v \<ge> 15" by (simp add: word_le_nat_alt)
  show ?thesis
  proof (cases "v = - 1")
    case True
    have max: "unat v = 2 ^ 32 - 1"
      using True by (simp add: unsigned_minus_1_eq_mask mask_eq_exp_minus_1)
    then have "looks_like_bitmask v" using True
      by (simp add: looks_like_bitmask_def word_le_nat_alt del: unsigned_minus_1_eq_mask)
    moreover note max
    ultimately show ?thesis by (auto intro!: exI [of _ 32])
  next
    case False
    have bound: "unat v < 2 ^ 32" using unsigned_less [of v] by simp
    moreover have "unat v \<noteq> 2 ^ 32 - 1"
    proof
      assume "unat v = 2 ^ 32 - 1"
      then have "unat v = unat (- 1 :: u32)"
        by (simp add: unsigned_minus_1_eq_mask mask_eq_exp_minus_1)
      with False show False by (simp add: word_unat_eq_iff)
    qed
    ultimately have less: "Suc (unat v) < 2 ^ 32" by simp
    then have Suc: "unat (v + 1) = Suc (unat v)" by (simp add: unat_word_ariths)
    have "(v + 1) AND v = 0 \<longleftrightarrow> unat ((v + 1) AND v) = 0" by (simp add: unat_eq_0)
    also have "\<dots> \<longleftrightarrow> (\<exists>k. Suc (unat v) = 2 ^ k)"
      by (simp only: unsigned_and_eq Suc and_Suc_zero_iff)
    finally have low: "(v + 1) AND v = 0 \<longleftrightarrow> (\<exists>k. Suc (unat v) = 2 ^ k)" .
    have "15 \<le> unat v \<and> (\<exists>k. Suc (unat v) = 2 ^ k) \<longleftrightarrow>
        (\<exists>n. 4 \<le> n \<and> n \<le> 32 \<and> unat v = 2 ^ n - 1)"
    proof
      assume a: "15 \<le> unat v \<and> (\<exists>k. Suc (unat v) = 2 ^ k)"
      then obtain k where k: "Suc (unat v) = 2 ^ k" by blast
      have "(2::nat) ^ 4 \<le> 2 ^ k" using a k by simp
      moreover have "(2::nat) ^ k < 2 ^ 32" using less k by simp
      moreover have "unat v = 2 ^ k - 1" using k by simp
      ultimately show "\<exists>n. 4 \<le> n \<and> n \<le> 32 \<and> unat v = 2 ^ n - 1"
        unfolding pow by (intro exI [of _ k]) simp
    next
      assume "\<exists>n. 4 \<le> n \<and> n \<le> 32 \<and> unat v = 2 ^ n - 1"
      then obtain n where n: "4 \<le> n" "unat v = 2 ^ n - 1" by blast
      then have "(2::nat) ^ 4 \<le> 2 ^ n" by (simp only: pow)
      with n have "15 \<le> unat v" "Suc (unat v) = 2 ^ n" by simp_all
      then show "15 \<le> unat v \<and> (\<exists>k. Suc (unat v) = 2 ^ k)" by blast
    qed
    then show ?thesis unfolding looks_like_bitmask_def ge low .
  qed
qed

section \<open>Which parser accepts a frame\<close>

lemma frame_type_some:
  assumes "jk_response_frame_type frame = Some (Some ty)"
  shows "\<not> length frame < kJkResponseSize" "starts_with_response_magic frame" "rd8 frame 4 = Some ty"
  using assms by (auto simp: jk_response_frame_type_def split: if_splits)

lemma parse_cells_voltages:
  assumes "length frame \<ge> kJkResponseSize" "parse_cells frame is_32s = Some cells"
  shows "voltages_mv cells =
    takeWhile (\<lambda>v. v \<noteq> 0) (map (\<lambda>k. word_at frame (6 + k * 2)) [0..<(if is_32s then 32 else 24)])"
  using assms read_cells_takeWhile [of 0 "if is_32s then 32 else 24" frame]
  by (cases is_32s)
     (auto simp: parse_cells_def Let_def kJkResponseSize_def split: Option.bind_splits)

lemma parse_cell_info_accepts:
  assumes "jk_response_frame_type frame = Some (Some kJkFrameTypeCellInfo)" "le32 frame 54 = Some m"
  obtains cells' pack' where
    "parse_cell_info frame cells pack = Some (True, cells', pack')"
    "parse_cells frame (\<not> looks_like_bitmask m) = Some cells'"
    "parse_pack frame (\<not> looks_like_bitmask m) = Some pack'"
proof -
  note ft = frame_type_some [OF assms(1)]
  have len: "length frame \<ge> kJkResponseSize" using ft(1) by simp
  obtain c k where "parse_cells frame (\<not> looks_like_bitmask m) = Some c"
      "parse_pack frame (\<not> looks_like_bitmask m) = Some k"
    using parse_cells_reads [OF len] parse_pack_in [OF len] by metis
  moreover from this have "parse_cell_info frame cells pack = Some (True, c, k)"
    using ft assms(2) by (simp add: parse_cell_info_def Let_def)
  ultimately show ?thesis using that by blast
qed

lemma accepted_is_true:
  "parse_cell_info frame cells pack = Some (b, r) \<Longrightarrow>
   b \<longleftrightarrow> jk_response_frame_type frame = Some (Some kJkFrameTypeCellInfo)"
  "parse_device_info frame dev = Some (b', r') \<Longrightarrow>
   b' \<longleftrightarrow> jk_response_frame_type frame = Some (Some kJkFrameTypeDeviceInfo)"
  "parse_settings frame sett = Some (b'', r'') \<Longrightarrow>
   b'' \<longleftrightarrow> jk_response_frame_type frame = Some (Some kJkFrameTypeSettings)"
  by (auto simp: parse_cell_info_def parse_device_info_def parse_settings_def
      jk_response_frame_type_def Let_def rd8_def split: if_splits Option.bind_splits)

section \<open>Properties\<close>

text \<open>C20: No parser of a response frame reads outside the frame, whatever its length and its
  bytes are, and each accepts exactly the full-length frames with the response magic and its
  own type.\<close>

theorem frame_parsers_total_and_exclusive:
  "(\<exists>c k. parse_cell_info frame cells pack =
      Some (jk_response_frame_type frame = Some (Some kJkFrameTypeCellInfo), c, k)) \<and>
   (\<exists>d. parse_device_info frame dev =
      Some (jk_response_frame_type frame = Some (Some kJkFrameTypeDeviceInfo), d)) \<and>
   (\<exists>s. parse_settings frame old =
      Some (jk_response_frame_type frame = Some (Some kJkFrameTypeSettings), s))"
proof (intro conjI)
  obtain b c k where p: "parse_cell_info frame cells pack = Some (b, c, k)"
    using parse_cell_info_total [of frame cells pack] by auto
  with accepted_is_true(1) [OF p] show "\<exists>c k. parse_cell_info frame cells pack =
      Some (jk_response_frame_type frame = Some (Some kJkFrameTypeCellInfo), c, k)" by blast
  obtain b d where p: "parse_device_info frame dev = Some (b, d)"
    using parse_device_info_total [of frame dev] by auto
  with accepted_is_true(2) [OF p] show "\<exists>d. parse_device_info frame dev =
      Some (jk_response_frame_type frame = Some (Some kJkFrameTypeDeviceInfo), d)" by blast
  obtain b s where p: "parse_settings frame old = Some (b, s)"
    using parse_settings_total [of frame old] by auto
  with accepted_is_true(3) [OF p] show "\<exists>s. parse_settings frame old =
      Some (jk_response_frame_type frame = Some (Some kJkFrameTypeSettings), s)" by blast
qed

text \<open>C21: The layout of a cell-info frame is the 24-cell one exactly when bytes 54 to 57 are
  \<open>2^n - 1\<close> for some \<open>n\<close> from 4 to 32; the cell voltages are the slots of that layout's table
  up to the first empty one, and there is one resistance per voltage.\<close>

theorem cell_table_layout:
  assumes "jk_response_frame_type frame = Some (Some kJkFrameTypeCellInfo)"
    and "le32 frame 54 = Some m"
  defines "slots \<equiv> if \<exists>n. 4 \<le> n \<and> n \<le> 32 \<and> unat m = 2 ^ n - 1 then 24 else 32"
  shows "\<exists>c k. parse_cell_info frame cells pack = Some (True, c, k) \<and>
    voltages_mv c = takeWhile (\<lambda>v. v \<noteq> 0) (map (\<lambda>i. word_at frame (6 + i * 2)) [0..<slots]) \<and>
    length (resistance_uohm c) = length (voltages_mv c)"
proof -
  from parse_cell_info_accepts [OF assms(1,2)] obtain c k where
    p: "parse_cell_info frame cells pack = Some (True, c, k)"
      "parse_cells frame (\<not> looks_like_bitmask m) = Some c" by blast
  have len: "length frame \<ge> kJkResponseSize" using frame_type_some(1) [OF assms(1)] by simp
  have "slots = (if \<not> looks_like_bitmask m then 32 else 24)"
    unfolding slots_def looks_like_bitmask_iff [symmetric] by simp
  then show ?thesis
    using p parse_cells_voltages [OF len p(2)] parse_cells_in [OF len, of "\<not> looks_like_bitmask m"]
    by auto
qed

lemma cell_table_layout_witness:
  "\<exists>c k. parse_cell_info (sample_frame 0x02) JkCellInfo_default JkPackInfo_default = Some (True, c, k) \<and>
     voltages_mv c = []"
proof -
  have "jk_response_frame_type (sample_frame 0x02) = Some (Some kJkFrameTypeCellInfo)"
    "le32 (sample_frame 0x02) 54 = Some 0" "word_at (sample_frame 0x02) (6 + 0 * 2) = 0"
    by code_simp+
  from cell_table_layout [OF this(1,2), of JkCellInfo_default JkPackInfo_default] this(3)
  show ?thesis by (auto simp: upt_rec [of 0 32] upt_rec [of 0 24])
qed

end
