(* ===== verification/Jk_Driver.thy ===== *)
theory Jk_Driver
  imports Jk_Parse Battery_Protocol
begin

text \<open>
  src/jk_protocol_driver.cpp: the JK driver.  Its state is the frame assembler; \<open>feed\<close> pushes
  the chunk and drains the assembler, dispatching each complete frame on its type.  The
  outer \<open>option\<close> of a result is the checked memory access of the parsers; \<open>feed_defined\<close>
  shows that it is never \<open>None\<close>.
\<close>

section \<open>Operations\<close>

definition jk_reset :: "JkFrameAssembler \<Rightarrow> JkFrameAssembler" where
  "jk_reset s = assembler_reset s"

definition jk_poll_request :: "JkFrameAssembler \<Rightarrow> bytes" where
  "jk_poll_request s = JkRequest_serialize \<lparr>jr_command = kJkCmdCellInfo, jr_value_length = 0, jr_value = 0\<rparr> []"

definition jk_settings_request :: "JkFrameAssembler \<Rightarrow> bytes" where
  "jk_settings_request s = JkRequest_serialize \<lparr>jr_command = kJkCmdDeviceInfo, jr_value_length = 0, jr_value = 0\<rparr> []"

text \<open>The body of the drain loop: one complete frame.\<close>

definition jk_dispatch :: "bytes \<Rightarrow> Parsed \<Rightarrow> Parsed option" where
  "jk_dispatch frame out = do {
     type \<leftarrow> jk_response_frame_type frame;
     (case type of
       None \<Rightarrow> Some out
     | Some ty \<Rightarrow>
         if ty = kJkFrameTypeCellInfo then do {
           (ok, c, k) \<leftarrow> parse_cell_info frame JkCellInfo_default JkPackInfo_default;
           Some (if ok then out\<lparr>p_telemetry := Some \<lparr>t_cells = c, t_pack = k\<rparr>\<rparr> else out)
         }
         else if ty = kJkFrameTypeDeviceInfo then do {
           (ok, d) \<leftarrow> parse_device_info frame JkDeviceInfo_default;
           Some out
         }
         else if ty = kJkFrameTypeSettings then do {
           (ok, s) \<leftarrow> parse_settings frame JkSettings_default;
           Some (if ok then out\<lparr>p_settings := Some s\<rparr> else out)
         }
         else Some out)
   }"

text \<open>The drain loop: \<open>take_complete_frame\<close> empties the ready slot.\<close>

function jk_drain :: "JkFrameAssembler \<Rightarrow> Parsed \<Rightarrow> (JkFrameAssembler \<times> Parsed) option" where
  "jk_drain s out =
    (case take_complete_frame s of
      (None, s') \<Rightarrow> Some (s', out)
    | (Some frame, s') \<Rightarrow> do { out' \<leftarrow> jk_dispatch frame out; jk_drain s' out' })"
  by pat_completeness auto
termination
  by (relation "measure (\<lambda>(s, out). length (asm_ready s))")
     (auto simp: take_complete_frame_def split: if_splits)

declare jk_drain.simps [simp del]

definition jk_feed :: "JkFrameAssembler \<Rightarrow> bytes \<Rightarrow> (JkFrameAssembler \<times> Parsed) option" where
  "jk_feed s data = jk_drain (push_chunk s data) Parsed_default"

section \<open>The driver is total and keeps its invariant\<close>

lemma jk_dispatch_total: "\<exists>out'. jk_dispatch frame out = Some out'"
proof -
  obtain r1 where "parse_cell_info frame JkCellInfo_default JkPackInfo_default = Some r1"
    using parse_cell_info_total by blast
  moreover obtain r2 where "parse_device_info frame JkDeviceInfo_default = Some r2"
    using parse_device_info_total by blast
  moreover obtain r3 where "parse_settings frame JkSettings_default = Some r3"
    using parse_settings_total by blast
  moreover obtain ty where "jk_response_frame_type frame = Some ty"
    using rd8_in [of 4 frame]
    by (cases "length frame < 300"; cases "starts_with_response_magic frame")
       (simp_all add: jk_response_frame_type_def kJkResponseSize_def)
  ultimately show ?thesis
    by (cases r1; cases r2; cases r3) (auto simp: jk_dispatch_def split: option.split)
qed

lemma jk_drain_eq:
  "jk_drain s out =
    (if asm_ready s = [] then Some (s, out)
     else map_option (\<lambda>out'. (s\<lparr>asm_ready := []\<rparr>, out')) (jk_dispatch (asm_ready s) out))"
proof -
  have "jk_drain (s\<lparr>asm_ready := []\<rparr>) out' = Some (s\<lparr>asm_ready := []\<rparr>, out')" for out'
    by (subst jk_drain.simps) (simp add: take_complete_frame_def)
  then show ?thesis
    using jk_dispatch_total [of "asm_ready s" out]
    by (subst jk_drain.simps) (auto simp: take_complete_frame_def)
qed

lemma jk_feed_eq:
  obtains out where "jk_feed s data = Some ((push_chunk s data)\<lparr>asm_ready := []\<rparr>, out)"
    "out = (if asm_ready (push_chunk s data) = [] then Parsed_default
            else the (jk_dispatch (asm_ready (push_chunk s data)) Parsed_default))"
  using jk_dispatch_total [of "asm_ready (push_chunk s data)" Parsed_default]
  by (auto simp: jk_feed_def jk_drain_eq)

abbreviation jk_inv :: "JkFrameAssembler \<Rightarrow> bool" where
  "jk_inv s \<equiv> assembler_ok s \<and> asm_ready s = []"

text \<open>The driver as the handler sees it.\<close>

interpretation jkp: battery_protocol jk_reset jk_poll_request jk_settings_request
  "\<lambda>s data. the (jk_feed s data)" jk_inv asm_buf "kJkResponseSize - 1"
proof
  fix s :: JkFrameAssembler and data :: bytes
  obtain out where f: "jk_feed s data = Some ((push_chunk s data)\<lparr>asm_ready := []\<rparr>, out)"
    by (rule jk_feed_eq)
  show "jk_inv (fst (the (jk_feed s data)))" if "jk_inv s"
    using that push_chunk_ok [of s data] by (auto simp: f assembler_ok_def)
  show "jk_inv (jk_reset s)" using assembler_reset_ok [of s] by (simp add: jk_reset_def assembler_reset_def)
  show "length (asm_buf s) \<le> kJkResponseSize - 1" if "jk_inv s"
    using that by (auto simp: assembler_ok_def)
  show "asm_buf (jk_reset s) = []" by (simp add: jk_reset_def assembler_reset_def)
qed (simp_all add: jk_poll_request_def jk_settings_request_def)

section \<open>A frame in a chunked stream\<close>

text \<open>The outcomes of the chunks the transport delivers one after the other.\<close>

fun jk_feeds :: "JkFrameAssembler \<Rightarrow> bytes list \<Rightarrow> (JkFrameAssembler \<times> Parsed list) option" where
  "jk_feeds s [] = Some (s, [])"
| "jk_feeds s (c # cs) = do {
     (s', out) \<leftarrow> jk_feed s c;
     (s'', outs) \<leftarrow> jk_feeds s' cs;
     Some (s'', out # outs)
   }"

lemma jk_feed_nothing:
  "asm_ready (push_chunk s data) = [] \<Longrightarrow> jk_feed s data = Some (push_chunk s data, Parsed_default)"
  by (simp add: jk_feed_def jk_drain_eq)

lemma jk_feed_frame:
  assumes "asm_ready (push_chunk s data) = fr" "fr \<noteq> []" "jk_dispatch fr Parsed_default = Some out"
  shows "jk_feed s data = Some ((push_chunk s data)\<lparr>asm_ready := []\<rparr>, out)"
  using assms by (simp add: jk_feed_def jk_drain_eq)

lemma jk_feeds_empties:
  "asm_ready s = [] \<Longrightarrow> concat cs = [] \<Longrightarrow>
   jk_feeds s cs = Some (s, replicate (length cs) Parsed_default)"
  by (induction cs) (simp_all add: jk_feed_nothing)

lemma prefix_not_ready:
  assumes "good_frame fr" "0x55 \<notin> set noise" "asm_buf s = []"
    and "p @ q = noise @ fr" "q \<noteq> []"
  shows "asm_ready (push_chunk s p) = asm_ready s"
proof (cases "length p \<le> length noise")
  case True
  then have "p = take (length p) noise" using assms(4) by (metis append_eq_append_conv_if)
  then have "0x55 \<notin> set p" using assms(2) by (metis in_set_takeD)
  then show ?thesis using assms(3) by (simp add: push_noise)
next
  case False
  let ?n = "length p - length noise"
  have p: "p = noise @ take ?n fr"
    using assms(4) False by (metis append_eq_conv_conj linorder_le_cases take_all_iff take_append)
  have "length p < length noise + length fr"
    using arg_cong [OF assms(4), of length] assms(5) by (cases q) simp_all
  then have "?n < kJkResponseSize"
    using assms(1) False by (simp add: good_frame_def)
  then have "push_chunk s p = s\<lparr>asm_buf := take ?n fr\<rparr>"
    by (subst p) (simp only: push_chunk_append push_noise [OF assms(2,3)] push_frame_prefix [OF assms(1,3)])
  then show ?thesis by simp
qed

lemma jk_feeds_frame:
  assumes "good_frame fr" "0x55 \<notin> set noise" "asm_buf s = []" "asm_ready s = []"
    and "jk_dispatch fr Parsed_default = Some out"
    and "concat cs = noise @ fr"
  shows "\<exists>i j. jk_feeds s cs = Some (s, replicate i Parsed_default @ [out] @ replicate j Parsed_default)"
proof -
  have ne: "fr \<noteq> []" using assms(1) by (auto simp: good_frame_def kJkResponseSize_def)
  have full: "push_chunk s (noise @ fr) = s\<lparr>asm_ready := fr\<rparr>"
    by (simp add: push_chunk_append push_noise push_frame assms)
  have "\<exists>i j. jk_feeds (push_chunk s p) cs =
      Some (s, replicate i Parsed_default @ [out] @ replicate j Parsed_default)"
    if "p @ concat cs = noise @ fr" "asm_ready (push_chunk s p) = []" for p
    using that
  proof (induction cs arbitrary: p)
    case Nil
    then show ?case using full ne by simp
  next
    case (Cons c cs)
    have push: "push_chunk (push_chunk s p) c = push_chunk s (p @ c)" by (simp add: push_chunk_append)
    show ?case
    proof (cases "concat cs = []")
      case True
      then have "p @ c = noise @ fr" using Cons.prems(1) by (simp only: concat.simps append_Nil2)
      then have all: "push_chunk s (p @ c) = s\<lparr>asm_ready := fr\<rparr>" using full by simp
      then have "jk_feed (push_chunk s p) c = Some (s, out)"
        using jk_feed_frame [OF _ ne assms(5)] push assms(4) by simp
      then show ?thesis using jk_feeds_empties [OF assms(4) True]
        by (intro exI [of _ 0] exI [of _ "length cs"]) simp
    next
      case False
      then have none: "asm_ready (push_chunk s (p @ c)) = []"
        using prefix_not_ready [OF assms(1-3), of "p @ c" "concat cs"] Cons.prems assms(4) by simp
      from Cons.IH [of "p @ c"] none Cons.prems obtain i j where
        "jk_feeds (push_chunk s (p @ c)) cs =
           Some (s, replicate i Parsed_default @ [out] @ replicate j Parsed_default)" by auto
      moreover have "jk_feed (push_chunk s p) c = Some (push_chunk s (p @ c), Parsed_default)"
        using none push by (simp add: jk_feed_nothing)
      ultimately show ?thesis by (intro exI [of _ "Suc i"] exI [of _ j]) simp
    qed
  qed
  from this [of "[]"] assms show ?thesis by simp
qed

section \<open>What a frame of each type delivers\<close>

lemma good_frame_type:
  assumes "good_frame fr"
  shows "jk_response_frame_type fr = Some (Some (fr ! 4))"
proof -
  from assms have len: "length fr = 300" and magic: "take 4 fr = kJkResponseMagic"
    by (simp_all add: good_frame_def kJkResponseSize_def)
  have "fr ! k = kJkResponseMagic ! k" if "k < 4" for k
    using that magic nth_take [of k 4 fr] by simp
  then have "starts_with_response_magic fr"
    using len by (simp add: starts_with_response_magic_def)
  then show ?thesis using len by (simp add: jk_response_frame_type_def kJkResponseSize_def rd8_in)
qed

lemma jk_dispatch_cell_info:
  assumes "good_frame fr" "fr ! 4 = kJkFrameTypeCellInfo"
  obtains c k where
    "parse_cell_info fr JkCellInfo_default JkPackInfo_default = Some (True, c, k)"
    "jk_dispatch fr out = Some (out\<lparr>p_telemetry := Some \<lparr>t_cells = c, t_pack = k\<rparr>\<rparr>)"
proof -
  obtain r where r: "parse_cell_info fr JkCellInfo_default JkPackInfo_default = Some r"
    using parse_cell_info_total by blast
  obtain b c k where bck: "r = (b, c, k)" by (cases r)
  have b using accepted_is_true(1) [OF r [unfolded bck]] good_frame_type [OF assms(1)] assms(2) by simp
  then show ?thesis using that [of c k] r bck assms good_frame_type [OF assms(1)]
    by (simp add: jk_dispatch_def)
qed

lemma jk_dispatch_settings:
  assumes "good_frame fr" "fr ! 4 = kJkFrameTypeSettings"
  obtains st where "parse_settings fr JkSettings_default = Some (True, st)"
    "jk_dispatch fr out = Some (out\<lparr>p_settings := Some st\<rparr>)"
proof -
  obtain r where r: "parse_settings fr JkSettings_default = Some r"
    using parse_settings_total by blast
  obtain b st where bst: "r = (b, st)" by (cases r)
  have b using accepted_is_true(3) [OF r [unfolded bst]] good_frame_type [OF assms(1)] assms(2) by simp
  then show ?thesis using that [of st] r bst assms good_frame_type [OF assms(1)]
    by (simp add: jk_dispatch_def kJkFrameTypeSettings_def kJkFrameTypeCellInfo_def
        kJkFrameTypeDeviceInfo_def)
qed

section \<open>Properties\<close>

text \<open>C22: However the transport cuts the bytes of noise (without a start byte) and one valid
  cell-info frame into chunks, exactly one of the calls of \<open>feed\<close> delivers telemetry, it is
  what \<open>parse_cell_info\<close> reads from the frame, and the assembler is empty again afterwards.\<close>

theorem cell_info_delivered_once:
  assumes "good_frame fr" "fr ! 4 = kJkFrameTypeCellInfo" "0x55 \<notin> set noise"
    and "asm_buf s = []" "asm_ready s = []" "concat chunks = noise @ fr"
  shows "\<exists>c k i j. parse_cell_info fr JkCellInfo_default JkPackInfo_default = Some (True, c, k) \<and>
    jk_feeds s chunks = Some (s, replicate i Parsed_default @
      [\<lparr>p_telemetry = Some \<lparr>t_cells = c, t_pack = k\<rparr>, p_settings = None\<rparr>] @
      replicate j Parsed_default)"
proof -
  from jk_dispatch_cell_info [OF assms(1,2), of Parsed_default] obtain c k where
    p: "parse_cell_info fr JkCellInfo_default JkPackInfo_default = Some (True, c, k)"
    and d: "jk_dispatch fr Parsed_default =
      Some \<lparr>p_telemetry = Some \<lparr>t_cells = c, t_pack = k\<rparr>, p_settings = None\<rparr>"
    by (auto simp: Parsed_default_def)
  from jk_feeds_frame [OF assms(1,3,4,5) d assms(6)] p show ?thesis by blast
qed

lemma cell_info_delivered_once_witness:
  "\<exists>out. jk_feeds assembler_init [[0x00, 0x13], take 200 (sample_frame 0x02), drop 200 (sample_frame 0x02)] =
     Some (assembler_init, out)"
proof -
  have "sample_frame 0x02 ! 4 = kJkFrameTypeCellInfo" by code_simp
  from cell_info_delivered_once [OF sample_frame_good(1) this, of "[0x00, 0x13]" assembler_init
      "[[0x00, 0x13], take 200 (sample_frame 0x02), drop 200 (sample_frame 0x02)]"]
  show ?thesis by (auto simp: assembler_init_def)
qed

text \<open>The same for a settings frame.\<close>

theorem settings_delivered_once:
  assumes "good_frame fr" "fr ! 4 = kJkFrameTypeSettings" "0x55 \<notin> set noise"
    and "asm_buf s = []" "asm_ready s = []" "concat chunks = noise @ fr"
  shows "\<exists>st i j. parse_settings fr JkSettings_default = Some (True, st) \<and>
    jk_feeds s chunks = Some (s, replicate i Parsed_default @
      [\<lparr>p_telemetry = None, p_settings = Some st\<rparr>] @ replicate j Parsed_default)"
proof -
  from jk_dispatch_settings [OF assms(1,2), of Parsed_default] obtain st where
    p: "parse_settings fr JkSettings_default = Some (True, st)"
    and d: "jk_dispatch fr Parsed_default = Some \<lparr>p_telemetry = None, p_settings = Some st\<rparr>"
    by (auto simp: Parsed_default_def)
  from jk_feeds_frame [OF assms(1,3,4,5) d assms(6)] p show ?thesis by blast
qed

lemma settings_delivered_once_witness:
  "\<exists>out. jk_feeds assembler_init [take 150 (sample_frame 0x01), drop 150 (sample_frame 0x01)] =
     Some (assembler_init, out)"
proof -
  have "sample_frame 0x01 ! 4 = kJkFrameTypeSettings" by code_simp
  from settings_delivered_once [OF sample_frame_good(2) this, of "[]" assembler_init
      "[take 150 (sample_frame 0x01), drop 150 (sample_frame 0x01)]"]
  show ?thesis by (auto simp: assembler_init_def)
qed

end
