(* ===== verification/Pylontech_Frame.thy ===== *)
theory Pylontech_Frame
  imports Prelude
begin

text \<open>
  The Pylontech RS485 frame layer: \<open>PylontechFrame\<close> (include/pylontech.hpp) and the first
  half of src/pylontech.cpp, that is the hexadecimal helpers, the LENGTH field, the
  checksum, the frame parser \<open>try_parse_pylontech\<close> and the frame builder
  \<open>build_pylontech\<close>.

  The parser is the one place where bytes from the wire are interpreted.  Its return value
  is the C++ \<open>int\<close> (an \<open>int\<close> here; the buffers that reach it are shorter than
  \<open>2^31\<close>) together with the frame it was given to fill.
\<close>

section \<open>Frames and constants\<close>

record PylontechFrame =
  f_ver :: u8
  f_adr :: u8
  f_cid1 :: u8
  f_cid2 :: u8
  f_info :: bytes

definition default_frame :: PylontechFrame where
  "default_frame = \<lparr>f_ver = 0x20, f_adr = 0, f_cid1 = 0x46, f_cid2 = 0, f_info = []\<rparr>"

definition kSOI :: u8 where "kSOI = 0x7E"
definition kEOI :: u8 where "kEOI = 0x0D"
definition kMinBodyLen :: nat where "kMinBodyLen = 16"
definition kMaxFrameLen :: nat where "kMaxFrameLen = 4096"

section \<open>Hexadecimal helpers\<close>

definition hex_char :: "u8 \<Rightarrow> u8" where
  "hex_char v = (if v < 10 then 0x30 + v else 0x41 + (v - 10))"

definition hex_val :: "u8 \<Rightarrow> int" where
  "hex_val c =
     (if 0x30 \<le> c \<and> c \<le> 0x39 then uint c - 0x30
      else if 0x41 \<le> c \<and> c \<le> 0x46 then uint c - 0x41 + 10
      else if 0x61 \<le> c \<and> c \<le> 0x66 then uint c - 0x61 + 10
      else -1)"

definition put_hex8 :: "bytes \<Rightarrow> u8 \<Rightarrow> bytes" where
  "put_hex8 out v = out @ [hex_char (drop_bit 4 v)] @ [hex_char (v AND 0xF)]"

definition put_hex16_be :: "bytes \<Rightarrow> u16 \<Rightarrow> bytes" where
  "put_hex16_be out v = put_hex8 (put_hex8 out (hi8 v)) (lo8 v)"

section \<open>LENGTH field and checksum\<close>

definition length_field :: "u16 \<Rightarrow> u16" where
  "length_field lenid =
     (let s = (ucast ((drop_bit 8 lenid AND 0xF) + (drop_bit 4 lenid AND 0xF) + (lenid AND 0xF)) :: u8);
          lchksum = (NOT s + 1) AND 0xF
      in push_bit 12 (ucast lchksum) OR (lenid AND 0x0FFF))"

definition chksum_over :: "bytes \<Rightarrow> u16" where
  "chksum_over p = NOT (ucast (foldl (\<lambda>sum b. sum + ucast b) (0 :: u32) p)) + 1"

section \<open>The parser\<close>

text \<open>
  The lambda \<open>decode_byte\<close>.  The outer \<open>None\<close> is a read outside the buffer, the inner one
  the \<open>false\<close> it returns when one of the two characters is no hexadecimal digit.
\<close>

definition decode_byte :: "bytes \<Rightarrow> nat \<Rightarrow> int option option" where
  "decode_byte buf pair_idx = do {
     hi \<leftarrow> map_option hex_val (rd8 buf (1 + pair_idx * 2));
     lo \<leftarrow> map_option hex_val (rd8 buf (1 + pair_idx * 2 + 1));
     Some (if hi < 0 \<or> lo < 0 then None else Some (push_bit 4 hi OR lo))
   }"

text \<open>
  A sequence of \<open>decode_byte\<close> calls that stops at the first failure, as the chains of
  \<open>||\<close> and the INFO loop do: the values decoded so far, and whether all succeeded.
\<close>

fun decode_seq :: "bytes \<Rightarrow> nat list \<Rightarrow> (int list \<times> bool) option" where
  "decode_seq buf [] = Some ([], True)"
| "decode_seq buf (k # ks) =
     (case decode_byte buf k of
        None \<Rightarrow> None
      | Some None \<Rightarrow> Some ([], False)
      | Some (Some v) \<Rightarrow>
          (case decode_seq buf ks of
             None \<Rightarrow> None
           | Some (vs, ok) \<Rightarrow> Some (v # vs, ok)))"

text \<open>
  The part of the function after the delimiters are found and the length of the body is
  checked: from the first \<open>decode_byte\<close> call to the last \<open>return\<close>.
\<close>

definition parse_body :: "bytes \<Rightarrow> nat \<Rightarrow> PylontechFrame \<Rightarrow> (int \<times> PylontechFrame) option" where
  "parse_body buf eoi out = do {
     let body_len = eoi - 1;
     (h, ok) \<leftarrow> decode_seq buf [0, 1, 2, 3, 4, 5];
     if \<not> ok then Some (- int (eoi + 1), out)
     else do {
       let info_chars = body_len - kMinBodyLen;
       let info_bytes = info_chars div 2;
       let cs_pair_idx = 6 + info_bytes;
       (cs, ok) \<leftarrow> decode_seq buf [cs_pair_idx, cs_pair_idx + 1];
       if \<not> ok then Some (- int (eoi + 1), out)
       else do {
         covered \<leftarrow> rd_block buf 1 (body_len - 4);
         let expected = chksum_over covered;
         let actual = (word_of_int (push_bit 8 (cs ! 0) OR cs ! 1) :: u16);
         if expected \<noteq> actual then Some (- int (eoi + 1), out)
         else do {
           (bs, ok) \<leftarrow> decode_seq buf (map (\<lambda>i. 6 + i) [0..<info_bytes]);
           let out = out\<lparr>f_ver := word_of_int (h ! 0), f_adr := word_of_int (h ! 1),
                         f_cid1 := word_of_int (h ! 2), f_cid2 := word_of_int (h ! 3),
                         f_info := map word_of_int bs\<rparr>;
           if \<not> ok then Some (- int (eoi + 1), out)
           else Some (int (eoi + 1), out)
         }
       }
     }
   }"

definition try_parse_pylontech :: "bytes \<Rightarrow> PylontechFrame \<Rightarrow> (int \<times> PylontechFrame) option" where
  "try_parse_pylontech buf out =
    (let len = length buf in
     if len = 0 then Some (0, out)
     else let soi = scan_for kSOI buf 0 in
     if soi = len then Some (- int len, out)
     else if soi > 0 then Some (- int soi, out)
     else let eoi = scan_for kEOI buf 1 in
     if eoi = len then (if len > kMaxFrameLen then Some (-1, out) else Some (0, out))
     else let body_len = eoi - 1 in
     if body_len < kMinBodyLen \<or> body_len mod 2 \<noteq> 0 then Some (- int (eoi + 1), out)
     else parse_body buf eoi out)"

section \<open>The builder\<close>

definition build_pylontech :: "PylontechFrame \<Rightarrow> bytes" where
  "build_pylontech f =
    (let body = put_hex8 [] (f_ver f);
         body = put_hex8 body (f_adr f);
         body = put_hex8 body (f_cid1 f);
         body = put_hex8 body (f_cid2 f);
         lenid = (word_of_nat (length (f_info f) * 2) :: u16);
         body = put_hex16_be body (length_field lenid);
         body = foldl put_hex8 body (f_info f);
         cs = chksum_over body;
         out = [kSOI];
         out = out @ body;
         out = put_hex16_be out cs
     in out @ [kEOI])"

section \<open>Hexadecimal text\<close>

text \<open>The two characters of a byte, and a byte sequence as text.\<close>

definition hex2 :: "u8 \<Rightarrow> bytes" where
  "hex2 v = [hex_char (drop_bit 4 v), hex_char (v AND 0xF)]"

definition hex_text :: "bytes \<Rightarrow> bytes" where
  "hex_text xs = concat (map hex2 xs)"

lemma put_hex8_eq [wire_simps]: "put_hex8 out v = out @ hex_text [v]"
  by (simp add: put_hex8_def hex_text_def hex2_def)

lemma hex_text_append: "hex_text (xs @ ys) = hex_text xs @ hex_text ys"
  by (simp add: hex_text_def)

lemma hex_text_Nil [simp]: "hex_text [] = []"
  by (simp add: hex_text_def)

lemma length_hex_text [simp]: "length (hex_text xs) = 2 * length xs"
  by (induction xs) (simp_all add: hex_text_def hex2_def)

lemma put_hex16_be_eq [wire_simps]: "put_hex16_be out v = out @ hex_text [hi8 v, lo8 v]"
  by (simp add: put_hex16_be_def put_hex8_eq hex_text_def)

lemma foldl_put_hex8 [wire_simps]: "foldl put_hex8 out xs = out @ hex_text xs"
  by (induction xs arbitrary: out) (simp_all add: put_hex8_eq hex_text_def)

lemma nibble_bounds: "drop_bit 4 (v :: u8) < 16" "v AND 0xF < (16 :: u8)"
proof -
  have "uint v < 256" using uint_lt2p [of v] by simp
  then show "drop_bit 4 v < 16"
    by (simp add: word_less_def drop_bit_eq_div uint_div_distrib)
  show "v AND 0xF < 16"
    using word_and_le1 [of v "0xF"] by (auto simp: word_less_def word_le_def)
qed

lemma hex_val_char: "v < 16 \<Longrightarrow> hex_val (hex_char v) = uint v"
  by (auto simp: hex_val_def hex_char_def word_le_def word_less_def uint_word_ariths)

lemma hex_char_range: "v < 16 \<Longrightarrow> 0x30 \<le> hex_char v \<and> hex_char v \<le> 0x46"
  by (auto simp: hex_char_def word_le_def word_less_def uint_word_ariths)

lemma hex_val_range: "hex_val c \<in> {-1..15}"
  by (auto simp: hex_val_def word_le_def)

lemma nibbles_join: "push_bit 4 (uint (drop_bit 4 (v :: u8))) OR uint (v AND 0xF) = uint v"
proof (rule bit_eqI)
  fix n
  show "bit (push_bit 4 (uint (drop_bit 4 v)) OR uint (v AND 0xF)) n = bit (uint v) n"
    by (cases "n < 4") (auto simp: bit_simps bit_15_int dest: bit_imp_le_length)
qed

lemma hex_text_no_delim: "kEOI \<notin> set (hex_text xs)" "kSOI \<notin> set (hex_text xs)"
proof -
  have *: "0x30 \<le> c \<and> c \<le> 0x46" if "c \<in> set (hex_text xs)" for c
    using that hex_char_range nibble_bounds by (auto simp: hex_text_def hex2_def)
  from * [of kEOI] show "kEOI \<notin> set (hex_text xs)" by (auto simp: kEOI_def)
  from * [of kSOI] show "kSOI \<notin> set (hex_text xs)" by (auto simp: kSOI_def)
qed


section \<open>Decoding hexadecimal text\<close>

lemma nth_hex_text:
  "k < length xs \<Longrightarrow> hex_text xs ! (2 * k) = hex_char (drop_bit 4 (xs ! k))"
  "k < length xs \<Longrightarrow> hex_text xs ! Suc (2 * k) = hex_char (xs ! k AND 0xF)"
proof -
  have "k < length xs \<Longrightarrow> hex_text xs ! (2 * k) = hex_char (drop_bit 4 (xs ! k)) \<and>
      hex_text xs ! Suc (2 * k) = hex_char (xs ! k AND 0xF)"
  proof (induction xs arbitrary: k)
    case Nil
    then show ?case by simp
  next
    case (Cons x xs)
    show ?case
    proof (cases k)
      case 0
      then show ?thesis by (simp add: hex_text_def hex2_def)
    next
      case (Suc j)
      with Cons have "hex_text xs ! (2 * j) = hex_char (drop_bit 4 (xs ! j)) \<and>
          hex_text xs ! Suc (2 * j) = hex_char (xs ! j AND 0xF)" by simp
      with Suc show ?thesis by (simp add: hex_text_def hex2_def)
    qed
  qed
  then show "k < length xs \<Longrightarrow> hex_text xs ! (2 * k) = hex_char (drop_bit 4 (xs ! k))"
    and "k < length xs \<Longrightarrow> hex_text xs ! Suc (2 * k) = hex_char (xs ! k AND 0xF)"
    by blast+
qed

lemma decode_byte_hex_text:
  assumes "length pre = 2 * m" and "k < length xs"
  shows "decode_byte (c # pre @ hex_text xs @ post) (m + k) = Some (Some (uint (xs ! k)))"
proof -
  have "rd8 (c # pre @ hex_text xs @ post) (1 + (m + k) * 2) = Some (hex_char (drop_bit 4 (xs ! k)))"
    and "rd8 (c # pre @ hex_text xs @ post) (1 + (m + k) * 2 + 1) = Some (hex_char (xs ! k AND 0xF))"
    using assms nth_hex_text [OF assms(2)]
    by (auto simp: rd8_def nth_append algebra_simps)
  then show ?thesis
    using nibble_bounds [of "xs ! k"]
    by (simp add: decode_byte_def hex_val_char nibbles_join not_less)
qed

lemma decode_seq_hex_text:
  assumes "\<forall>k \<in> set ks. k < length xs"
  shows "decode_seq (c # hex_text xs @ post) ks = Some (map (\<lambda>k. uint (xs ! k)) ks, True)"
proof -
  have "k < length xs \<Longrightarrow> decode_byte (c # hex_text xs @ post) k = Some (Some (uint (xs ! k)))" for k
    using decode_byte_hex_text [of "[]" 0 k xs c post] by simp
  with assms show ?thesis by (induction ks) simp_all
qed

text \<open>In a buffer that is long enough no read leaves it, whatever its bytes are.\<close>

lemma decode_byte_safe: "2 * k + 2 < length buf \<Longrightarrow> decode_byte buf k \<noteq> None"
  by (simp add: decode_byte_def safe_read mult.commute)

lemma decode_seq_safe:
  "\<forall>k \<in> set ks. 2 * k + 2 < length buf \<Longrightarrow> decode_seq buf ks \<noteq> None"
proof (induction ks)
  case Nil
  then show ?case by simp
next
  case (Cons k ks)
  then have "decode_byte buf k \<noteq> None" and "decode_seq buf ks \<noteq> None"
    by (simp_all add: decode_byte_safe)
  then show ?case by (auto split: option.splits)
qed

lemma decode_seq_length: "decode_seq buf ks = Some (vs, True) \<Longrightarrow> length vs = length ks"
  by (induction ks arbitrary: vs) (auto split: option.splits)

section \<open>The shape of a built frame\<close>

definition frame_bytes :: "PylontechFrame \<Rightarrow> bytes" where
  "frame_bytes f =
     [f_ver f, f_adr f, f_cid1 f, f_cid2 f,
      hi8 (length_field (word_of_nat (length (f_info f) * 2))),
      lo8 (length_field (word_of_nat (length (f_info f) * 2)))] @ f_info f"

definition frame_chksum :: "PylontechFrame \<Rightarrow> u16" where
  "frame_chksum f = chksum_over (hex_text (frame_bytes f))"

lemma length_frame_bytes [simp]: "length (frame_bytes f) = 6 + length (f_info f)"
  by (simp add: frame_bytes_def)

lemma build_pylontech_eq:
  "build_pylontech f =
     kSOI # hex_text (frame_bytes f @ [hi8 (frame_chksum f), lo8 (frame_chksum f)]) @ [kEOI]"
  by (simp add: build_pylontech_def Let_def wire_simps frame_bytes_def frame_chksum_def
      hex_text_def)

lemma length_build_pylontech: "length (build_pylontech f) = 18 + 2 * length (f_info f)"
  by (simp add: build_pylontech_eq frame_bytes_def)

lemma build_pylontech_nonempty: "build_pylontech f \<noteq> []"
  by (simp add: build_pylontech_eq)

text \<open>A delimited text: the parser finds the delimiters of \<open>SOI, b, EOI\<close>.\<close>

lemma delimited_scan:
  assumes "kEOI \<notin> set b"
  shows "scan_for kSOI (kSOI # b @ kEOI # rest) 0 = 0"
    and "scan_for kEOI (kSOI # b @ kEOI # rest) 1 = Suc (length b)"
  using assms by (subst scan_for.simps, simp, rule scan_for_append)


section \<open>Arithmetic of the checksum\<close>

text \<open>The checksum is the two's complement of the 16-bit sum of the characters.\<close>

definition sum16 :: "bytes \<Rightarrow> u16" where
  "sum16 p = (\<Sum>b \<leftarrow> p. ucast b)"

lemma ucast_sum_step: "(ucast (a + ucast (b :: u8) :: u32) :: u16) = ucast a + ucast b"
proof -
  have "(ucast (a + ucast b :: u32) :: u16) = word_of_int ((uint a + uint b) mod 2 ^ 32)"
    by (simp only: ucast_eq uint_word_ariths) (simp add: uint_up_ucast is_up)
  also have "\<dots> = word_of_int (uint a + uint b)"
    by (simp only: word_of_int_eq_iff take_bit_eq_mod) (simp add: mod_mod_cancel)
  also have "\<dots> = word_of_int (uint a) + word_of_int (uint b)"
    by (simp only: wi_hom_add)
  finally show ?thesis by (simp only: ucast_eq)
qed

lemma ucast_foldl_sum:
  "(ucast (foldl (\<lambda>s b. s + ucast b) (a :: u32) p) :: u16) = ucast a + sum16 p"
  by (induction p arbitrary: a) (simp_all add: sum16_def ucast_sum_step add.assoc)

lemma chksum_over_eq: "chksum_over p = - sum16 p"
  by (simp add: chksum_over_def ucast_foldl_sum minus_eq_not_plus_1)

lemma sum16_append: "sum16 (p @ q) = sum16 p + sum16 q"
  by (simp add: sum16_def)

lemma ucast_u8_inj: "(ucast (a :: u8) :: u16) = ucast b \<longleftrightarrow> a = b"
proof
  assume "(ucast a :: u16) = ucast b"
  then have "uint (ucast a :: u16) = uint (ucast b :: u16)" by simp
  then show "a = b" by (simp add: uint_up_ucast is_up word_uint_eq_iff)
qed simp

lemma sum16_list_update:
  assumes "i < length p" and "c \<noteq> p ! i"
  shows "sum16 (p[i := c]) \<noteq> sum16 p"
proof -
  have "sum16 (p[i := c]) = sum16 (take i p) + ucast c + sum16 (drop (Suc i) p)"
    using assms by (simp add: upd_conv_take_nth_drop sum16_def add.assoc)
  moreover have "sum16 p = sum16 (take i p) + ucast (p ! i) + sum16 (drop (Suc i) p)"
    using assms(1) by (subst id_take_nth_drop [OF assms(1)]) (simp add: sum16_def add.assoc)
  ultimately show ?thesis using assms(2) by (simp add: ucast_u8_inj)
qed


section \<open>The parser on delimited text\<close>

text \<open>
  What the parser does with a buffer that starts with \<open>SOI, b, EOI\<close>, where \<open>b\<close> is the
  text between the delimiters, for every outcome after the delimiters are found.
\<close>

lemma try_parse_delimited:
  assumes "kEOI \<notin> set b" and "16 \<le> length b" and "even (length b)"
  shows "try_parse_pylontech (kSOI # b @ kEOI # rest) out =
         parse_body (kSOI # b @ kEOI # rest) (Suc (length b)) out"
proof -
  have "Suc (length b) \<noteq> length (kSOI # b @ kEOI # rest)" by simp
  then show ?thesis
    using assms delimited_scan [OF assms(1), of rest]
    by (simp add: try_parse_pylontech_def Let_def kMinBodyLen_def even_iff_mod_2_eq_zero)
qed

text \<open>
  Fields of a frame whose text \<open>b\<close> has the length of a built one and is followed by the
  checksum \<open>cs\<close>: what is left to decide is the header, the sum of \<open>b\<close> and the INFO field.
\<close>

lemma parse_body_chksum:
  assumes "length b = 12 + 2 * n"
  shows "parse_body (kSOI # b @ hex_text [hi8 cs, lo8 cs] @ post) (length b + 5) out =
         (let buf = kSOI # b @ hex_text [hi8 cs, lo8 cs] @ post; bad = - int (length b + 6) in
          do {
            (h, ok) \<leftarrow> decode_seq buf [0,1,2,3,4,5];
            if \<not> ok \<or> chksum_over b \<noteq> cs then Some (bad, out)
            else do {
              (bs, ok) \<leftarrow> decode_seq buf (map (\<lambda>i. 6 + i) [0..<n]);
              let out = out\<lparr>f_ver := word_of_int (h ! 0), f_adr := word_of_int (h ! 1),
                            f_cid1 := word_of_int (h ! 2), f_cid2 := word_of_int (h ! 3),
                            f_info := map word_of_int bs\<rparr>;
              Some (if ok then - bad else bad, out)
            }
          })"
proof -
  let ?buf = "kSOI # b @ hex_text [hi8 cs, lo8 cs] @ post"
  have "decode_byte ?buf (6 + n + k) = Some (Some (uint ([hi8 cs, lo8 cs] ! k)))" if "k < 2" for k
    using decode_byte_hex_text [of b "6 + n" k "[hi8 cs, lo8 cs]" kSOI post] that assms by simp
  from this [of 0] this [of 1]
  have cs: "decode_seq ?buf [6 + n, 6 + n + 1] = Some ([uint (hi8 cs), uint (lo8 cs)], True)"
    by simp
  have join: "(word_of_int (push_bit 8 (uint (hi8 cs)) OR uint (lo8 cs)) :: u16) = cs"
    by (rule bit_word_eqI) (auto simp: bit_simps bit_255_int)
  have blk: "rd_block ?buf 1 (length b + 5 - 1 - 4) = Some b"
    by (simp add: rd_block_def)
  have n: "(length b + 5 - 1 - kMinBodyLen) div 2 = n"
    using assms by (simp add: kMinBodyLen_def)
  have six: "length b + 5 + 1 = length b + 6" by simp
  show ?thesis
    unfolding parse_body_def Let_def n blk six cs
    by (cases "decode_seq ?buf [0,1,2,3,4,5]"; cases "decode_seq ?buf (map (\<lambda>i. 6 + i) [0..<n])")
      (auto simp: join simp del: decode_seq.simps)
qed


section \<open>Round trip, error detection, safety\<close>

lemma parse_frame_text:
  assumes "length b = 12 + 2 * n" and "kEOI \<notin> set b"
  shows "try_parse_pylontech (kSOI # b @ hex_text [hi8 cs, lo8 cs] @ kEOI # rest) out =
         parse_body (kSOI # b @ hex_text [hi8 cs, lo8 cs] @ kEOI # rest) (length b + 5) out"
proof -
  let ?t = "b @ hex_text [hi8 cs, lo8 cs]"
  have n: "Suc (length ?t) = length b + 5" by simp
  have "kEOI \<notin> set ?t" "16 \<le> length ?t" "even (length ?t)"
    using assms hex_text_no_delim(1) [of "[hi8 cs, lo8 cs]"] by auto
  from try_parse_delimited [OF this, of rest out] show ?thesis
    unfolding n by simp
qed

lemma length_frame_text: "length (hex_text (frame_bytes f)) = 12 + 2 * length (f_info f)"
  by (simp add: frame_bytes_def)

text \<open>Parsing what the builder built, followed by any other bytes.\<close>

lemma parse_build:
  "try_parse_pylontech (build_pylontech f @ rest) out = Some (int (length (build_pylontech f)), f)"
proof -
  let ?b = "hex_text (frame_bytes f)" and ?cs = "frame_chksum f"
  let ?buf = "kSOI # ?b @ hex_text [hi8 ?cs, lo8 ?cs] @ kEOI # rest"
  have buf: "build_pylontech f @ rest = ?buf"
    by (simp add: build_pylontech_eq hex_text_append)
  have head: "decode_seq ?buf [0,1,2,3,4,5] =
      Some (map (\<lambda>k. uint (frame_bytes f ! k)) [0,1,2,3,4,5], True)"
    by (rule decode_seq_hex_text) (auto simp: frame_bytes_def)
  have info: "decode_seq ?buf (map (\<lambda>i. 6 + i) [0..<length (f_info f)]) =
      Some (map (\<lambda>k. uint (frame_bytes f ! k)) (map (\<lambda>i. 6 + i) [0..<length (f_info f)]), True)"
    by (rule decode_seq_hex_text) (auto simp: frame_bytes_def)
  have vals: "map (word_of_int \<circ> ((\<lambda>k. uint (frame_bytes f ! k)) \<circ> (+) 6)) [0..<length (f_info f)] = f_info f"
    by (rule nth_equalityI) (auto simp: frame_bytes_def)
  have hdr: "frame_bytes f ! 0 = f_ver f" "frame_bytes f ! Suc 0 = f_adr f"
    "frame_bytes f ! 2 = f_cid1 f" "frame_bytes f ! 3 = f_cid2 f"
    by (simp_all add: frame_bytes_def)
  show ?thesis
    unfolding buf parse_frame_text [OF length_frame_text hex_text_no_delim(1)]
      parse_body_chksum [OF length_frame_text] Let_def head info
    by (simp add: vals hdr frame_chksum_def length_build_pylontech length_frame_text)
qed

text \<open>
  One damaged character.  Whatever the changed character is, short of a premature end
  mark, the frame is discarded as a whole.
\<close>

text \<open>C3: A frame in which one character of the header or the payload was changed (to anything
  but an end mark) is discarded as a whole: the checksum of the parser catches it, and the
  target frame is left alone.\<close>

theorem damage_is_detected:
  assumes "i < 12 + 2 * length (f_info f)" and "c \<noteq> build_pylontech f ! Suc i" and "c \<noteq> kEOI"
  shows "try_parse_pylontech ((build_pylontech f)[Suc i := c] @ rest) out =
         Some (- int (length (build_pylontech f)), out)"
proof -
  let ?t = "hex_text (frame_bytes f)" and ?cs = "frame_chksum f"
  let ?b = "?t[i := c]"
  let ?buf = "kSOI # ?b @ hex_text [hi8 ?cs, lo8 ?cs] @ kEOI # rest"
  have i: "i < length ?t" unfolding length_frame_text by (rule assms(1))
  have old: "build_pylontech f ! Suc i = ?t ! i"
    using i by (simp add: build_pylontech_eq hex_text_append nth_append)
  have buf: "(build_pylontech f)[Suc i := c] @ rest = ?buf"
    using i by (simp add: build_pylontech_eq hex_text_append list_update_append1)
  have noeoi: "kEOI \<notin> set ?b"
    using hex_text_no_delim(1) [of "frame_bytes f"] assms(3) set_update_subset_insert [of ?t i c]
    by auto
  have sum: "chksum_over ?b \<noteq> ?cs"
    using sum16_list_update [OF i] assms(2) old
    by (simp add: frame_chksum_def chksum_over_eq)
  have len: "length ?b = 12 + 2 * length (f_info f)"
    unfolding length_list_update by (rule length_frame_text)
  have safe: "decode_seq ?buf [0,1,2,3,4,5] \<noteq> None"
    by (rule decode_seq_safe) (auto simp: frame_bytes_def)
  have n: "int (length ?b + 6) = int (length (build_pylontech f))"
    by (simp add: length_build_pylontech frame_bytes_def)
  show ?thesis
    unfolding buf parse_frame_text [OF len noeoi] parse_body_chksum [OF len] Let_def n
    using safe sum by (auto simp del: decode_seq.simps)
qed


section \<open>Memory safety and progress\<close>

lemma parse_body_safe:
  assumes "eoi < length buf" and "kMinBodyLen \<le> eoi - 1"
  shows "parse_body buf eoi out \<noteq> None"
proof -
  have n: "(eoi - 1 - kMinBodyLen) div 2 * 2 \<le> eoi - 17" and eoi: "17 \<le> eoi"
    using assms(2) by (auto simp: kMinBodyLen_def)
  have "decode_seq buf [0,1,2,3,4,5] \<noteq> None"
    using assms eoi by (intro decode_seq_safe) auto
  moreover have "decode_seq buf [6 + (eoi - 1 - kMinBodyLen) div 2, 6 + (eoi - 1 - kMinBodyLen) div 2 + 1] \<noteq> None"
    using assms(1) n eoi by (intro decode_seq_safe) auto
  moreover have "decode_seq buf (map (\<lambda>i. 6 + i) [0..<(eoi - 1 - kMinBodyLen) div 2]) \<noteq> None"
    using assms(1) n eoi by (intro decode_seq_safe) auto
  moreover have "rd_block buf 1 (eoi - 1 - 4) \<noteq> None"
    using assms(1) eoi by (simp add: rd_block_def)
  ultimately show ?thesis
    by (auto simp: parse_body_def Let_def simp del: decode_seq.simps)
qed

lemma try_parse_no_overread: "try_parse_pylontech buf out \<noteq> None"
proof (cases "buf = []")
  case True
  then show ?thesis by (simp add: try_parse_pylontech_def)
next
  case False
  then have "1 \<le> length buf" by (cases buf) auto
  then have "scan_for kEOI buf 1 \<le> length buf" by (rule scan_for_le)
  then show ?thesis
    using parse_body_safe [of "scan_for kEOI buf 1" buf out]
    by (auto simp: try_parse_pylontech_def Let_def not_less le_less)
qed

lemma parse_body_result:
  assumes "parse_body buf eoi out = Some (n, f)"
  shows "n = int (eoi + 1) \<and> length (f_info f) = (eoi - 1 - kMinBodyLen) div 2 \<or> n = - int (eoi + 1)"
  using assms
  by (auto simp: parse_body_def Let_def bind_eq_Some_conv dest: decode_seq_length
      simp del: decode_seq.simps split: if_splits)

text \<open>A frame with a start mark inside is never accepted.\<close>

lemma decode_seq_ok:
  "decode_seq buf ks = Some (vs, True) \<Longrightarrow> k \<in> set ks \<Longrightarrow> \<exists>v. decode_byte buf k = Some (Some v)"
  by (induction ks arbitrary: vs) (auto split: option.splits)

lemma decode_byte_no_soi:
  assumes "decode_byte buf k = Some (Some v)" "i = 1 + k * 2 \<or> i = 1 + k * 2 + 1"
  shows "buf ! i \<noteq> kSOI"
proof -
  have "hex_val kSOI < 0" by (simp add: hex_val_def kSOI_def)
  then show ?thesis
    using assms by (auto simp: decode_byte_def bind_eq_Some_conv rd8_def split: if_splits)
qed

lemma parse_body_no_soi:
  assumes "parse_body buf eoi out = Some (n, f)" "0 < n" "even (eoi - 1)" "kMinBodyLen \<le> eoi - 1"
    and "1 \<le> i" "i < eoi"
  shows "buf ! i \<noteq> kSOI"
proof -
  define m where "m = (eoi - 1 - kMinBodyLen) div 2"
  have eoi: "eoi = 17 + 2 * m" using assms(3,4) by (auto simp: m_def kMinBodyLen_def elim!: evenE)
  have "\<exists>vs. decode_seq buf [0, 1, 2, 3, 4, 5] = Some (vs, True)"
    "\<exists>vs. decode_seq buf [6 + m, 6 + m + 1] = Some (vs, True)"
    "\<exists>vs. decode_seq buf (map (\<lambda>i. 6 + i) [0..<m]) = Some (vs, True)"
    using assms(1,2) unfolding m_def
    by (auto simp: parse_body_def Let_def bind_eq_Some_conv
        simp del: decode_seq.simps split: if_splits)
  then have d: "\<exists>v. decode_byte buf k = Some (Some v)"
    if "k \<in> set [0, 1, 2, 3, 4, 5] \<or> k \<in> set [6 + m, 6 + m + 1] \<or> k \<in> set (map (\<lambda>i. 6 + i) [0..<m])" for k
    using that decode_seq_ok by metis
  have "(i - 1) div 2 \<le> 7 + m" using assms(5,6) eoi by simp
  then have "(i - 1) div 2 \<in> {0, 1, 2, 3, 4, 5} \<or> (i - 1) div 2 \<in> {6 + m, 6 + m + 1} \<or>
      (i - 1) div 2 \<in> (\<lambda>i. 6 + i) ` {0..<m}"
    by (auto simp: image_iff)
  then obtain v where "decode_byte buf ((i - 1) div 2) = Some (Some v)" using d [of "(i - 1) div 2"] by auto
  moreover have "i = 1 + (i - 1) div 2 * 2 \<or> i = 1 + (i - 1) div 2 * 2 + 1" using assms(5) by presburger
  ultimately show ?thesis by (rule decode_byte_no_soi)
qed

text \<open>The buffer in the terms of its delimiters.\<close>

lemma try_parse_cases:
  assumes "try_parse_pylontech buf out = Some (n, f)"
  obtains (empty) "buf = []" "n = 0"
  | (no_soi) "buf \<noteq> []" "kSOI \<notin> set buf" "n = - int (length buf)"
  | (junk) k where "0 < k" "k < length buf" "buf ! k = kSOI" "\<forall>j<k. buf ! j \<noteq> kSOI" "n = - int k" "f = out"
  | (incomplete) t where "buf = kSOI # t" "kEOI \<notin> set t" "length buf \<le> kMaxFrameLen" "n = 0"
  | (too_long) t where "buf = kSOI # t" "kEOI \<notin> set t" "kMaxFrameLen < length buf" "n = -1"
  | (malformed) b rest where "buf = kSOI # b @ kEOI # rest" "kEOI \<notin> set b"
      "length b < 16 \<or> odd (length b)" "n = - int (length b + 2)"
  | (framed) b rest where "buf = kSOI # b @ kEOI # rest" "kEOI \<notin> set b"
      "16 \<le> length b" "even (length b)" "parse_body buf (Suc (length b)) out = Some (n, f)"
proof -
  consider "buf = []" | "buf \<noteq> []" "scan_for kSOI buf 0 = length buf"
    | "buf \<noteq> []" "scan_for kSOI buf 0 < length buf" "0 < scan_for kSOI buf 0"
    | "buf \<noteq> []" "scan_for kSOI buf 0 = 0"
    using scan_for_le [of 0 buf kSOI] by force
  then show thesis
  proof cases
    case 1
    then show thesis using assms by (intro empty) (auto simp: try_parse_pylontech_def)
  next
    case 2
    moreover have "kSOI \<notin> set buf" using 2 scan_for_miss_iff [of 0 buf kSOI] by simp
    ultimately show thesis using assms by (intro no_soi) (auto simp: try_parse_pylontech_def)
  next
    case 3
    then show thesis
      using assms scan_for_hit [of 0 buf kSOI] scan_for_before [of 0 _ kSOI buf]
      by (intro junk [of "scan_for kSOI buf 0"]) (auto simp: try_parse_pylontech_def Let_def)
  next
    case 4
    then have "0 < length buf" by simp
    with 4 have "buf ! 0 = kSOI" using scan_for_hit [of 0 buf kSOI] by simp
    with 4 obtain t where t: "buf = kSOI # t" by (cases buf) auto
    show thesis
    proof (cases "kEOI \<in> set t")
      case False
      then have "scan_for kEOI buf 1 = length buf"
        using scan_for_miss_iff [of 1 buf kEOI] t by simp
      then show thesis
        using assms False t 4 incomplete [of t] too_long [of t]
        by (auto simp: try_parse_pylontech_def Let_def split: if_splits)
    next
      case True
      then obtain b rest where b: "t = b @ kEOI # rest" "kEOI \<notin> set b"
        by (meson split_list_first)
      then have eoi: "scan_for kEOI buf 1 = Suc (length b)" "Suc (length b) \<noteq> length buf"
        using delimited_scan(2) [of b rest] t by simp_all
      show thesis
      proof (cases "length b < 16 \<or> odd (length b)")
        case True
        then show thesis
          using assms b t eoi 4
          by (intro malformed [of b rest])
            (auto simp: try_parse_pylontech_def Let_def kMinBodyLen_def odd_iff_mod_2_eq_one)
      next
        case False
        then show thesis
          using try_parse_delimited [of b rest out] assms b t by (intro framed [of b rest]) auto
      qed
    qed
  qed
qed

lemma try_parse_progress:
  assumes "try_parse_pylontech buf out = Some (n, f)" and "n \<noteq> 0"
  shows "1 \<le> \<bar>n\<bar> \<and> \<bar>n\<bar> \<le> int (length buf)"
  using assms(1)
proof (cases rule: try_parse_cases)
  case (framed b rest)
  from parse_body_result [OF this(5)] framed(1) show ?thesis by auto
qed (use assms(2) in \<open>auto simp: Suc_le_eq\<close>)

text \<open>\<open>0\<close>, the request for more bytes, is returned for an unfinished frame only.\<close>

lemma try_parse_zero:
  assumes "try_parse_pylontech buf out = Some (0, f)"
  shows "buf = [] \<or> (\<exists>t. buf = kSOI # t \<and> kEOI \<notin> set t \<and> length buf \<le> kMaxFrameLen)"
  using assms
proof (cases rule: try_parse_cases)
  case (framed b rest)
  from parse_body_result [OF this(5)] show ?thesis by auto
qed auto

lemma try_parse_incomplete:
  assumes "kEOI \<notin> set t" and "length t < kMaxFrameLen"
  shows "try_parse_pylontech (kSOI # t) out = Some (0, out)"
proof -
  have "scan_for kSOI (kSOI # t) 0 = 0" by (subst scan_for.simps) simp
  moreover have "scan_for kEOI (kSOI # t) 1 = length (kSOI # t)"
    using scan_for_miss_iff [of 1 "kSOI # t" kEOI] assms(1) by simp
  ultimately show ?thesis using assms(2) by (simp add: try_parse_pylontech_def Let_def)
qed


text \<open>Bytes after the end mark do not matter.\<close>

lemma decode_byte_append:
  "2 * k + 2 < length buf \<Longrightarrow> decode_byte (buf @ ys) k = decode_byte buf k"
  by (simp add: decode_byte_def rd8_append mult.commute)

lemma decode_seq_append:
  "\<forall>k \<in> set ks. 2 * k + 2 < length buf \<Longrightarrow> decode_seq (buf @ ys) ks = decode_seq buf ks"
  by (induction ks) (simp_all add: decode_byte_append cong: option.case_cong)

lemma parse_body_append:
  assumes "eoi < length buf" and "kMinBodyLen \<le> eoi - 1"
  shows "parse_body (buf @ ys) eoi out = parse_body buf eoi out"
proof -
  have n: "(eoi - 1 - kMinBodyLen) div 2 * 2 \<le> eoi - 17" and eoi: "17 \<le> eoi"
    using assms(2) by (auto simp: kMinBodyLen_def)
  have h: "decode_seq (buf @ ys) [0,1,2,3,4,5] = decode_seq buf [0,1,2,3,4,5]"
    using assms eoi by (intro decode_seq_append) auto
  have c: "decode_seq (buf @ ys) [6 + (eoi - 1 - kMinBodyLen) div 2, 6 + (eoi - 1 - kMinBodyLen) div 2 + 1]
      = decode_seq buf [6 + (eoi - 1 - kMinBodyLen) div 2, 6 + (eoi - 1 - kMinBodyLen) div 2 + 1]"
    using assms(1) n eoi by (intro decode_seq_append) auto
  have i: "decode_seq (buf @ ys) (map (\<lambda>i. 6 + i) [0..<(eoi - 1 - kMinBodyLen) div 2])
      = decode_seq buf (map (\<lambda>i. 6 + i) [0..<(eoi - 1 - kMinBodyLen) div 2])"
    using assms(1) n eoi by (intro decode_seq_append) auto
  have r: "rd_block (buf @ ys) 1 (eoi - 1 - 4) = rd_block buf 1 (eoi - 1 - 4)"
    using assms(1) eoi by (simp add: rd_block_def)
  show ?thesis
    unfolding parse_body_def Let_def h c i r ..
qed

lemma try_parse_append:
  assumes "try_parse_pylontech buf out = Some (n, f)" and "n \<noteq> 0"
    and "kSOI \<in> set buf" and "length buf \<le> kMaxFrameLen"
  shows "try_parse_pylontech (buf @ ys) out = Some (n, f)"
  using assms(1)
proof (cases rule: try_parse_cases)
  case (junk k)
  have *: "scan_for kSOI zs 0 = k" if "k < length zs" "zs ! k = kSOI" "\<forall>j<k. zs ! j \<noteq> kSOI" for zs
    using that scan_for_hit [of 0 zs kSOI] scan_for_before [of 0 _ kSOI zs]
    by (metis antisym_conv3 le0 leI order_less_le_trans not_less_iff_gr_or_eq scan_for_le)
  have "scan_for kSOI (buf @ ys) 0 = k"
    using junk by (intro *) (auto simp: nth_append)
  then show ?thesis using junk
    by (auto simp: try_parse_pylontech_def Let_def)
next
  case (malformed b rest)
  then show ?thesis
    using assms(1) delimited_scan [OF malformed(2), of "rest @ ys"] delimited_scan [OF malformed(2), of rest]
    by (auto simp: try_parse_pylontech_def Let_def kMinBodyLen_def odd_iff_mod_2_eq_one)
next
  case (framed b rest)
  then have "parse_body (buf @ ys) (Suc (length b)) out = Some (n, f)"
    using parse_body_append [of "Suc (length b)" buf ys out] by (simp add: kMinBodyLen_def)
  then show ?thesis
    using framed try_parse_delimited [of b "rest @ ys" out] by simp
qed (use assms in auto)

section \<open>The LENGTH field\<close>

lemma masks16: "(0xF :: u16) = mask 4" "(0x0FFF :: u16) = mask 12"
  by (simp_all add: mask_eq_exp_minus_1)
lemma mask8: "(0xF :: u8) = mask 4"
  by (simp_all add: mask_eq_exp_minus_1)

lemma length_field_low:
  "length_field l AND 0x0FFF = l AND 0x0FFF"
  "drop_bit 8 (length_field l) AND 0xF = drop_bit 8 l AND 0xF"
  "drop_bit 4 (length_field l) AND 0xF = drop_bit 4 l AND 0xF"
  "length_field l AND 0xF = l AND 0xF"
  unfolding length_field_def Let_def masks16
  by (rule bit_word_eqI; auto simp: bit_simps)+

lemma length_field_top:
  "drop_bit 12 (length_field l) =
   ucast ((NOT (ucast ((drop_bit 8 l AND 0xF) + (drop_bit 4 l AND 0xF) + (l AND 0xF)) :: u8) + 1) AND 0xF)"
  unfolding length_field_def Let_def masks16 mask8
  by (rule bit_word_eqI) (auto simp: bit_simps)


lemma uint_low_nibble_minus: "uint (take_bit 4 (- (s :: u16))) = take_bit 4 (- uint s)"
proof -
  have "take_bit 4 (k mod 65536) = take_bit 4 k" for k :: int
    by (simp add: take_bit_eq_mod mod_mod_cancel)
  then show ?thesis by (simp add: unsigned_take_bit_eq uint_word_ariths(4))
qed

lemma neg_low_nibble: "(ucast (take_bit 4 (- (ucast (s :: u16) :: u8))) :: u16) = take_bit 4 (- s)"
proof -
  have "take_bit 4 (- take_bit 8 k) = take_bit 4 (- k)" for k :: int
    using take_bit_minus [of 4 "take_bit 8 k"] take_bit_minus [of 4 k] by simp
  moreover have "take_bit 4 (k mod 256) = take_bit 4 k" for k :: int
    by (simp add: take_bit_eq_mod mod_mod_cancel)
  ultimately have "uint (ucast (take_bit 4 (- (ucast s :: u8))) :: u16) = take_bit 4 (- uint s)"
    by (simp add: unsigned_ucast_eq unsigned_take_bit_eq uint_word_ariths(4) uint_up_ucast is_up)
  then show ?thesis by (simp add: word_uint_eq_iff uint_low_nibble_minus)
qed

lemma low_nibble_cancels: "take_bit 4 (take_bit 4 (- s) + s) = (0 :: u16)"
proof -
  have "take_bit 4 (k mod 65536) = take_bit 4 k" for k :: int
    by (simp add: take_bit_eq_mod mod_mod_cancel)
  then have "uint (take_bit 4 (take_bit 4 (- s) + s)) = take_bit 4 (take_bit 4 (- uint s) + uint s)"
    by (simp add: unsigned_take_bit_eq uint_word_ariths(1) uint_low_nibble_minus [unfolded unsigned_take_bit_eq])
  also have "\<dots> = 0"
    using take_bit_add [of 4 "take_bit 4 (- uint s)" "uint s"] take_bit_add [of 4 "- uint s" "uint s"]
    by simp
  finally show ?thesis by (simp add: word_uint_eq_iff)
qed

lemma length_nibbles_cancel: "((ucast ((NOT (ucast (s::u16) :: u8) + 1) AND 0xF) :: u16) + s) AND 0xF = 0"
proof -
  have "((ucast ((NOT (ucast (s::u16) :: u8) + 1) AND 0xF) :: u16) + s) AND 0xF = take_bit 4 (take_bit 4 (- s) + s)"
    unfolding masks16 mask8 take_bit_eq_mask [symmetric]
    by (simp only: minus_eq_not_plus_1 [symmetric] neg_low_nibble)
  also have "\<dots> = 0" by (rule low_nibble_cancels)
  finally show ?thesis .
qed

section \<open>Properties\<close>

text \<open>C2: A frame that \<open>build_pylontech\<close> writes is parsed back unchanged, and exactly its
  bytes are consumed, whatever follows it in the buffer and whatever the target frame held.\<close>

theorem frame_roundtrip:
  "try_parse_pylontech (build_pylontech f @ rest) out = Some (int (18 + 2 * length (f_info f)), f)"
  using parse_build [of f rest out] length_build_pylontech [of f] by simp

lemma damage_is_detected_witness:
  "try_parse_pylontech ((build_pylontech default_frame)[1 := 0x33]) default_frame =
     Some (- int (length (build_pylontech default_frame)), default_frame)"
proof -
  have "build_pylontech default_frame ! Suc 0 = 0x32" by code_simp
  then show ?thesis
    using damage_is_detected [of 0 default_frame "0x33" "[]" default_frame]
    by (simp add: default_frame_def kEOI_def)
qed

text \<open>The LENGTH field carries LENID in its low 12 bits, and its check nibble makes the
  four nibbles sum to zero modulo 16, as the protocol demands.\<close>

theorem length_field_checksum:
  "length_field l AND 0x0FFF = l AND 0x0FFF \<and>
   (drop_bit 12 (length_field l) + (drop_bit 8 (length_field l) AND 0xF) +
    (drop_bit 4 (length_field l) AND 0xF) + (length_field l AND 0xF)) AND 0xF = 0"
  using length_field_low
    length_nibbles_cancel [of "(drop_bit 8 l AND 0xF) + (drop_bit 4 l AND 0xF) + (l AND 0xF)"]
  by (simp add: length_field_top add.assoc)

end
