(* ===== verification/Pylontech_Stream.thy ===== *)
theory Pylontech_Stream
  imports Pylontech_Frame
begin

text \<open>
  The receive loop over a Pylontech byte stream.  The inverter side
  (\<open>Inverter::process_buffer\<close>) and the battery side (\<open>PylontechMasterProtocol::feed\<close>) run
  the same loop around \<open>try_parse_pylontech\<close>; what differs is what they do with a frame.
  The locale \<open>frame_loop\<close> is that contract: a loop that satisfies the equation computes
  the frames of \<open>scan_frames\<close> and folds its handler over them, so the facts about
  chunking, resynchronisation and residue are proved once.
\<close>

section \<open>The frames of a buffer\<close>

text \<open>
  The bytes that remain after one parser call that asked to drop or to consume \<open>n\<close> bytes;
  the clamp \<open>if (drop > rx.size()) drop = rx.size()\<close> is the \<open>min\<close>.
\<close>

definition after_parse :: "int \<Rightarrow> bytes \<Rightarrow> bytes" where
  "after_parse n rx = (if n < 0 then drop (min (nat (- n)) (length rx)) rx else drop (nat n) rx)"

lemma after_parse_shorter:
  assumes "try_parse_pylontech rx out = Some (n, f)" and "n \<noteq> 0"
  shows "length (after_parse n rx) < length rx"
  using try_parse_progress [OF assms] by (auto simp: after_parse_def)

function scan_frames :: "bytes \<Rightarrow> PylontechFrame list \<times> bytes" where
  "scan_frames rx =
    (if rx = [] then ([], rx)
     else case try_parse_pylontech rx default_frame of
       None \<Rightarrow> ([], rx)
     | Some (n, f) \<Rightarrow>
         if n = 0 then ([], rx)
         else let (fs, r) = scan_frames (after_parse n rx)
              in (if n < 0 then fs else f # fs, r))"
  by pat_completeness auto
termination
  by (relation "measure length") (auto intro: after_parse_shorter)

declare scan_frames.simps [simp del]

abbreviation frames :: "bytes \<Rightarrow> PylontechFrame list" where
  "frames rx \<equiv> fst (scan_frames rx)"

abbreviation residue :: "bytes \<Rightarrow> bytes" where
  "residue rx \<equiv> snd (scan_frames rx)"

lemma scan_frames_Nil [simp]: "scan_frames [] = ([], [])"
  by (subst scan_frames.simps) simp

lemma scan_frames_step:
  assumes "try_parse_pylontech rx default_frame = Some (n, f)" and "n \<noteq> 0"
  shows "scan_frames rx =
    ((if n < 0 then [] else [f]) @ frames (after_parse n rx), residue (after_parse n rx))"
proof -
  have "rx \<noteq> []" using assms by (auto simp: try_parse_pylontech_def)
  then show ?thesis
    using assms by (subst scan_frames.simps) (auto split: prod.splits)
qed

lemma scan_frames_stop:
  "try_parse_pylontech rx default_frame = Some (0, f) \<Longrightarrow> scan_frames rx = ([], rx)"
  by (subst scan_frames.simps) simp

text \<open>Induction over the calls of the loop.\<close>

lemma scan_induct [case_names stop step]:
  assumes stop: "\<And>rx f. try_parse_pylontech rx default_frame = Some (0, f) \<Longrightarrow> P rx"
    and step: "\<And>rx n f. try_parse_pylontech rx default_frame = Some (n, f) \<Longrightarrow> n \<noteq> 0 \<Longrightarrow>
                 P (after_parse n rx) \<Longrightarrow> P rx"
  shows "P rx"
proof (induction rx rule: length_induct)
  case (1 rx)
  obtain n f where p: "try_parse_pylontech rx default_frame = Some (n, f)"
    using try_parse_no_overread [of rx default_frame] by (cases "try_parse_pylontech rx default_frame") auto
  show ?case
  proof (cases "n = 0")
    case True
    with p stop show ?thesis by blast
  next
    case False
    with p 1 after_parse_shorter [OF p] step [OF p] show ?thesis by blast
  qed
qed

section \<open>What is left in the buffer\<close>

definition pending_ok :: "bytes \<Rightarrow> bool" where
  "pending_ok r \<longleftrightarrow> r = [] \<or> (hd r = kSOI \<and> kEOI \<notin> set r \<and> length r \<le> kMaxFrameLen)"

lemma residue_pending: "pending_ok (residue rx)"
proof (induction rx rule: scan_induct)
  case (stop rx f)
  from try_parse_zero [OF this] show ?case
    by (auto simp: scan_frames_stop [OF stop] pending_ok_def kSOI_def kEOI_def)
next
  case (step rx n f)
  then show ?case by (simp add: scan_frames_step)
qed

lemma pending_zero:
  assumes "pending_ok r"
  shows "try_parse_pylontech r out = Some (0, out)"
proof (cases r)
  case Nil
  then show ?thesis by (simp add: try_parse_pylontech_def)
next
  case (Cons a t)
  with assms have "r = kSOI # t" "kEOI \<notin> set t" "length t < kMaxFrameLen"
    by (auto simp: pending_ok_def)
  then show ?thesis using try_parse_incomplete by simp
qed

lemma pending_scan: "pending_ok r \<Longrightarrow> scan_frames r = ([], r)"
proof -
  assume r: "pending_ok r"
  show ?thesis
  proof (cases r)
    case Nil
    then show ?thesis by simp
  next
    case (Cons b t)
    with r have "try_parse_pylontech (kSOI # t) default_frame = Some (0, default_frame)"
      by (intro try_parse_incomplete) (auto simp: pending_ok_def)
    with r Cons show ?thesis by (simp add: scan_frames_stop pending_ok_def)
  qed
qed


section \<open>Resynchronisation and chunking\<close>

lemma scan_no_soi:
  assumes "kSOI \<notin> set xs"
  shows "scan_frames xs = ([], [])"
proof (cases "xs = []")
  case False
  have "scan_for kSOI xs 0 = length xs"
    using assms scan_for_miss_iff [of 0 xs kSOI] by simp
  then have "try_parse_pylontech xs default_frame = Some (- int (length xs), default_frame)"
    using False by (simp add: try_parse_pylontech_def Let_def)
  then show ?thesis using False by (simp add: scan_frames_step after_parse_def)
qed simp

lemma scan_junk_soi:
  assumes "kSOI \<notin> set j"
  shows "scan_frames (j @ kSOI # t) = scan_frames (kSOI # t)"
proof (cases "j = []")
  case False
  have "takeWhile (\<lambda>c. c \<noteq> kSOI) (j @ kSOI # t) = j"
    using assms by (induction j) auto
  then have "scan_for kSOI (j @ kSOI # t) 0 = length j"
    by (simp add: scan_for_eq)
  then have "try_parse_pylontech (j @ kSOI # t) default_frame = Some (- int (length j), default_frame)"
    using False by (simp add: try_parse_pylontech_def Let_def)
  then show ?thesis using False by (simp add: scan_frames_step after_parse_def)
qed simp

lemma scan_junk:
  assumes "kSOI \<notin> set j"
  shows "scan_frames (j @ ys) = scan_frames ys"
proof (cases "kSOI \<in> set ys")
  case True
  then obtain k t where "ys = k @ kSOI # t" "kSOI \<notin> set k" by (meson split_list_first)
  with assms scan_junk_soi [of "j @ k" t] scan_junk_soi [of k t] show ?thesis by simp
next
  case False
  with assms show ?thesis by (simp add: scan_no_soi)
qed

text \<open>
  Feeding a stream in two pieces gives the frames of feeding it at once, as long as the
  first piece is not longer than \<open>kMaxFrameLen\<close>: only then may the parser have given up on
  a frame whose end is in the second piece.
\<close>

lemma scan_append:
  "length xs \<le> kMaxFrameLen \<Longrightarrow>
   scan_frames (xs @ ys) = (frames xs @ frames (residue xs @ ys), residue (residue xs @ ys))"
proof (induction xs rule: scan_induct)
  case (stop xs f)
  then show ?case by (simp add: scan_frames_stop)
next
  case (step xs n f)
  show ?case
  proof (cases "kSOI \<in> set xs")
    case True
    from try_parse_progress [OF step(1,2)] have n: "\<bar>n\<bar> \<le> int (length xs)" by simp
    then have after: "after_parse n (xs @ ys) = after_parse n xs @ ys"
      by (auto simp: after_parse_def)
    have len: "length (after_parse n xs) \<le> kMaxFrameLen"
      using after_parse_shorter [OF step(1,2)] step(4) by simp
    show ?thesis
      using scan_frames_step [OF try_parse_append [OF step(1,2) True step(4)] step(2), of ys]
        scan_frames_step [OF step(1,2)] step(3) [OF len]
      by (simp add: after)
  next
    case False
    then show ?thesis by (simp add: scan_junk scan_no_soi)
  qed
qed

lemma scan_built:
  "scan_frames (build_pylontech f @ rest) = (f # frames rest, residue rest)"
proof -
  have "0 < int (length (build_pylontech f))" by (simp add: build_pylontech_nonempty)
  then show ?thesis
    using scan_frames_step [OF parse_build, of f rest]
    by (simp add: after_parse_def build_pylontech_nonempty)
qed

lemma scan_junk_and_frames:
  assumes "\<forall>(j, f) \<in> set jfs. kSOI \<notin> set j"
  shows "scan_frames (concat (map (\<lambda>(j, f). j @ build_pylontech f) jfs) @ rest) =
         (map snd jfs @ frames rest, residue rest)"
  using assms by (induction jfs) (auto simp: scan_junk scan_built)

text \<open>
  A stream of frames with junk between them may be cut anywhere: the frames of the part so far are
  whole ones, and what is left of it is the beginning of one frame.
\<close>

definition stream_of :: "(bytes \<times> PylontechFrame) list \<Rightarrow> bytes" where
  "stream_of jfs = concat (map (\<lambda>(j, f). j @ build_pylontech f) jfs)"

definition stream_ok :: "nat \<Rightarrow> (bytes \<times> PylontechFrame) list \<Rightarrow> bool" where
  "stream_ok n jfs \<longleftrightarrow> list_all (\<lambda>(j, f). kSOI \<notin> set j \<and> length (build_pylontech f) \<le> n) jfs"

lemma frame_start_pending:
  assumes "build_pylontech f = q @ z" "z \<noteq> []" "length (build_pylontech f) \<le> kMaxFrameLen"
  shows "pending_ok q"
proof (cases q)
  case (Cons a t)
  let ?h = "hex_text (frame_bytes f @ [hi8 (frame_chksum f), lo8 (frame_chksum f)])"
  have "a = kSOI" "t @ z = ?h @ [kEOI]" using assms(1) Cons by (auto simp: build_pylontech_eq)
  moreover have "set t \<subseteq> set ?h"
  proof -
    obtain y where "z = y @ [kEOI]" using assms(2) \<open>t @ z = ?h @ [kEOI]\<close> by (cases z rule: rev_cases) auto
    then have "t @ y = ?h" using \<open>t @ z = ?h @ [kEOI]\<close> by simp
    then show ?thesis by (metis Un_upper1 set_append)
  qed
  moreover have "length q \<le> kMaxFrameLen" using assms(1,3) by simp
  ultimately show ?thesis
    using Cons hex_text_no_delim(1) by (auto simp: pending_ok_def kSOI_def kEOI_def)
qed (simp add: pending_ok_def)

lemma scan_cut:
  assumes "p @ rest = stream_of jfs" "stream_ok n jfs" "n \<le> kMaxFrameLen"
  shows "scan_frames (p @ c) = (frames p @ frames (residue p @ c), residue (residue p @ c)) \<and>
    length (residue p) \<le> n"
  using assms(1,2)
proof (induction jfs arbitrary: p)
  case (Cons jf jfs)
  obtain j f where jf: "jf = (j, f)" by fastforce
  have j: "kSOI \<notin> set j" and f: "length (build_pylontech f) \<le> n" and ok: "stream_ok n jfs"
    using Cons.prems(2) jf by (auto simp: stream_ok_def)
  have "p @ rest = j @ build_pylontech f @ stream_of jfs"
    using Cons.prems(1) jf by (simp add: stream_of_def)
  then consider (junk) z where "p @ z = j"
    | (frame) q where "p = j @ q" "q @ rest = build_pylontech f @ stream_of jfs"
    by (auto simp: append_eq_append_conv2)
  then show ?case
  proof cases
    case junk
    then have "kSOI \<notin> set p" using j by auto
    then show ?thesis by (simp add: scan_junk scan_no_soi)
  next
    case frame
    obtain u where u: "q = build_pylontech f @ u \<and> u @ rest = stream_of jfs \<or>
        q @ u = build_pylontech f \<and> rest = u @ stream_of jfs"
      using frame(2) by (auto simp: append_eq_append_conv2)
    consider (part) z where "build_pylontech f = q @ z" "z \<noteq> []"
      | (whole) q' where "q = build_pylontech f @ q'" "q' @ rest = stream_of jfs"
      using u by (cases "u = []") (auto dest: sym)
    then show ?thesis
    proof cases
      case part
      then have "pending_ok q"
        using frame_start_pending [OF part] le_trans [OF f assms(3)] by blast
      moreover have "length q \<le> n" using part f by simp
      ultimately show ?thesis using frame(1) j by (simp add: scan_junk pending_scan)
    next
      case whole
      then show ?thesis using Cons.IH [OF whole(2) ok] frame(1) j by (simp add: scan_junk scan_built)
    qed
  qed
qed (simp add: stream_of_def)

lemma scan_soi_inside:
  assumes "kEOI \<notin> set b" "kSOI \<in> set b"
  shows "scan_frames (kSOI # b @ kEOI # rest) = scan_frames rest"
proof -
  let ?buf = "kSOI # b @ kEOI # rest"
  obtain n f where p: "try_parse_pylontech ?buf default_frame = Some (n, f)"
    using try_parse_no_overread [of ?buf default_frame] by auto
  have "n = - int (length b + 2)"
  proof (cases "length b < 16 \<or> odd (length b)")
    case True
    then show ?thesis
      using p delimited_scan [OF assms(1), of rest]
      by (auto simp: try_parse_pylontech_def Let_def kMinBodyLen_def odd_iff_mod_2_eq_one)
  next
    case False
    then have q: "parse_body ?buf (Suc (length b)) default_frame = Some (n, f)"
      using p try_parse_delimited [OF assms(1), of rest default_frame] by simp
    obtain j where "j < length b" "b ! j = kSOI" using assms(2) by (auto simp: in_set_conv_nth)
    then have "?buf ! Suc j = kSOI" by (simp add: nth_append)
    then have "\<not> 0 < n"
      using parse_body_no_soi [OF q, of "Suc j"] False \<open>j < length b\<close> by (auto simp: kMinBodyLen_def)
    then show ?thesis using parse_body_result [OF q] by auto
  qed
  moreover have "nat (int (length b) + 2) = Suc (Suc (length b))" by simp
  ultimately have "n \<noteq> 0" "after_parse n ?buf = rest" "\<not> 0 < n" by (simp_all add: after_parse_def)
  then show ?thesis using scan_frames_step [OF p] by (cases "scan_frames rest") simp
qed

section \<open>The receive loop as an interface\<close>

locale frame_loop =
  fixes loop :: "bytes \<Rightarrow> 's \<Rightarrow> bytes \<times> 's"
    and handle :: "PylontechFrame \<Rightarrow> 's \<Rightarrow> 's"
  assumes loop_stop: "try_parse_pylontech rx default_frame = Some (0, f) \<Longrightarrow> loop rx s = (rx, s)"
    and loop_drop: "try_parse_pylontech rx default_frame = Some (n, f) \<Longrightarrow> n < 0 \<Longrightarrow>
      loop rx s = loop (after_parse n rx) s"
    and loop_frame: "try_parse_pylontech rx default_frame = Some (n, f) \<Longrightarrow> n > 0 \<Longrightarrow>
      loop rx s = loop (after_parse n rx) (handle f s)"
begin

lemma loop_eq: "loop rx s = (residue rx, fold handle (frames rx) s)"
proof (induction rx arbitrary: s rule: scan_induct)
  case (stop rx f)
  then show ?case by (simp add: loop_stop scan_frames_stop)
next
  case (step rx n f)
  show ?case
  proof (cases "n < 0")
    case True
    with step show ?thesis by (simp add: loop_drop [OF step(1)] scan_frames_step)
  next
    case False
    with step(2) have "n > 0" by simp
    with step show ?thesis by (simp add: loop_frame [OF step(1)] scan_frames_step)
  qed
qed

lemma loop_residue: "pending_ok (fst (loop rx s))"
  by (simp add: loop_eq residue_pending)

lemma loop_append:
  assumes "length xs \<le> kMaxFrameLen"
  shows "loop (xs @ ys) s = (let (r, t) = loop xs s in loop (r @ ys) t)"
  by (simp add: loop_eq scan_append [OF assms])

lemma loop_junk_and_frames:
  assumes "\<forall>(j, f) \<in> set jfs. kSOI \<notin> set j"
  shows "loop (concat (map (\<lambda>(j, f). j @ build_pylontech f) jfs)) s = ([], fold handle (map snd jfs) s)"
  using scan_junk_and_frames [OF assms, of "[]"] by (simp add: loop_eq)

end

section \<open>Properties\<close>

text \<open>C4: The parser never reads outside its buffer and always gives a verdict that fits it:
  it drops or consumes at most the bytes there are, and it asks for more bytes exactly when
  the buffer holds nothing or the bounded beginning of a frame.\<close>

theorem parser_verdict:
  "\<exists>n f. try_parse_pylontech buf out = Some (n, f) \<and> \<bar>n\<bar> \<le> int (length buf) \<and>
     (n = 0 \<longleftrightarrow> pending_ok buf)"
proof -
  obtain n f where p: "try_parse_pylontech buf out = Some (n, f)"
    using try_parse_no_overread [of buf out] by auto
  moreover have "\<bar>n\<bar> \<le> int (length buf)"
    using try_parse_progress [OF p] by (cases "n = 0") auto
  moreover have "n = 0 \<longleftrightarrow> pending_ok buf"
    using p try_parse_zero [of buf out f] pending_zero [of buf out]
    by (auto simp: pending_ok_def kSOI_def kEOI_def)
  ultimately show ?thesis by blast
qed

text \<open>C5: Between and before well-formed frames any noise without a start mark is skipped: the
  receive loop finds exactly the frames that were sent, in their order.\<close>

theorem stream_resynchronises:
  assumes "\<forall>(j, f) \<in> set jfs. kSOI \<notin> set j"
  shows "scan_frames (concat (map (\<lambda>(j, f). j @ build_pylontech f) jfs) @ rest) =
         (map snd jfs @ frames rest, residue rest)"
proof -
  have "residue (build_pylontech f @ xs) = residue xs" for f xs by (simp add: scan_built)
  then show ?thesis using assms by (induction jfs) (auto simp: scan_junk scan_built)
qed

lemma stream_resynchronises_witness:
  "scan_frames ([0x00, 0xFF] @ build_pylontech default_frame) = ([default_frame], [])"
  using stream_resynchronises [of "[([0x00, 0xFF], default_frame)]" "[]"] by (simp add: kSOI_def)

end
