(* ===== verification/Pylontech_Payload.thy ===== *)
theory Pylontech_Payload
  imports Pylontech_Frame "HOL-Library.State_Monad"
begin

text \<open>
  The INFO payloads of the Pylontech protocol (second part of src/pylontech.cpp): the
  big-endian \<open>BeWriter\<close> and \<open>BeReader\<close>, the four response structs with their
  \<open>serialize\<close>, the two \<open>deserialize\<close> of the master side, and the master's requests.

  \<open>BeReader\<close> is a state monad over its cursor.  A field written by the writer is a field
  read by the reader: that is the locale \<open>wire_codec\<close>, interpreted for \<open>u8\<close> and \<open>u16\<close>; the
  round trip of a payload is the composition of its fields' laws.
\<close>

section \<open>BeWriter\<close>

definition w_u8 :: "bytes \<Rightarrow> u8 \<Rightarrow> bytes" where
  "w_u8 out v = out @ [v]"

definition w_u16 :: "bytes \<Rightarrow> u16 \<Rightarrow> bytes" where
  "w_u16 out v = (out @ [hi8 v]) @ [lo8 v]"

definition w_i16 :: "bytes \<Rightarrow> i16 \<Rightarrow> bytes" where
  "w_i16 out v = w_u16 out v"

section \<open>BeReader\<close>

record BeReader =
  rd_p :: bytes
  rd_i :: nat
  rd_ok :: bool

definition BeReader_new :: "bytes \<Rightarrow> BeReader" where
  "BeReader_new d = \<lparr>rd_p = d, rd_i = 0, rd_ok = True\<rparr>"

definition r_u8 :: "(BeReader, u8) state" where
  "r_u8 = State (\<lambda>r.
     if rd_i r + 1 > length (rd_p r) then (0, r\<lparr>rd_ok := False\<rparr>)
     else (rd_p r ! rd_i r, r\<lparr>rd_i := rd_i r + 1\<rparr>))"

definition r_u16 :: "(BeReader, u16) state" where
  "r_u16 = State (\<lambda>r.
     if rd_i r + 2 > length (rd_p r) then (0, r\<lparr>rd_ok := False\<rparr>)
     else (join16 (rd_p r ! rd_i r) (rd_p r ! (rd_i r + 1)), r\<lparr>rd_i := rd_i r + 2\<rparr>))"

definition r_i16 :: "(BeReader, i16) state" where
  "r_i16 = r_u16"

text \<open>\<open>for (uint8_t k = 0; k < n; ++k) xs.push_back(get());\<close>\<close>

primrec r_repeat :: "nat \<Rightarrow> (BeReader, 'a) state \<Rightarrow> (BeReader, 'a list) state" where
  "r_repeat 0 m = State_Monad.return []"
| "r_repeat (Suc n) m = do { x \<leftarrow> m; xs \<leftarrow> r_repeat n m; State_Monad.return (x # xs) }"

section \<open>Analog data, CID2 0x42\<close>

record AnalogResponse =
  a_infoflag :: u8
  a_command :: u8
  a_cell_voltages_mv :: "u16 list"
  a_temperatures_k10 :: "u16 list"
  a_current_01a :: i16
  a_module_voltage_mv :: u16
  a_remain_capacity_mah :: u16
  a_user_defined_count :: u8
  a_total_capacity_mah :: u16
  a_cycle_count :: u16

definition AnalogResponse_default :: AnalogResponse where
  "AnalogResponse_default =
     \<lparr>a_infoflag = 0, a_command = 0, a_cell_voltages_mv = [], a_temperatures_k10 = [],
      a_current_01a = 0, a_module_voltage_mv = 0, a_remain_capacity_mah = 0,
      a_user_defined_count = 2, a_total_capacity_mah = 0, a_cycle_count = 0\<rparr>"

definition AnalogResponse_serialize :: "AnalogResponse \<Rightarrow> bytes \<Rightarrow> bytes" where
  "AnalogResponse_serialize a info =
    (let w = w_u8 info (a_infoflag a);
         w = w_u8 w (a_command a);
         w = w_u8 w (word_of_nat (length (a_cell_voltages_mv a)));
         w = foldl w_u16 w (a_cell_voltages_mv a);
         w = w_u8 w (word_of_nat (length (a_temperatures_k10 a)));
         w = foldl w_u16 w (a_temperatures_k10 a);
         w = w_i16 w (a_current_01a a);
         w = w_u16 w (a_module_voltage_mv a);
         w = w_u16 w (a_remain_capacity_mah a);
         w = w_u8 w (a_user_defined_count a);
         w = w_u16 w (a_total_capacity_mah a)
     in w_u16 w (a_cycle_count a))"

definition AnalogResponse_reader :: "(BeReader, AnalogResponse) state" where
  "AnalogResponse_reader = do {
     infoflag \<leftarrow> r_u8;
     command \<leftarrow> r_u8;
     n_cells \<leftarrow> r_u8;
     cells \<leftarrow> r_repeat (unat n_cells) r_u16;
     n_temps \<leftarrow> r_u8;
     temps \<leftarrow> r_repeat (unat n_temps) r_u16;
     current \<leftarrow> r_i16;
     module_voltage \<leftarrow> r_u16;
     remain \<leftarrow> r_u16;
     user_defined \<leftarrow> r_u8;
     total \<leftarrow> r_u16;
     cycles \<leftarrow> r_u16;
     State_Monad.return
       \<lparr>a_infoflag = infoflag, a_command = command, a_cell_voltages_mv = cells,
        a_temperatures_k10 = temps, a_current_01a = current,
        a_module_voltage_mv = module_voltage, a_remain_capacity_mah = remain,
        a_user_defined_count = user_defined, a_total_capacity_mah = total,
        a_cycle_count = cycles\<rparr>
   }"

text \<open>The result of \<open>deserialize\<close> and the object it has filled.\<close>

definition AnalogResponse_deserialize :: "bytes \<Rightarrow> bool \<times> AnalogResponse" where
  "AnalogResponse_deserialize info =
    (let (a, r) = run_state AnalogResponse_reader (BeReader_new info) in (rd_ok r, a))"

section \<open>Alarm data, CID2 0x44\<close>

record AlarmResponse =
  al_dataflag :: u8
  al_command :: u8
  al_cell_voltage_states :: bytes
  al_temperature_states :: bytes
  al_charge_current_state :: u8
  al_module_voltage_state :: u8
  al_discharge_current_state :: u8
  al_status_byte_1 :: u8
  al_status_byte_2 :: u8
  al_status_byte_3 :: u8
  al_cell_error_states_1_8 :: u8
  al_cell_error_states_9_16 :: u8

definition AlarmResponse_default :: AlarmResponse where
  "AlarmResponse_default =
     \<lparr>al_dataflag = 0, al_command = 0, al_cell_voltage_states = [], al_temperature_states = [],
      al_charge_current_state = 0, al_module_voltage_state = 0, al_discharge_current_state = 0,
      al_status_byte_1 = 0, al_status_byte_2 = 0, al_status_byte_3 = 0,
      al_cell_error_states_1_8 = 0, al_cell_error_states_9_16 = 0\<rparr>"

definition AlarmResponse_serialize :: "AlarmResponse \<Rightarrow> bytes \<Rightarrow> bytes" where
  "AlarmResponse_serialize a info =
    (let w = w_u8 info (al_dataflag a);
         w = w_u8 w (al_command a);
         w = w_u8 w (word_of_nat (length (al_cell_voltage_states a)));
         w = foldl w_u8 w (al_cell_voltage_states a);
         w = w_u8 w (word_of_nat (length (al_temperature_states a)));
         w = foldl w_u8 w (al_temperature_states a);
         w = w_u8 w (al_charge_current_state a);
         w = w_u8 w (al_module_voltage_state a);
         w = w_u8 w (al_discharge_current_state a);
         w = w_u8 w (al_status_byte_1 a);
         w = w_u8 w (al_status_byte_2 a);
         w = w_u8 w (al_status_byte_3 a);
         w = w_u8 w (al_cell_error_states_1_8 a)
     in w_u8 w (al_cell_error_states_9_16 a))"

section \<open>System parameters, CID2 0x47\<close>

record SystemParameterResponse =
  sp_infoflag :: u8
  sp_cell_high_voltage_limit_mv :: u16
  sp_cell_low_voltage_limit_mv :: u16
  sp_cell_under_voltage_limit_mv :: u16
  sp_charge_high_temp_k10 :: u16
  sp_charge_low_temp_k10 :: u16
  sp_charge_current_limit_01a :: i16
  sp_module_high_voltage_limit_mv :: u16
  sp_module_low_voltage_limit_mv :: u16
  sp_module_under_voltage_limit_mv :: u16
  sp_discharge_high_temp_k10 :: u16
  sp_discharge_low_temp_k10 :: u16
  sp_discharge_current_limit_01a :: i16

definition SystemParameterResponse_serialize :: "SystemParameterResponse \<Rightarrow> bytes \<Rightarrow> bytes" where
  "SystemParameterResponse_serialize s info =
    (let w = w_u8 info (sp_infoflag s);
         w = w_u16 w (sp_cell_high_voltage_limit_mv s);
         w = w_u16 w (sp_cell_low_voltage_limit_mv s);
         w = w_u16 w (sp_cell_under_voltage_limit_mv s);
         w = w_u16 w (sp_charge_high_temp_k10 s);
         w = w_u16 w (sp_charge_low_temp_k10 s);
         w = w_i16 w (sp_charge_current_limit_01a s);
         w = w_u16 w (sp_module_high_voltage_limit_mv s);
         w = w_u16 w (sp_module_low_voltage_limit_mv s);
         w = w_u16 w (sp_module_under_voltage_limit_mv s);
         w = w_u16 w (sp_discharge_high_temp_k10 s);
         w = w_u16 w (sp_discharge_low_temp_k10 s)
     in w_i16 w (sp_discharge_current_limit_01a s))"

definition SystemParameterResponse_reader :: "(BeReader, SystemParameterResponse) state" where
  "SystemParameterResponse_reader = do {
     infoflag \<leftarrow> r_u8;
     cell_high \<leftarrow> r_u16;
     cell_low \<leftarrow> r_u16;
     cell_under \<leftarrow> r_u16;
     charge_high_temp \<leftarrow> r_u16;
     charge_low_temp \<leftarrow> r_u16;
     charge_current \<leftarrow> r_i16;
     module_high \<leftarrow> r_u16;
     module_low \<leftarrow> r_u16;
     module_under \<leftarrow> r_u16;
     discharge_high_temp \<leftarrow> r_u16;
     discharge_low_temp \<leftarrow> r_u16;
     discharge_current \<leftarrow> r_i16;
     State_Monad.return
       \<lparr>sp_infoflag = infoflag, sp_cell_high_voltage_limit_mv = cell_high,
        sp_cell_low_voltage_limit_mv = cell_low, sp_cell_under_voltage_limit_mv = cell_under,
        sp_charge_high_temp_k10 = charge_high_temp, sp_charge_low_temp_k10 = charge_low_temp,
        sp_charge_current_limit_01a = charge_current,
        sp_module_high_voltage_limit_mv = module_high, sp_module_low_voltage_limit_mv = module_low,
        sp_module_under_voltage_limit_mv = module_under,
        sp_discharge_high_temp_k10 = discharge_high_temp,
        sp_discharge_low_temp_k10 = discharge_low_temp,
        sp_discharge_current_limit_01a = discharge_current\<rparr>
   }"

definition SystemParameterResponse_deserialize :: "bytes \<Rightarrow> bool \<times> SystemParameterResponse" where
  "SystemParameterResponse_deserialize info =
    (let (s, r) = run_state SystemParameterResponse_reader (BeReader_new info) in (rd_ok r, s))"

section \<open>Charge and discharge management, CID2 0x92\<close>

record ChargeManagementResponse =
  cm_command :: u8
  cm_charge_voltage_limit_mv :: u16
  cm_discharge_voltage_limit_mv :: u16
  cm_charge_current_limit_01a :: i16
  cm_discharge_current_limit_01a :: i16
  cm_charge_enabled :: bool
  cm_discharge_enabled :: bool
  cm_request_charge_immediately :: bool
  cm_request_charge_immediately_low :: bool
  cm_request_full_charge :: bool

definition ChargeManagementResponse_serialize :: "ChargeManagementResponse \<Rightarrow> bytes \<Rightarrow> bytes" where
  "ChargeManagementResponse_serialize c info =
    (let w = w_u8 info (cm_command c);
         w = w_u16 w (cm_charge_voltage_limit_mv c);
         w = w_u16 w (cm_discharge_voltage_limit_mv c);
         w = w_i16 w (cm_charge_current_limit_01a c);
         w = w_i16 w (cm_discharge_current_limit_01a c);
         status = (0 :: u8);
         status = (if cm_charge_enabled c then status OR 0x80 else status);
         status = (if cm_discharge_enabled c then status OR 0x40 else status);
         status = (if cm_request_charge_immediately c then status OR 0x20 else status);
         status = (if cm_request_charge_immediately_low c then status OR 0x10 else status);
         status = (if cm_request_full_charge c then status OR 0x08 else status)
     in w_u8 w status)"

section \<open>Requests of the master\<close>

definition build_analog_request :: "u8 \<Rightarrow> bytes" where
  "build_analog_request adr =
    (let f = default_frame;
         f = f\<lparr>f_adr := adr\<rparr>;
         f = f\<lparr>f_cid2 := 0x42\<rparr>;
         f = f\<lparr>f_info := [adr]\<rparr>
     in build_pylontech f)"

definition build_system_param_request :: "u8 \<Rightarrow> bytes" where
  "build_system_param_request adr =
    (let f = default_frame;
         f = f\<lparr>f_adr := adr\<rparr>;
         f = f\<lparr>f_cid2 := 0x47\<rparr>
     in build_pylontech f)"

section \<open>Fields that read back\<close>

text \<open>
  \<open>reads m bs v\<close>: standing before the bytes \<open>bs\<close>, the reader \<open>m\<close> consumes exactly them and
  returns \<open>v\<close>, whatever follows.
\<close>

definition reads :: "(BeReader, 'a) state \<Rightarrow> bytes \<Rightarrow> 'a \<Rightarrow> bool" where
  "reads m bs v \<longleftrightarrow>
    (\<forall>r post. drop (rd_i r) (rd_p r) = bs @ post \<and> rd_i r \<le> length (rd_p r) \<longrightarrow>
       run_state m r = (v, r\<lparr>rd_i := rd_i r + length bs\<rparr>))"

lemma reads_return [codec_intro]: "reads (State_Monad.return v) [] v"
  by (simp add: reads_def)

lemma reads_bind [codec_intro]:
  assumes "reads m bs v" and "reads (f v) cs w"
  shows "reads (m \<bind> f) (bs @ cs) w"
  unfolding reads_def
proof (intro allI impI)
  fix r :: BeReader and post
  assume r: "drop (rd_i r) (rd_p r) = (bs @ cs) @ post \<and> rd_i r \<le> length (rd_p r)"
  let ?r = "r\<lparr>rd_i := rd_i r + length bs\<rparr>"
  have m: "run_state m r = (v, ?r)"
    using assms(1) r by (auto simp: reads_def)
  have "drop (rd_i ?r) (rd_p ?r) = cs @ post"
    using arg_cong [OF conjunct1 [OF r], of "drop (length bs)"] by (simp add: add.commute)
  moreover have "length (drop (rd_i r) (rd_p r)) = length bs + (length cs + length post)"
    using r by simp
  then have "rd_i ?r \<le> length (rd_p ?r)" using conjunct2 [OF r] by simp
  ultimately have "run_state (f v) ?r = (w, ?r\<lparr>rd_i := rd_i ?r + length cs\<rparr>)"
    using assms(2) unfolding reads_def by blast
  with m show "run_state (m \<bind> f) r = (w, r\<lparr>rd_i := rd_i r + length (bs @ cs)\<rparr>)"
    by (simp add: add.assoc)
qed

lemma reads_run:
  "reads m bs v \<Longrightarrow> run_state m (BeReader_new (bs @ post)) = (v, \<lparr>rd_p = bs @ post, rd_i = length bs, rd_ok = True\<rparr>)"
  by (simp add: reads_def BeReader_new_def)

text \<open>
  \<open>decodes m T\<close>: whatever the buffer, if the reader is still \<open>ok\<close> after \<open>m\<close>, the bytes
  it has consumed and the value it has returned are related by \<open>T\<close>.
\<close>

definition decodes :: "(BeReader, 'a) state \<Rightarrow> ('a \<Rightarrow> bytes \<Rightarrow> bool) \<Rightarrow> bool" where
  "decodes m T \<longleftrightarrow>
    (\<forall>r v r'. run_state m r = (v, r') \<and> rd_i r \<le> length (rd_p r) \<longrightarrow>
       rd_p r' = rd_p r \<and> rd_i r \<le> rd_i r' \<and> rd_i r' \<le> length (rd_p r) \<and>
       (rd_ok r' \<longrightarrow> rd_ok r \<and> T v (take (rd_i r' - rd_i r) (drop (rd_i r) (rd_p r)))))"

lemma decodes_return [codec_intro]: "decodes (State_Monad.return v) (\<lambda>w t. w = v \<and> t = [])"
  by (simp add: decodes_def)

lemma decodes_weaken:
  "decodes m T \<Longrightarrow> (\<And>v t. T v t \<Longrightarrow> U v t) \<Longrightarrow> decodes m U"
  unfolding decodes_def by blast

lemma decodesD:
  assumes "decodes m T" and "run_state m r = (v, r')" and "rd_i r \<le> length (rd_p r)"
  shows "rd_p r' = rd_p r \<and> rd_i r \<le> rd_i r' \<and> rd_i r' \<le> length (rd_p r) \<and>
    (rd_ok r' \<longrightarrow> rd_ok r \<and> T v (take (rd_i r' - rd_i r) (drop (rd_i r) (rd_p r))))"
  by (rule assms(1) [unfolded decodes_def, rule_format, OF conjI [OF assms(2,3)]])

lemma take_take_drop:
  "i \<le> j \<Longrightarrow> j \<le> k \<Longrightarrow> take (k - i) (drop i p) = take (j - i) (drop i p) @ take (k - j) (drop j p)"
proof -
  assume "i \<le> j" "j \<le> k"
  then have "k - i = (j - i) + (k - j)" "drop j p = drop (j - i) (drop i p)" by simp_all
  then show ?thesis by (metis take_add)
qed

lemma decodes_bind [codec_intro]:
  assumes "decodes m T" and "\<And>x. decodes (f x) (U x)"
  shows "decodes (m \<bind> f) (\<lambda>w t. \<exists>x a b. T x a \<and> U x w b \<and> t = a @ b)"
  unfolding decodes_def
proof (intro allI impI)
  fix r :: BeReader and w r''
  assume run: "run_state (m \<bind> f) r = (w, r'') \<and> rd_i r \<le> length (rd_p r)"
  obtain x r' where m: "run_state m r = (x, r')" by fastforce
  with run have f: "run_state (f x) r' = (w, r'')" by simp
  note r' = decodesD [OF assms(1) m conjunct2 [OF run]]
  from r' have "rd_i r' \<le> length (rd_p r')" by simp
  note r'' = decodesD [OF assms(2) f this]
  have "take (rd_i r'' - rd_i r) (drop (rd_i r) (rd_p r)) =
      take (rd_i r' - rd_i r) (drop (rd_i r) (rd_p r)) @ take (rd_i r'' - rd_i r') (drop (rd_i r') (rd_p r))"
    using r' r'' by (intro take_take_drop) simp_all
  then show "rd_p r'' = rd_p r \<and> rd_i r \<le> rd_i r'' \<and> rd_i r'' \<le> length (rd_p r) \<and>
      (rd_ok r'' \<longrightarrow> rd_ok r \<and> (\<exists>x a b. T x a \<and> U x w b \<and>
         take (rd_i r'' - rd_i r) (drop (rd_i r) (rd_p r)) = a @ b))"
    using r' r'' by auto
qed

lemma decodes_run:
  assumes "decodes m T" and "run_state m (BeReader_new d) = (v, r)" and "rd_ok r"
  shows "\<exists>t post. d = t @ post \<and> T v t"
proof -
  have "T v (take (rd_i r) d)"
    using decodesD [OF assms(1,2)] assms(3) by (simp add: BeReader_new_def)
  then show ?thesis by (metis append_take_drop_id)
qed

locale wire_codec =
  fixes put :: "bytes \<Rightarrow> 'a \<Rightarrow> bytes"
    and get :: "(BeReader, 'a) state"
  assumes put_append: "put out v = out @ put [] v"
    and get_put: "reads get (put [] v) v"
    and get_decodes: "decodes get (\<lambda>v t. t = put [] v)"
begin

lemma foldl_put: "foldl put out xs = out @ concat (map (put []) xs)"
proof (induction xs arbitrary: out)
  case (Cons x xs)
  then show ?case by (simp add: put_append [of out x])
qed simp

lemma repeat_get: "reads (r_repeat (length xs) get) (foldl put [] xs) xs"
proof (induction xs)
  case (Cons x xs)
  have "reads (get \<bind> (\<lambda>x. r_repeat (length xs) get \<bind> (\<lambda>xs. State_Monad.return (x # xs))))
      (put [] x @ foldl put [] xs @ []) (x # xs)"
    by (intro reads_bind [OF get_put] reads_bind [OF Cons] reads_return)
  then show ?case by (simp add: foldl_put)
qed (simp add: reads_return)

lemma repeat_decodes:
  "decodes (r_repeat n get) (\<lambda>vs t. length vs = n \<and> t = foldl put [] vs)"
proof (induction n)
  case 0
  then show ?case by (simp add: decodes_def)
next
  case (Suc n)
  show ?case
    unfolding r_repeat.simps
    by (rule decodes_weaken, (rule decodes_bind get_decodes Suc decodes_return)+)
      (auto simp: foldl_put)
qed

end

lemma r_u8_reads: "reads r_u8 [v] v"
  by (auto simp: reads_def r_u8_def dest: nth_via_drop arg_cong [where f = length])

lemma r_u16_reads: "reads r_u16 [hi8 v, lo8 v] v"
proof -
  have "run_state r_u16 r = (v, r\<lparr>rd_i := rd_i r + 2\<rparr>)"
    if d: "drop (rd_i r) (rd_p r) = [hi8 v, lo8 v] @ post" for r :: BeReader and post
  proof -
    from d have "rd_i r + 2 \<le> length (rd_p r)"
      by (auto dest: arg_cong [where f = length])
    moreover from d have "rd_p r ! rd_i r = hi8 v" "rd_p r ! (rd_i r + 1) = lo8 v"
      by (metis append_Cons nth_via_drop)
        (metis (no_types, lifting) d append_Cons nth_Cons_0 nth_Cons_Suc nth_drop One_nat_def
          calculation add_leD1)
    ultimately show ?thesis by (simp add: r_u16_def)
  qed
  then show ?thesis by (auto simp: reads_def)
qed

lemma take1_drop: "i < length p \<Longrightarrow> take (Suc 0) (drop i p) = [p ! i]"
  by (simp add: take_Suc hd_drop_conv_nth)

lemma take2_drop: "i + 2 \<le> length p \<Longrightarrow> take 2 (drop i p) = [p ! i, p ! Suc i]"
  by (simp add: numeral_2_eq_2 take_Suc hd_drop_conv_nth tl_drop drop_Suc [symmetric])

lemma r_u8_decodes: "decodes r_u8 (\<lambda>v t. t = [v])"
  by (auto simp: decodes_def r_u8_def take1_drop split: if_splits)

lemma r_u16_decodes: "decodes r_u16 (\<lambda>v t. t = [hi8 v, lo8 v])"
  by (auto simp: decodes_def r_u16_def take2_drop split: if_splits)

interpretation be8: wire_codec w_u8 r_u8
  by unfold_locales (simp_all add: w_u8_def r_u8_reads r_u8_decodes)

interpretation be16: wire_codec w_u16 r_u16
  by unfold_locales (simp_all add: w_u16_def r_u16_reads r_u16_decodes)


section \<open>Payload round trips\<close>

lemma AnalogResponse_serialize_append:
  "AnalogResponse_serialize a info = info @ AnalogResponse_serialize a []"
  by (simp add: AnalogResponse_serialize_def Let_def be8.put_append [of info] w_i16_def
      be16.foldl_put w_u8_def w_u16_def)

lemma AlarmResponse_serialize_append:
  "AlarmResponse_serialize a info = info @ AlarmResponse_serialize a []"
  by (simp add: AlarmResponse_serialize_def Let_def be8.foldl_put w_u8_def)

lemma SystemParameterResponse_serialize_append:
  "SystemParameterResponse_serialize s info = info @ SystemParameterResponse_serialize s []"
  by (simp add: SystemParameterResponse_serialize_def Let_def w_i16_def w_u8_def w_u16_def)

lemma AnalogResponse_text:
  "AnalogResponse_serialize a [] =
     [a_infoflag a] @ [a_command a] @ [word_of_nat (length (a_cell_voltages_mv a))] @
     foldl w_u16 [] (a_cell_voltages_mv a) @ [word_of_nat (length (a_temperatures_k10 a))] @
     foldl w_u16 [] (a_temperatures_k10 a) @
     [hi8 (a_current_01a a), lo8 (a_current_01a a)] @
     [hi8 (a_module_voltage_mv a), lo8 (a_module_voltage_mv a)] @
     [hi8 (a_remain_capacity_mah a), lo8 (a_remain_capacity_mah a)] @ [a_user_defined_count a] @
     [hi8 (a_total_capacity_mah a), lo8 (a_total_capacity_mah a)] @
     [hi8 (a_cycle_count a), lo8 (a_cycle_count a)] @ []"
  by (simp add: AnalogResponse_serialize_def Let_def w_i16_def be16.foldl_put w_u8_def w_u16_def)

lemma unat_count: "n \<le> 255 \<Longrightarrow> unat (word_of_nat n :: u8) = n"
  by (simp add: unat_of_nat)

lemma AnalogResponse_roundtrip:
  assumes "length (a_cell_voltages_mv a) \<le> 255" and "length (a_temperatures_k10 a) \<le> 255"
  shows "AnalogResponse_deserialize (AnalogResponse_serialize a [] @ post) = (True, a)"
proof -
  have cells: "reads (r_repeat (unat (word_of_nat (length (a_cell_voltages_mv a)) :: u8)) r_u16)
      (foldl w_u16 [] (a_cell_voltages_mv a)) (a_cell_voltages_mv a)"
    unfolding unat_count [OF assms(1)] by (rule be16.repeat_get)
  have temps: "reads (r_repeat (unat (word_of_nat (length (a_temperatures_k10 a)) :: u8)) r_u16)
      (foldl w_u16 [] (a_temperatures_k10 a)) (a_temperatures_k10 a)"
    unfolding unat_count [OF assms(2)] by (rule be16.repeat_get)
  have "reads AnalogResponse_reader (AnalogResponse_serialize a [])
      \<lparr>a_infoflag = a_infoflag a, a_command = a_command a, a_cell_voltages_mv = a_cell_voltages_mv a,
       a_temperatures_k10 = a_temperatures_k10 a, a_current_01a = a_current_01a a,
       a_module_voltage_mv = a_module_voltage_mv a, a_remain_capacity_mah = a_remain_capacity_mah a,
       a_user_defined_count = a_user_defined_count a, a_total_capacity_mah = a_total_capacity_mah a,
       a_cycle_count = a_cycle_count a\<rparr>"
    unfolding AnalogResponse_reader_def AnalogResponse_text r_i16_def
    by (rule reads_bind r_u8_reads r_u16_reads cells temps reads_return)+
  then show ?thesis
    by (simp add: AnalogResponse_deserialize_def reads_run)
qed

lemma SystemParameterResponse_text:
  "SystemParameterResponse_serialize s [] =
     [sp_infoflag s] @
     [hi8 (sp_cell_high_voltage_limit_mv s), lo8 (sp_cell_high_voltage_limit_mv s)] @
     [hi8 (sp_cell_low_voltage_limit_mv s), lo8 (sp_cell_low_voltage_limit_mv s)] @
     [hi8 (sp_cell_under_voltage_limit_mv s), lo8 (sp_cell_under_voltage_limit_mv s)] @
     [hi8 (sp_charge_high_temp_k10 s), lo8 (sp_charge_high_temp_k10 s)] @
     [hi8 (sp_charge_low_temp_k10 s), lo8 (sp_charge_low_temp_k10 s)] @
     [hi8 (sp_charge_current_limit_01a s), lo8 (sp_charge_current_limit_01a s)] @
     [hi8 (sp_module_high_voltage_limit_mv s), lo8 (sp_module_high_voltage_limit_mv s)] @
     [hi8 (sp_module_low_voltage_limit_mv s), lo8 (sp_module_low_voltage_limit_mv s)] @
     [hi8 (sp_module_under_voltage_limit_mv s), lo8 (sp_module_under_voltage_limit_mv s)] @
     [hi8 (sp_discharge_high_temp_k10 s), lo8 (sp_discharge_high_temp_k10 s)] @
     [hi8 (sp_discharge_low_temp_k10 s), lo8 (sp_discharge_low_temp_k10 s)] @
     [hi8 (sp_discharge_current_limit_01a s), lo8 (sp_discharge_current_limit_01a s)] @ []"
  by (simp add: SystemParameterResponse_serialize_def Let_def w_i16_def w_u8_def w_u16_def)

lemma length_SystemParameterResponse [simp]: "length (SystemParameterResponse_serialize s []) = 25"
  by (simp add: SystemParameterResponse_text)

lemma SystemParameterResponse_roundtrip:
  "SystemParameterResponse_deserialize (SystemParameterResponse_serialize s [] @ post) = (True, s)"
proof -
  have "reads SystemParameterResponse_reader (SystemParameterResponse_serialize s [])
      \<lparr>sp_infoflag = sp_infoflag s, sp_cell_high_voltage_limit_mv = sp_cell_high_voltage_limit_mv s,
       sp_cell_low_voltage_limit_mv = sp_cell_low_voltage_limit_mv s,
       sp_cell_under_voltage_limit_mv = sp_cell_under_voltage_limit_mv s,
       sp_charge_high_temp_k10 = sp_charge_high_temp_k10 s,
       sp_charge_low_temp_k10 = sp_charge_low_temp_k10 s,
       sp_charge_current_limit_01a = sp_charge_current_limit_01a s,
       sp_module_high_voltage_limit_mv = sp_module_high_voltage_limit_mv s,
       sp_module_low_voltage_limit_mv = sp_module_low_voltage_limit_mv s,
       sp_module_under_voltage_limit_mv = sp_module_under_voltage_limit_mv s,
       sp_discharge_high_temp_k10 = sp_discharge_high_temp_k10 s,
       sp_discharge_low_temp_k10 = sp_discharge_low_temp_k10 s,
       sp_discharge_current_limit_01a = sp_discharge_current_limit_01a s\<rparr>"
    unfolding SystemParameterResponse_reader_def SystemParameterResponse_text r_i16_def
    by (rule reads_bind r_u8_reads r_u16_reads reads_return)+
  then show ?thesis
    by (simp add: SystemParameterResponse_deserialize_def reads_run)
qed


section \<open>Nothing else is accepted\<close>

lemma AnalogResponse_decodes:
  "decodes AnalogResponse_reader (\<lambda>a t. t = AnalogResponse_serialize a [] \<and>
     length (a_cell_voltages_mv a) \<le> 255 \<and> length (a_temperatures_k10 a) \<le> 255)"
proof -
  have count: "unat (n :: u8) \<le> 255" for n
    using unat_u8_less [of n] by simp
  show ?thesis
    unfolding AnalogResponse_reader_def r_i16_def
    by (rule decodes_weaken,
        (rule decodes_bind r_u8_decodes r_u16_decodes be16.repeat_decodes decodes_return)+)
      (auto simp: AnalogResponse_text count)
qed

text \<open>The analog payload reader accepts exactly the payloads the serializer writes, with
  anything after them: a payload it accepts is the encoding of the response it returns, and
  both counted lists fit their count byte.\<close>

theorem analog_payload_accepts:
  "AnalogResponse_deserialize info = (True, a) \<longleftrightarrow>
     length (a_cell_voltages_mv a) \<le> 255 \<and> length (a_temperatures_k10 a) \<le> 255 \<and>
     (\<exists>post. info = AnalogResponse_serialize a [] @ post)"
proof
  assume "AnalogResponse_deserialize info = (True, a)"
  then obtain r where "run_state AnalogResponse_reader (BeReader_new info) = (a, r)" "rd_ok r"
    by (auto simp: AnalogResponse_deserialize_def split: prod.splits)
  from decodes_run [OF AnalogResponse_decodes this]
  show "length (a_cell_voltages_mv a) \<le> 255 \<and> length (a_temperatures_k10 a) \<le> 255 \<and>
      (\<exists>post. info = AnalogResponse_serialize a [] @ post)" by blast
qed (use AnalogResponse_roundtrip in blast)

lemma SystemParameterResponse_decodes:
  "decodes SystemParameterResponse_reader (\<lambda>s t. t = SystemParameterResponse_serialize s [])"
  unfolding SystemParameterResponse_reader_def r_i16_def
  by (rule decodes_weaken, (rule decodes_bind r_u8_decodes r_u16_decodes decodes_return)+)
    (auto simp: SystemParameterResponse_text)

text \<open>The same for the system-parameter payload.\<close>

theorem system_param_payload_accepts:
  "SystemParameterResponse_deserialize info = (True, s) \<longleftrightarrow>
     (\<exists>post. info = SystemParameterResponse_serialize s [] @ post)"
proof
  assume "SystemParameterResponse_deserialize info = (True, s)"
  then obtain r where "run_state SystemParameterResponse_reader (BeReader_new info) = (s, r)" "rd_ok r"
    by (auto simp: SystemParameterResponse_deserialize_def split: prod.splits)
  from decodes_run [OF SystemParameterResponse_decodes this]
  show "\<exists>post. info = SystemParameterResponse_serialize s [] @ post" by blast
qed (use SystemParameterResponse_roundtrip in blast)

end
