(* ===== verification/Pylontech_Respond.thy ===== *)
theory Pylontech_Respond
  imports Pylontech_Payload Jk_Data "HOL-Library.Signed_Division"
begin

text \<open>
  The responders of src/pylontech.cpp: unit conversions, the capacity scaling, the split of
  a capacity into virtual modules, and the four response builders the inverter side uses.

  C++ integer division truncates towards zero (\<open>sdiv\<close> on the signed value); a division by
  zero is undefined, so \<open>scale_capacity_to_u16\<close> returns \<open>None\<close> there, and the analog
  responder with it.
\<close>

section \<open>Conversions\<close>

definition kUserDefinedUS2000B :: u8 where "kUserDefinedUS2000B = 2"
definition kAlarmStatusByte1Normal :: u8 where "kAlarmStatusByte1Normal = 0x00"
definition kAlarmStatusByte2Normal :: u8 where "kAlarmStatusByte2Normal = 0x0E"
definition kAlarmStatusByte3Normal :: u8 where "kAlarmStatusByte3Normal = 0x00"
definition kCapU16Max :: u32 where "kCapU16Max = 65000"

definition echoed_cmd_value :: "PylontechFrame \<Rightarrow> u8" where
  "echoed_cmd_value req = (if f_info req = [] then f_adr req else f_info req ! 0)"

definition ok_response :: "PylontechFrame \<Rightarrow> PylontechFrame" where
  "ok_response req =
     default_frame\<lparr>f_ver := f_ver req, f_adr := f_adr req, f_cid1 := 0x46, f_cid2 := 0x00\<rparr>"

definition dC_to_k10 :: "i16 \<Rightarrow> u16" where
  "dC_to_k10 dC = word_of_int (sint dC + 2731)"

definition clamp_u16 :: "u32 \<Rightarrow> u16" where
  "clamp_u16 v = ucast (min v 0xFFFF)"

definition clamp_i16 :: "i32 \<Rightarrow> i16" where
  "clamp_i16 v =
     (if sint v > 32767 then 32767
      else if sint v < -32768 then word_of_int (-32768)
      else ucast v)"

definition scale_capacity_to_u16 :: "u32 \<Rightarrow> u32 \<Rightarrow> (u16 \<times> u16) option" where
  "scale_capacity_to_u16 total_mah remain_mah =
     (if total_mah \<le> kCapU16Max then Some (ucast total_mah, ucast remain_mah)
      else let scale = (total_mah + kCapU16Max - 1) div kCapU16Max in
        if scale = 0 then None
        else Some (ucast (total_mah div scale), ucast (remain_mah div scale)))"

definition module_count_for_capacity :: "u32 \<Rightarrow> u8" where
  "module_count_for_capacity total_mah =
     (if total_mah \<le> kCapU16Max then 1
      else let n = (total_mah + kCapU16Max - 1) div kCapU16Max in ucast (min n 0xFF))"

definition module_voltage_from_cell :: "u16 \<Rightarrow> u8 \<Rightarrow> u16" where
  "module_voltage_from_cell cell_mv cell_cnt =
     (let v = (ucast cell_mv :: u32) * ucast cell_cnt in clamp_u16 v)"

section \<open>Responses\<close>

definition analog_of :: "PylontechFrame \<Rightarrow> JkCellInfo \<Rightarrow> JkPackInfo \<Rightarrow> AnalogResponse option" where
  "analog_of req cells pack =
    (let r = AnalogResponse_default;
         r = r\<lparr>a_command := echoed_cmd_value req\<rparr>;
         r = r\<lparr>a_user_defined_count := kUserDefinedUS2000B\<rparr>;
         r = r\<lparr>a_cell_voltages_mv := voltages_mv cells\<rparr>;
         r = r\<lparr>a_temperatures_k10 := [dC_to_k10 (battery_temp1_dC pack),
                                      dC_to_k10 (battery_temp2_dC pack),
                                      dC_to_k10 (power_tube_temp_dC pack)]\<rparr>;
         r = r\<lparr>a_current_01a := clamp_i16 (word_of_int (sint (current_ma pack) sdiv 100))\<rparr>;
         r = r\<lparr>a_module_voltage_mv := clamp_u16 (word_of_int (max (sint (voltage_mv pack)) 0))\<rparr>
     in map_option (\<lambda>(total_mah, remain_mah).
          r\<lparr>a_remain_capacity_mah := remain_mah, a_total_capacity_mah := total_mah,
            a_cycle_count := clamp_u16 (cycle_count pack)\<rparr>)
          (scale_capacity_to_u16 (total_capacity_mah pack) (remaining_capacity_mah pack)))"

definition build_analog_response :: "PylontechFrame \<Rightarrow> JkCellInfo \<Rightarrow> JkPackInfo \<Rightarrow> bytes option" where
  "build_analog_response req cells pack =
     map_option (\<lambda>r.
       let f = ok_response req;
           f = f\<lparr>f_info := AnalogResponse_serialize r (f_info f)\<rparr>
       in build_pylontech f) (analog_of req cells pack)"

definition build_alarm_response :: "PylontechFrame \<Rightarrow> JkCellInfo \<Rightarrow> bytes" where
  "build_alarm_response req cells =
    (let r = AlarmResponse_default;
         r = r\<lparr>al_command := echoed_cmd_value req\<rparr>;
         r = r\<lparr>al_status_byte_1 := kAlarmStatusByte1Normal\<rparr>;
         r = r\<lparr>al_status_byte_2 := kAlarmStatusByte2Normal\<rparr>;
         r = r\<lparr>al_status_byte_3 := kAlarmStatusByte3Normal\<rparr>;
         r = r\<lparr>al_cell_voltage_states := replicate (length (voltages_mv cells)) 0\<rparr>;
         r = r\<lparr>al_temperature_states := replicate 3 0\<rparr>;
         f = ok_response req;
         f = f\<lparr>f_info := AlarmResponse_serialize r (f_info f)\<rparr>
     in build_pylontech f)"

definition system_param_of :: "JkSettings \<Rightarrow> SystemParameterResponse" where
  "system_param_of limits =
     \<lparr>sp_infoflag = 0,
      sp_cell_high_voltage_limit_mv = cell_ovp_mv limits,
      sp_cell_low_voltage_limit_mv = cell_uvpr_mv limits,
      sp_cell_under_voltage_limit_mv = cell_uvp_mv limits,
      sp_charge_high_temp_k10 = dC_to_k10 (charge_otp_dC limits),
      sp_charge_low_temp_k10 = dC_to_k10 (charge_utp_dC limits),
      sp_charge_current_limit_01a = clamp_i16 (max_charge_current_ma limits div 100),
      sp_module_high_voltage_limit_mv = module_voltage_from_cell (cell_ovp_mv limits) (cell_count limits),
      sp_module_low_voltage_limit_mv = module_voltage_from_cell (cell_uvpr_mv limits) (cell_count limits),
      sp_module_under_voltage_limit_mv = module_voltage_from_cell (cell_uvp_mv limits) (cell_count limits),
      sp_discharge_high_temp_k10 = dC_to_k10 (discharge_otp_dC limits),
      sp_discharge_low_temp_k10 = dC_to_k10 (charge_utp_dC limits),
      sp_discharge_current_limit_01a = clamp_i16 (- (max_discharge_current_ma limits div 100))\<rparr>"

definition build_system_param_response :: "PylontechFrame \<Rightarrow> JkSettings \<Rightarrow> bytes" where
  "build_system_param_response req limits =
    (let r = system_param_of limits;
         f = ok_response req;
         f = f\<lparr>f_info := SystemParameterResponse_serialize r (f_info f)\<rparr>
     in build_pylontech f)"

definition chgmgmt_of :: "PylontechFrame \<Rightarrow> JkPackInfo \<Rightarrow> JkSettings \<Rightarrow> ChargeManagementResponse" where
  "chgmgmt_of req pack limits =
     \<lparr>cm_command = echoed_cmd_value req,
      cm_charge_voltage_limit_mv = module_voltage_from_cell (cell_ovp_mv limits) (cell_count limits),
      cm_discharge_voltage_limit_mv = module_voltage_from_cell (cell_uvpr_mv limits) (cell_count limits),
      cm_charge_current_limit_01a = clamp_i16 (max_charge_current_ma limits div 100),
      cm_discharge_current_limit_01a = clamp_i16 (- (max_discharge_current_ma limits div 100)),
      cm_charge_enabled = charging_enabled pack,
      cm_discharge_enabled = discharging_enabled pack,
      cm_request_charge_immediately = False,
      cm_request_charge_immediately_low = False,
      cm_request_full_charge = False\<rparr>"

definition build_chgmgmt_response :: "PylontechFrame \<Rightarrow> JkPackInfo \<Rightarrow> JkSettings \<Rightarrow> bytes" where
  "build_chgmgmt_response req pack limits =
    (let r = chgmgmt_of req pack limits;
         f = ok_response req;
         f = f\<lparr>f_info := ChargeManagementResponse_serialize r (f_info f)\<rparr>
     in build_pylontech f)"

section \<open>Conversions keep what fits\<close>

lemma unat_clamp_u16: "unat (clamp_u16 v) = min (unat v) 65535"
  by (auto simp: clamp_u16_def min_def word_le_nat_alt unsigned_ucast_eq take_bit_nat_eq_self)

lemma sint_clamp_i16: "sint (clamp_i16 v) = max (-32768) (min 32767 (sint v))"
proof -
  have "sint (ucast v :: i16) = sint v" if "-32768 \<le> sint v" "sint v \<le> 32767"
  proof -
    have "sint (ucast v :: i16) = signed_take_bit 15 (uint v)"
      by (simp add: signed_ucast_eq)
    also have "\<dots> = signed_take_bit 15 (sint v)"
      by (simp add: uint_sint signed_take_bit_take_bit)
    also have "\<dots> = sint v"
      using that by (intro signed_take_bit_int_eq_self) simp_all
    finally show ?thesis .
  qed
  then show ?thesis by (auto simp: clamp_i16_def)
qed


lemma unat_module_voltage_from_cell:
  "unat (module_voltage_from_cell mv n) = min (unat mv * unat n) 65535"
proof -
  have "unat mv * unat n \<le> 65535 * 255"
    using unat_u16_less [of mv] unat_u8_less [of n] by (intro mult_le_mono) simp_all
  moreover have "take_bit 32 (unat mv) = unat mv" "take_bit 32 (unat n) = unat n"
    using unat_u16_less [of mv] unat_u8_less [of n] by (simp_all add: take_bit_nat_eq_self)
  ultimately have "unat ((ucast mv :: u32) * ucast n) = unat mv * unat n"
    by (simp add: unat_word_ariths unsigned_ucast_eq)
  then show ?thesis by (simp add: module_voltage_from_cell_def unat_clamp_u16)
qed

section \<open>Capacity scaling and module counts\<close>

lemma unat_kCapU16Max: "unat kCapU16Max = 65000"
  by (simp add: kCapU16Max_def)

lemma ceil_div_word:
  assumes "unat t \<le> 4294902296"
  shows "unat ((t + kCapU16Max - 1) div kCapU16Max) = (unat t + 64999) div 65000"
proof -
  have e: "t + kCapU16Max - 1 = t + 64999" by (simp add: kCapU16Max_def)
  have "unat (t + 64999) = unat t + 64999"
    using assms by (simp add: unat_word_ariths)
  then show ?thesis unfolding e by (simp add: unat_div_distrib unat_kCapU16Max)
qed

lemma ceil_div_word_wraps:
  assumes "4294902296 < unat t"
  shows "(t + kCapU16Max - 1) div kCapU16Max = (0 :: u32)"
proof -
  have e: "t + kCapU16Max - 1 = t + 64999" by (simp add: kCapU16Max_def)
  have "unat (t + 64999) = unat t + 64999 - 4294967296"
    using assms unat_u32_less [of t] by (simp add: unat_word_ariths mod_if)
  then have "unat (t + 64999) < 65000" using unat_u32_less [of t] by linarith
  then have "unat ((t + kCapU16Max - 1) div kCapU16Max) = 0"
    unfolding e by (simp add: unat_div_distrib unat_kCapU16Max)
  then show ?thesis by (simp only: unat_eq_zero)
qed

lemma le_kCapU16Max: "t \<le> kCapU16Max \<longleftrightarrow> unat t \<le> 65000"
  by (simp add: word_le_nat_alt kCapU16Max_def)

lemma unat_ucast_16: "unat (v :: u32) < 65536 \<Longrightarrow> unat (ucast v :: u16) = unat v"
  by (simp add: unsigned_ucast_eq take_bit_nat_eq_self)

lemma unat_ucast_mod: "unat (ucast (v :: u32) :: u16) = unat v mod 65536"
  by (simp add: unsigned_ucast_eq take_bit_eq_mod)

definition cap_scale :: "nat \<Rightarrow> nat" where
  "cap_scale t = (if t \<le> 65000 then 1 else (t + 64999) div 65000)"

lemma cap_scale_bounds: "1 \<le> cap_scale t" "t \<le> cap_scale t * 65000" "t div cap_scale t \<le> 65000"
proof -
  show "1 \<le> cap_scale t"
    using div_le_mono [of 65000 "t + 64999" 65000] by (auto simp: cap_scale_def)
  have "t + 64999 = 65000 * ((t + 64999) div 65000) + (t + 64999) mod 65000"
    by (rule mult_div_mod_eq [symmetric])
  moreover have "(t + 64999) mod 65000 < 65000" by simp
  ultimately have "t \<le> (t + 64999) div 65000 * 65000" by linarith
  then show t: "t \<le> cap_scale t * 65000" by (auto simp: cap_scale_def)
  show "t div cap_scale t \<le> 65000"
    using div_le_mono [OF t, of "cap_scale t"] \<open>1 \<le> cap_scale t\<close> by simp
qed

text \<open>C37: For every total capacity up to 4 294 902 296 mAh, whatever the remaining capacity, the two
  16-bit capacity fields are the given values divided, rounding down, by one common scale, the
  remaining one modulo 65536; the total field is at most 65000.  If the remaining capacity is not
  above the total, nothing is cut off and the remaining field is not above the total field
  either, so their ratio (the state of charge) survives.\<close>

theorem capacity_scaling_keeps_ratio:
  assumes "unat total_mah \<le> 4294902296"
  shows "\<exists>t r. scale_capacity_to_u16 total_mah remain_mah = Some (t, r) \<and>
    unat t = unat total_mah div cap_scale (unat total_mah) \<and> unat t \<le> 65000 \<and>
    unat r = unat remain_mah div cap_scale (unat total_mah) mod 65536 \<and>
    (unat remain_mah \<le> unat total_mah \<longrightarrow>
       unat r = unat remain_mah div cap_scale (unat total_mah) \<and> unat r \<le> unat t)"
proof -
  let ?s = "cap_scale (unat total_mah)"
  have le: "unat remain_mah div ?s \<le> unat total_mah div ?s" if "unat remain_mah \<le> unat total_mah"
    using that by (rule div_le_mono)
  have t: "unat total_mah div ?s \<le> 65000" by (rule cap_scale_bounds(3))
  have "\<exists>t r. scale_capacity_to_u16 total_mah remain_mah = Some (t, r) \<and>
      unat t = unat total_mah div ?s \<and> unat r = unat remain_mah div ?s mod 65536"
  proof (cases "unat total_mah \<le> 65000")
    case True
    then show ?thesis
      by (simp add: scale_capacity_to_u16_def le_kCapU16Max cap_scale_def unat_ucast_mod)
  next
    case False
    define s where "s = (total_mah + kCapU16Max - 1) div kCapU16Max"
    have s: "unat s = ?s"
      using ceil_div_word [OF assms] False by (simp add: s_def cap_scale_def)
    then have "s \<noteq> 0" using cap_scale_bounds(1) [of "unat total_mah"] by auto
    then show ?thesis
      using False t
      by (simp add: scale_capacity_to_u16_def le_kCapU16Max Let_def s_def [symmetric]
          unat_ucast_mod unat_div_distrib s)
  qed
  then show ?thesis using t le by fastforce
qed

lemma scale_wraps:
  "scale_capacity_to_u16 total_mah remain_mah = None \<longleftrightarrow> 4294902296 < unat total_mah"
proof (cases "unat total_mah \<le> 65000")
  case True
  then show ?thesis by (simp add: scale_capacity_to_u16_def le_kCapU16Max)
next
  case False
  show ?thesis
  proof (cases "4294902296 < unat total_mah")
    case True
    then show ?thesis
      using False ceil_div_word_wraps [OF True] by (simp add: scale_capacity_to_u16_def le_kCapU16Max)
  next
    case small: False
    then have "unat ((total_mah + kCapU16Max - 1) div kCapU16Max) \<noteq> 0"
      using False ceil_div_word [of total_mah] by simp
    then have "(total_mah + kCapU16Max - 1) div kCapU16Max \<noteq> 0" by (metis unat_0)
    then show ?thesis using False small by (simp add: scale_capacity_to_u16_def le_kCapU16Max Let_def)
  qed
qed

lemma unat_module_count:
  assumes "unat t \<le> 4294902296"
  shows "unat (module_count_for_capacity t) = min 255 (cap_scale (unat t))"
proof (cases "unat t \<le> 65000")
  case True
  then show ?thesis by (simp add: module_count_for_capacity_def le_kCapU16Max cap_scale_def)
next
  case False
  have "unat (ucast (min n 0xFF) :: u8) = min (unat n) 255" for n :: u32
    by (auto simp: min_def word_le_nat_alt unsigned_ucast_eq take_bit_nat_eq_self)
  then show ?thesis
    using False ceil_div_word [OF assms]
    by (simp add: module_count_for_capacity_def le_kCapU16Max cap_scale_def Let_def min.commute)
qed

text \<open>
  Up to 255 modules of 65 Ah: the modules cover the capacity, one module less would not,
  and the share of one module fits the 16-bit field without scaling.
\<close>

text \<open>Up to 16575 Ah the module count is the least number of modules of at most 65000 mAh
  that covers the battery, so the share of each module fits its 16-bit field.\<close>

theorem module_count_least_cover:
  assumes "unat t \<le> 255 * 65000"
  shows "let n = unat (module_count_for_capacity t) in
    1 \<le> n \<and> unat t \<le> n * 65000 \<and> unat t div n \<le> 65000 \<and> (1 < n \<longrightarrow> (n - 1) * 65000 < unat t)"
proof -
  have n: "unat (module_count_for_capacity t) = cap_scale (unat t)"
    using unat_module_count [of t] assms by (simp add: cap_scale_def)
  have "1 < cap_scale (unat t) \<Longrightarrow> (cap_scale (unat t) - 1) * 65000 < unat t"
    by (auto simp: cap_scale_def split: if_splits)
  then show ?thesis using cap_scale_bounds [of "unat t"] by (simp add: n)
qed


section \<open>What the inverter decodes\<close>

lemma analog_of_fields:
  assumes "analog_of req cells pack = Some a"
  shows "a_command a = echoed_cmd_value req" "a_cell_voltages_mv a = voltages_mv cells"
    "a_temperatures_k10 a = [dC_to_k10 (battery_temp1_dC pack), dC_to_k10 (battery_temp2_dC pack),
       dC_to_k10 (power_tube_temp_dC pack)]"
    "a_current_01a a = clamp_i16 (word_of_int (sint (current_ma pack) sdiv 100))"
    "a_module_voltage_mv a = clamp_u16 (word_of_int (max (sint (voltage_mv pack)) 0))"
    "scale_capacity_to_u16 (total_capacity_mah pack) (remaining_capacity_mah pack) =
       Some (a_total_capacity_mah a, a_remain_capacity_mah a)"
    "a_cycle_count a = clamp_u16 (cycle_count pack)" "a_user_defined_count a = 2"
  using assms by (auto simp: analog_of_def Let_def kUserDefinedUS2000B_def)

lemma sdiv_100_range:
  "sint (word_of_int (sint (c :: i32) sdiv 100) :: i32) = sint c sdiv 100"
  "\<bar>sint c sdiv 100\<bar> = \<bar>sint c\<bar> div 100"
proof -
  show a: "\<bar>sint c sdiv 100\<bar> = \<bar>sint c\<bar> div 100"
    by (simp add: signed_divide_int_def abs_mult pos_imp_zdiv_nonneg_iff)
      (auto simp: sgn_if)
  have "\<bar>sint c\<bar> div 100 \<le> 2147483648 div 100"
    using sint_i32_range [of c] by (intro zdiv_mono1) auto
  with a have "\<bar>sint c sdiv 100\<bar> \<le> 21474836" by simp
  then show "sint (word_of_int (sint c sdiv 100) :: i32) = sint c sdiv 100"
    by (intro sint_word_of_int_i32) auto
qed

lemma analog_response_on_the_wire_fields:
  assumes "build_analog_response req cells pack = Some wire" and "length (voltages_mv cells) \<le> 255"
  shows "\<exists>f a. try_parse_pylontech (wire @ rest) out = Some (int (length wire), f) \<and>
    f_ver f = f_ver req \<and> f_adr f = f_adr req \<and> f_cid1 f = 0x46 \<and> f_cid2 f = 0 \<and>
    analog_of req cells pack = Some a \<and> AnalogResponse_deserialize (f_info f) = (True, a)"
proof -
  from assms(1) obtain a where a: "analog_of req cells pack = Some a"
    and w: "wire = build_pylontech ((ok_response req)\<lparr>f_info := AnalogResponse_serialize a []\<rparr>)"
    by (auto simp: build_analog_response_def Let_def ok_response_def default_frame_def)
  have "AnalogResponse_deserialize (AnalogResponse_serialize a [] @ []) = (True, a)"
    using assms(2) analog_of_fields [OF a] by (intro AnalogResponse_roundtrip) simp_all
  then show ?thesis
    using a parse_build [of "(ok_response req)\<lparr>f_info := AnalogResponse_serialize a []\<rparr>" rest out]
    by (auto simp: w ok_response_def default_frame_def)
qed

text \<open>C36: An analog response for at most 255 cell voltages (the count is one byte; a JK pack has at most
  32) is a frame the parser accepts, addressed as the request was, with return code 0, and its
  payload decodes to the values the response was built from.\<close>

theorem analog_response_on_the_wire:
  assumes "build_analog_response req cells pack = Some wire" and "length (voltages_mv cells) \<le> 255"
  shows "\<exists>f a. try_parse_pylontech (wire @ rest) out = Some (int (length wire), f) \<and>
    f_ver f = f_ver req \<and> f_adr f = f_adr req \<and> f_cid1 f = 0x46 \<and> f_cid2 f = 0 \<and>
    analog_of req cells pack = Some a \<and> AnalogResponse_deserialize (f_info f) = (True, a)"
  using assms by (rule analog_response_on_the_wire_fields)

text \<open>The same for a system-parameter response, for all settings.\<close>

theorem system_param_response_on_the_wire:
  "\<exists>f. try_parse_pylontech (build_system_param_response req lim @ rest) out =
      Some (int (length (build_system_param_response req lim)), f) \<and>
    f_ver f = f_ver req \<and> f_adr f = f_adr req \<and> f_cid1 f = 0x46 \<and> f_cid2 f = 0 \<and>
    SystemParameterResponse_deserialize (f_info f) = (True, system_param_of lim)"
proof -
  let ?f = "(ok_response req)\<lparr>f_info := SystemParameterResponse_serialize (system_param_of lim) []\<rparr>"
  have "build_system_param_response req lim = build_pylontech ?f"
    by (simp add: build_system_param_response_def Let_def ok_response_def default_frame_def)
  moreover have "SystemParameterResponse_deserialize (f_info ?f) = (True, system_param_of lim)"
    using SystemParameterResponse_roundtrip [of "system_param_of lim" "[]"] by simp
  ultimately show ?thesis
    using parse_build [of ?f rest out] by (auto simp: ok_response_def default_frame_def)
qed

text \<open>The status byte of the charge management response: bit 7 charge, bit 6 discharge.\<close>

lemma chgmgmt_text:
  "ChargeManagementResponse_serialize (chgmgmt_of req pack lim) [] =
    (let r = chgmgmt_of req pack lim in
     [cm_command r, hi8 (cm_charge_voltage_limit_mv r), lo8 (cm_charge_voltage_limit_mv r),
      hi8 (cm_discharge_voltage_limit_mv r), lo8 (cm_discharge_voltage_limit_mv r),
      hi8 (cm_charge_current_limit_01a r), lo8 (cm_charge_current_limit_01a r),
      hi8 (cm_discharge_current_limit_01a r), lo8 (cm_discharge_current_limit_01a r),
      (if charging_enabled pack then 0x80 else 0) OR (if discharging_enabled pack then 0x40 else 0)])"
  by (simp add: ChargeManagementResponse_serialize_def Let_def w_u8_def w_u16_def w_i16_def
      chgmgmt_of_def)

section \<open>Properties\<close>

lemma capacity_scaling_keeps_ratio_witness:
  "\<exists>t r. scale_capacity_to_u16 280000 70000 = Some (t, r) \<and> unat t = 56000 \<and> unat r = 14000"
  using capacity_scaling_keeps_ratio [of 280000 70000] by (auto simp: cap_scale_def)

lemma module_count_least_cover_witness:
  "module_count_for_capacity 280000 = 5 \<and> (280000 :: nat) \<le> 5 * 65000 \<and> (5 - 1) * 65000 < (280000 :: nat)"
proof -
  have n: "module_count_for_capacity 280000 = 5" by code_simp
  show ?thesis using module_count_least_cover [of 280000] by (simp add: n)
qed

lemma analog_response_on_the_wire_witness:
  "\<exists>wire f a. build_analog_response default_frame JkCellInfo_default JkPackInfo_default = Some wire \<and>
     try_parse_pylontech wire default_frame = Some (int (length wire), f) \<and>
     AnalogResponse_deserialize (f_info f) = (True, a) \<and> a_total_capacity_mah a = 0"
proof -
  obtain wire where w: "build_analog_response default_frame JkCellInfo_default JkPackInfo_default = Some wire"
    by (auto simp: build_analog_response_def analog_of_def scale_capacity_to_u16_def Let_def
        JkPackInfo_default_def kCapU16Max_def)
  have "length (voltages_mv JkCellInfo_default) \<le> 255" by (simp add: JkCellInfo_default_def)
  from analog_response_on_the_wire [OF w this, of "[]" default_frame] obtain f a where
    fa: "try_parse_pylontech wire default_frame = Some (int (length wire), f)"
      "analog_of default_frame JkCellInfo_default JkPackInfo_default = Some a"
      "AnalogResponse_deserialize (f_info f) = (True, a)" by auto
  have "a_total_capacity_mah a = 0"
    using fa(2) by (auto simp: analog_of_def scale_capacity_to_u16_def Let_def
        JkPackInfo_default_def kCapU16Max_def)
  with w fa show ?thesis by blast
qed

end
