(* ===== verification/Pylontech_Master.thy ===== *)
theory Pylontech_Master
  imports Pylontech_Stream Pylontech_Respond Battery_Protocol
begin

text \<open>
  src/pylontech_master.cpp: the driver that polls a Pylontech battery.  It collects bytes in
  \<open>rx_\<close>, runs the receive loop of \<open>Pylontech_Stream\<close> and turns the analog and the
  system-parameter payloads into the canonical telemetry and settings.
\<close>

section \<open>Conversions\<close>

definition kKelvinOffset_dK :: int where "kKelvinOffset_dK = 2731"

definition k10_to_dC :: "u16 \<Rightarrow> i16" where
  "k10_to_dC k10 = word_of_int (uint k10 - kKelvinOffset_dK)"

text \<open>The locals of the loop of \<open>fill_cell_stats\<close>, and one iteration.\<close>

record CellStats =
  st_sum :: u32
  st_lo :: u16
  st_hi :: u16
  st_lo_idx :: u8
  st_hi_idx :: u8

definition cell_stat_step :: "CellStats \<Rightarrow> nat \<times> u16 \<Rightarrow> CellStats" where
  "cell_stat_step st = (\<lambda>(i, v).
    (let st = st\<lparr>st_sum := st_sum st + ucast v\<rparr>;
         st = (if v > st_hi st then st\<lparr>st_hi := v, st_hi_idx := word_of_nat i\<rparr> else st)
     in if v < st_lo st then st\<lparr>st_lo := v, st_lo_idx := word_of_nat i\<rparr> else st))"

definition fill_cell_stats :: "JkCellInfo \<Rightarrow> JkCellInfo" where
  "fill_cell_stats c =
    (case voltages_mv c of
      [] \<Rightarrow> c
    | v0 # _ \<Rightarrow>
        let st = foldl cell_stat_step
              \<lparr>st_sum = 0, st_lo = v0, st_hi = v0, st_lo_idx = 0, st_hi_idx = 0\<rparr>
              (enumerate 0 (voltages_mv c))
        in c\<lparr>average_voltage_mv := word_of_nat (unat (st_sum st) div length (voltages_mv c)),
             voltage_diff_mv := st_hi st - st_lo st,
             max_voltage_cell_idx := st_hi_idx st,
             min_voltage_cell_idx := st_lo_idx st\<rparr>)"

section \<open>State and operations\<close>

record PylontechMaster =
  pm_wire_adr :: u8
  pm_rx :: bytes
  pm_last_cell_count :: u8

definition master_init :: "u8 \<Rightarrow> PylontechMaster" where
  "master_init adr = \<lparr>pm_wire_adr = adr, pm_rx = [], pm_last_cell_count = 0\<rparr>"

definition master_reset :: "PylontechMaster \<Rightarrow> PylontechMaster" where
  "master_reset m = m\<lparr>pm_rx := []\<rparr>"

definition master_poll_request :: "PylontechMaster \<Rightarrow> bytes" where
  "master_poll_request m = build_analog_request (pm_wire_adr m)"

definition master_settings_request :: "PylontechMaster \<Rightarrow> bytes" where
  "master_settings_request m = build_system_param_request (pm_wire_adr m)"

definition telemetry_of_analog :: "AnalogResponse \<Rightarrow> Telemetry" where
  "telemetry_of_analog a =
    (let temps = a_temperatures_k10 a;
         cells = fill_cell_stats (JkCellInfo_default\<lparr>voltages_mv := a_cell_voltages_mv a\<rparr>);
         p = JkPackInfo_default\<lparr>voltage_mv := ucast (a_module_voltage_mv a),
               current_ma := scast (a_current_01a a) * 100\<rparr>;
         p = (if length temps > 0 then p\<lparr>battery_temp1_dC := k10_to_dC (temps ! 0)\<rparr> else p);
         p = (if length temps > 1 then p\<lparr>battery_temp2_dC := k10_to_dC (temps ! 1)\<rparr> else p);
         p = (if length temps > 2 then p\<lparr>power_tube_temp_dC := k10_to_dC (temps ! 2)\<rparr> else p);
         p = p\<lparr>remaining_capacity_mah := ucast (a_remain_capacity_mah a),
               total_capacity_mah := ucast (a_total_capacity_mah a),
               cycle_count := ucast (a_cycle_count a),
               state_of_charge_pct :=
                 (if a_total_capacity_mah a \<noteq> 0
                  then ucast (min 100 ((ucast (a_remain_capacity_mah a) :: u32) * 100
                                 div ucast (a_total_capacity_mah a)))
                  else 0)\<rparr>
     in \<lparr>t_cells = cells, t_pack = p\<rparr>)"

definition settings_of_system_param :: "SystemParameterResponse \<Rightarrow> u8 \<Rightarrow> JkSettings" where
  "settings_of_system_param sp cells =
     JkSettings_default\<lparr>
       cell_ovp_mv := sp_cell_high_voltage_limit_mv sp,
       cell_uvpr_mv := sp_cell_low_voltage_limit_mv sp,
       cell_uvp_mv := sp_cell_under_voltage_limit_mv sp,
       charge_otp_dC := k10_to_dC (sp_charge_high_temp_k10 sp),
       charge_utp_dC := k10_to_dC (sp_charge_low_temp_k10 sp),
       discharge_otp_dC := k10_to_dC (sp_discharge_high_temp_k10 sp),
       max_charge_current_ma := scast (sp_charge_current_limit_01a sp) * 100,
       max_discharge_current_ma := word_of_int \<bar>sint (sp_discharge_current_limit_01a sp)\<bar> * 100,
       cell_count := cells\<rparr>"

text \<open>The part of the loop body that handles a frame; it reads and writes \<open>last_cell_count_\<close>
  and the result.\<close>

definition master_frame :: "u8 \<Rightarrow> PylontechFrame \<Rightarrow> u8 \<times> Parsed \<Rightarrow> u8 \<times> Parsed" where
  "master_frame adr f = (\<lambda>(last, out).
    (if f_adr f \<noteq> adr then (last, out)
     else if f_cid2 f = 0x42 then
       (let (ok, a) = AnalogResponse_deserialize (f_info f)
        in if \<not> ok then (last, out)
           else (word_of_nat (length (a_cell_voltages_mv a)),
                 out\<lparr>p_telemetry := Some (telemetry_of_analog a)\<rparr>))
     else if f_cid2 f = 0x47 then
       (let (ok, sp) = SystemParameterResponse_deserialize (f_info f)
        in if \<not> ok then (last, out)
           else (last, out\<lparr>p_settings := Some (settings_of_system_param sp last)\<rparr>))
     else (last, out)))"

function master_loop :: "u8 \<Rightarrow> bytes \<Rightarrow> u8 \<times> Parsed \<Rightarrow> (bytes \<times> u8 \<times> Parsed) option" where
  "master_loop adr buf st =
    (if buf = [] then Some (buf, st)
     else case try_parse_pylontech buf default_frame of
       None \<Rightarrow> None
     | Some (n, f) \<Rightarrow>
         if n = 0 then Some (buf, st)
         else if n < 0 then master_loop adr (after_parse n buf) st
         else master_loop adr (after_parse n buf) (master_frame adr f st))"
  by pat_completeness auto
termination
  by (relation "measure (\<lambda>(adr, buf, st). length buf)") (auto intro: after_parse_shorter)

declare master_loop.simps [simp del]

definition master_feed :: "PylontechMaster \<Rightarrow> bytes \<Rightarrow> (PylontechMaster \<times> Parsed) option" where
  "master_feed m data = do {
     (r, last, out) \<leftarrow> master_loop (pm_wire_adr m) (pm_rx m @ data) (pm_last_cell_count m, Parsed_default);
     Some (m\<lparr>pm_rx := r, pm_last_cell_count := last\<rparr>, out)
   }"

section \<open>The loop is the receive loop\<close>

lemma master_loop_total: "\<exists>r. master_loop adr buf st = Some r"
proof (induction buf arbitrary: st rule: scan_induct)
  case (stop buf f)
  then show ?case by (subst master_loop.simps) simp
next
  case (step buf n f)
  then show ?case by (subst master_loop.simps) simp
qed

interpretation ml: frame_loop "\<lambda>buf st. the (master_loop adr buf st)" "master_frame adr" for adr
proof
  fix buf f st n
  have ne: "buf \<noteq> []" if "try_parse_pylontech buf default_frame = Some (n, f)" "n \<noteq> 0" for n
    using that by (auto simp: try_parse_pylontech_def)
  show "the (master_loop adr buf st) = (buf, st)"
    if "try_parse_pylontech buf default_frame = Some (0, f)"
    using that by (subst master_loop.simps) simp
  show "the (master_loop adr buf st) = the (master_loop adr (after_parse n buf) st)"
    if "try_parse_pylontech buf default_frame = Some (n, f)" "n < 0"
    using that ne [OF that(1)] by (subst master_loop.simps) simp
  show "the (master_loop adr buf st) = the (master_loop adr (after_parse n buf) (master_frame adr f st))"
    if "try_parse_pylontech buf default_frame = Some (n, f)" "n > 0"
    using that ne [OF that(1)] by (subst master_loop.simps) simp
qed

lemma master_loop_eq:
  "master_loop adr buf st = Some (residue buf, fold (master_frame adr) (frames buf) st)"
  using master_loop_total [of adr buf st] ml.loop_eq [of adr buf st] by auto

lemma master_feed_eq:
  "master_feed m data =
    (let (last, out) = fold (master_frame (pm_wire_adr m)) (frames (pm_rx m @ data)) (pm_last_cell_count m, Parsed_default)
     in Some (m\<lparr>pm_rx := residue (pm_rx m @ data), pm_last_cell_count := last\<rparr>, out))"
  by (simp add: master_feed_def master_loop_eq split: prod.split)

abbreviation master_inv :: "PylontechMaster \<Rightarrow> bool" where
  "master_inv m \<equiv> pending_ok (pm_rx m)"

interpretation pmp: battery_protocol master_reset master_poll_request master_settings_request
  "\<lambda>m data. the (master_feed m data)" master_inv pm_rx kMaxFrameLen
proof
  fix m :: PylontechMaster and data :: bytes
  show "master_inv (fst (the (master_feed m data)))"
    by (simp add: master_feed_eq residue_pending split: prod.split)
  show "master_poll_request (fst (the (master_feed m data))) = master_poll_request m"
    "master_settings_request (fst (the (master_feed m data))) = master_settings_request m"
    by (simp_all add: master_feed_eq master_poll_request_def master_settings_request_def split: prod.split)
qed (auto simp: master_reset_def master_poll_request_def master_settings_request_def pending_ok_def)

section \<open>Conversions\<close>

lemma k10_dC: "k10_to_dC (dC_to_k10 t) = t"
proof -
  have "k10_to_dC (dC_to_k10 t) = word_of_int (uint (word_of_int (sint t + 2731) :: u16) - 2731)"
    by (simp add: k10_to_dC_def dC_to_k10_def kKelvinOffset_dK_def)
  also have "\<dots> = (word_of_int (sint t) :: i16)"
    by (simp add: uint_word_of_int word_of_int_eq_iff take_bit_eq_mod mod_diff_left_eq)
  finally show ?thesis by simp
qed

section \<open>Cell statistics\<close>

definition stats_ok :: "u16 list \<Rightarrow> CellStats \<Rightarrow> bool" where
  "stats_ok vs st \<longleftrightarrow>
     unat (st_sum st) = (\<Sum>v \<leftarrow> vs. unat v) \<and>
     st_hi st = Max (set vs) \<and> st_lo st = Min (set vs) \<and>
     unat (st_hi_idx st) < length vs \<and> vs ! unat (st_hi_idx st) = st_hi st \<and>
     (\<forall>j < unat (st_hi_idx st). vs ! j < st_hi st) \<and>
     unat (st_lo_idx st) < length vs \<and> vs ! unat (st_lo_idx st) = st_lo st \<and>
     (\<forall>j < unat (st_lo_idx st). vs ! j > st_lo st)"

lemma sum_unat_u16_bound: "(\<Sum>v \<leftarrow> (vs :: u16 list). unat v) \<le> length vs * 65535"
proof (induction vs)
  case (Cons v vs)
  then show ?case using unat_u16_less [of v] by simp
qed simp

lemma stats_step:
  assumes "stats_ok vs st" "vs \<noteq> []" "length vs \<le> 255"
  shows "stats_ok (vs @ [x]) (cell_stat_step st (length vs, x))"
proof -
  have "unat (st_sum st) + unat x < 2 ^ 32"
    using assms(1,3) sum_unat_u16_bound [of vs] unat_u16_less [of x] by (simp add: stats_ok_def)
  then have sum: "unat (st_sum st + ucast x) = unat (st_sum st) + unat x"
    by (simp add: unat_word_ariths unsigned_ucast_eq take_bit_nat_eq_self)
  have len: "unat (word_of_nat (length vs) :: u8) = length vs"
    using assms(3) by (simp add: unat_of_nat)
  have hi: "\<forall>v \<in> set vs. v \<le> st_hi st" and lo: "\<forall>v \<in> set vs. st_lo st \<le> v"
    using assms(1) by (auto simp: stats_ok_def)
  have le: "st_lo st \<le> st_hi st" using hi lo assms(2) by (metis last_in_set order_trans)
  have mx: "Max (set (vs @ [x])) = max x (st_hi st)" and mn: "Min (set (vs @ [x])) = min x (st_lo st)"
    using assms(1,2) by (simp_all add: stats_ok_def)
  note ok = assms(1) [unfolded stats_ok_def]
  note defs = stats_ok_def mx mn cell_stat_step_def Let_def sum len
  consider "x > st_hi st" | "x < st_lo st" | "st_lo st \<le> x" "x \<le> st_hi st" by force
  then show ?thesis
  proof cases
    case 1
    then have "\<not> x < st_lo st" using le by simp
    moreover have "vs ! j < x" if "j < length vs" for j
      using hi nth_mem [OF that] 1 by (meson le_less_trans)
    ultimately show ?thesis unfolding defs using ok 1
      by (auto simp: sum len nth_append max_def min_def)
  next
    case 2
    then have "\<not> st_hi st < x" using le by simp
    moreover have "x < vs ! j" if "j < length vs" for j
      using lo nth_mem [OF that] 2 by (meson less_le_trans)
    ultimately show ?thesis unfolding defs using ok 2
      by (auto simp: sum len nth_append max_def min_def)
  next
    case 3
    then have step: "cell_stat_step st (length vs, x) = st\<lparr>st_sum := st_sum st + ucast x\<rparr>"
      by (simp add: cell_stat_step_def Let_def not_less [symmetric])
    have "max x (st_hi st) = st_hi st" "min x (st_lo st) = st_lo st"
      using 3 by (simp_all add: max_absorb2 min_absorb2)
    then show ?thesis
      unfolding stats_ok_def mx mn step using ok sum by (auto simp: nth_append simp del: set_append)
  qed
qed

lemma stats_all:
  assumes "length (v0 # vs) \<le> 256"
  shows "stats_ok (v0 # vs) (foldl cell_stat_step
    \<lparr>st_sum = 0, st_lo = v0, st_hi = v0, st_lo_idx = 0, st_hi_idx = 0\<rparr> (enumerate 0 (v0 # vs)))"
  using assms
proof (induction vs rule: rev_induct)
  case Nil
  then show ?case
    using unat_u16_less [of v0]
    by (simp add: stats_ok_def cell_stat_step_def unsigned_ucast_eq take_bit_nat_eq_self)
next
  case (snoc x xs)
  then show ?case
    using stats_step [of "v0 # xs" _ x] by (simp add: enumerate_append_eq)
qed

lemma fill_cell_stats_spec:
  assumes "voltages_mv c \<noteq> []" "length (voltages_mv c) \<le> 256"
  defines "vs \<equiv> voltages_mv c" and "d \<equiv> fill_cell_stats c"
  shows "voltages_mv d = vs"
    "unat (average_voltage_mv d) = (\<Sum>v \<leftarrow> vs. unat v) div length vs"
    "voltage_diff_mv d = Max (set vs) - Min (set vs)"
    "unat (max_voltage_cell_idx d) < length vs" "vs ! unat (max_voltage_cell_idx d) = Max (set vs)"
    "\<forall>j < unat (max_voltage_cell_idx d). vs ! j < Max (set vs)"
    "unat (min_voltage_cell_idx d) < length vs" "vs ! unat (min_voltage_cell_idx d) = Min (set vs)"
    "\<forall>j < unat (min_voltage_cell_idx d). vs ! j > Min (set vs)"
proof -
  obtain v0 ws where v: "voltages_mv c = v0 # ws" using assms(1) by (cases "voltages_mv c") auto
  define st where "st = foldl cell_stat_step
    \<lparr>st_sum = 0, st_lo = v0, st_hi = v0, st_lo_idx = 0, st_hi_idx = 0\<rparr> (enumerate 0 (v0 # ws))"
  have ok: "stats_ok vs st" using stats_all [of v0 ws] assms(2) v by (simp add: vs_def st_def)
  have d: "d = c\<lparr>average_voltage_mv := word_of_nat (unat (st_sum st) div length vs),
      voltage_diff_mv := st_hi st - st_lo st,
      max_voltage_cell_idx := st_hi_idx st, min_voltage_cell_idx := st_lo_idx st\<rparr>"
    by (simp add: d_def vs_def fill_cell_stats_def v st_def Let_def)
  have "(\<Sum>v \<leftarrow> vs. unat v) div length vs \<le> 65535"
    using div_le_mono [OF sum_unat_u16_bound [of vs], of "length vs"] by (cases "vs = []") simp_all
  then show "unat (average_voltage_mv d) = (\<Sum>v \<leftarrow> vs. unat v) div length vs"
    using ok by (simp add: d stats_ok_def unat_of_nat)
  show "voltages_mv d = vs" by (simp add: d vs_def)
  show "voltage_diff_mv d = Max (set vs) - Min (set vs)"
    "unat (max_voltage_cell_idx d) < length vs" "vs ! unat (max_voltage_cell_idx d) = Max (set vs)"
    "\<forall>j < unat (max_voltage_cell_idx d). vs ! j < Max (set vs)"
    "unat (min_voltage_cell_idx d) < length vs" "vs ! unat (min_voltage_cell_idx d) = Min (set vs)"
    "\<forall>j < unat (min_voltage_cell_idx d). vs ! j > Min (set vs)"
    using ok by (auto simp: d stats_ok_def)
qed

section \<open>Responses of a battery\<close>

text \<open>The driver expects the command code of the request in CID2 of a response.\<close>

lemma master_feed_built:
  assumes "pm_rx m = []"
  shows "master_feed m (build_pylontech f) =
    (let (last, out) = master_frame (pm_wire_adr m) f (pm_last_cell_count m, Parsed_default)
     in Some (m\<lparr>pm_last_cell_count := last\<rparr>, out))"
proof -
  have "scan_frames (build_pylontech f) = ([f], [])"
    using scan_built [of f "[]"] by simp
  moreover have "m\<lparr>pm_rx := []\<rparr> = m" using assms by simp
  ultimately show ?thesis
    using assms by (cases m) (simp add: master_feed_eq split: prod.split)
qed

lemma master_ignores_rtn:
  assumes "pm_rx m = []" "f_cid2 f = 0"
  shows "master_feed m (build_pylontech f) = Some (m, Parsed_default)"
  using assms by (simp add: master_feed_built master_frame_def)

lemma sint_scast_u16_i32: "sint (scast (c :: i16) * 100 :: i32) = sint c * 100"
proof -
  have c: "scast c * 100 = (word_of_int (sint c * 100) :: i32)"
    by (simp only: scast_eq of_int_mult of_int_numeral)
  show ?thesis
    unfolding c using sint_i16_range [of c] by (intro sint_word_of_int_i32) simp_all
qed

section \<open>Limits across the wire\<close>

lemma scast_times_100: "scast (c :: i16) * 100 = (word_of_int (sint c * 100) :: u32)"
  by (simp only: scast_eq of_int_mult of_int_numeral)

lemma sint_div_100: "sint ((w :: u32) div 100) = int (unat w div 100)"
proof -
  have "uint (w div 100) = uint w div 100" by (simp add: uint_div_distrib)
  moreover have "uint w < 2 ^ 32" using unsigned_less [of w] by simp
  ultimately have "uint (w div 100) = int (unat w div 100)" "uint (w div 100) < 2 ^ 31"
    by (simp_all add: zdiv_int)
  then show ?thesis by (simp add: sint_uint signed_take_bit_int_eq_self)
qed

lemma sint_minus_div_100: "sint (- ((w :: u32) div 100)) = - int (unat w div 100)"
proof -
  have "unat w < 2 ^ 32" using unsigned_less [of w] by simp
  then have b: "- 2147483648 \<le> - int (unat w div 100)" "- int (unat w div 100) \<le> 2147483647"
    by auto
  have "- (w div 100) = word_of_int (- sint (w div 100))" by simp
  then have "- (w div 100) = word_of_int (- int (unat w div 100))" by (simp only: sint_div_100)
  then show ?thesis using sint_word_of_int_i32 [OF b] by simp
qed

lemma limits_survive:
  defines "s lim n \<equiv> settings_of_system_param (system_param_of lim) n"
  shows "unat (max_charge_current_ma (s lim n)) = min (unat (max_charge_current_ma lim) div 100) 32767 * 100"
    "unat (max_discharge_current_ma (s lim n)) = min (unat (max_discharge_current_ma lim) div 100) 32768 * 100"
proof -
  have c: "sint (clamp_i16 (w div 100)) = int (min (unat w div 100) 32767)" for w
    by (simp add: sint_clamp_i16 sint_div_100)
  have d: "\<bar>sint (clamp_i16 (- (w div 100)))\<bar> = int (min (unat w div 100) 32768)" for w
    by (simp add: sint_clamp_i16 sint_minus_div_100)
  have u: "unat (word_of_int (int k * 100) :: u32) = k * 100" if "k \<le> 32768" for k
  proof -
    have "word_of_int (int k * 100) = (word_of_nat (k * 100) :: u32)" by simp
    then show ?thesis using that by (simp only: unat_of_nat) simp
  qed
  show "unat (max_charge_current_ma (s lim n)) = min (unat (max_charge_current_ma lim) div 100) 32767 * 100"
    using u [of "min (unat (max_charge_current_ma lim) div 100) 32767"]
    by (simp add: s_def settings_of_system_param_def system_param_of_def scast_times_100 c)
  show "unat (max_discharge_current_ma (s lim n)) = min (unat (max_discharge_current_ma lim) div 100) 32768 * 100"
    using u [of "min (unat (max_discharge_current_ma lim) div 100) 32768"]
    by (simp add: s_def settings_of_system_param_def system_param_of_def d)
qed

section \<open>Feeding in pieces\<close>

text \<open>What two calls of \<open>feed\<close> deliver together: the later value wins.\<close>

definition merge_parsed :: "Parsed \<Rightarrow> Parsed \<Rightarrow> Parsed" where
  "merge_parsed a b =
     \<lparr>p_telemetry = (case p_telemetry b of None \<Rightarrow> p_telemetry a | Some t \<Rightarrow> Some t),
      p_settings = (case p_settings b of None \<Rightarrow> p_settings a | Some s \<Rightarrow> Some s)\<rparr>"

lemma merge_default [simp]: "merge_parsed a Parsed_default = a"
  by (cases a) (simp add: merge_parsed_def Parsed_default_def)

lemma master_frame_merge:
  "master_frame adr f (l, merge_parsed a b) =
     (fst (master_frame adr f (l, b)), merge_parsed a (snd (master_frame adr f (l, b))))"
  by (auto simp: master_frame_def merge_parsed_def split: prod.splits)

lemma master_frames_merge:
  "fold (master_frame adr) fs (l, merge_parsed a b) =
     (fst (fold (master_frame adr) fs (l, b)), merge_parsed a (snd (fold (master_frame adr) fs (l, b))))"
proof (induction fs arbitrary: l b)
  case (Cons f fs)
  show ?case
    by (cases "master_frame adr f (l, b)") (simp add: master_frame_merge Cons)
qed simp

section \<open>Properties\<close>

text \<open>The statistics the driver computes itself are right for up to 256 cells: the average
  is the integer mean, the difference is that of the largest and smallest voltage, and the
  two indices are the first positions of those.\<close>

theorem cell_statistics:
  assumes "voltages_mv c = vs" "vs \<noteq> []" "length vs \<le> 256"
  shows "let d = fill_cell_stats c; hi = unat (max_voltage_cell_idx d); lo = unat (min_voltage_cell_idx d) in
    unat (average_voltage_mv d) = (\<Sum>v \<leftarrow> vs. unat v) div length vs \<and>
    voltage_diff_mv d = Max (set vs) - Min (set vs) \<and>
    hi < length vs \<and> vs ! hi = Max (set vs) \<and> (\<forall>j < hi. vs ! j < Max (set vs)) \<and>
    lo < length vs \<and> vs ! lo = Min (set vs) \<and> (\<forall>j < lo. vs ! j > Min (set vs))"
proof -
  have "voltages_mv c \<noteq> []" "length (voltages_mv c) \<le> 256" using assms by simp_all
  note spec = fill_cell_stats_spec [OF this, unfolded assms(1)]
  show ?thesis unfolding Let_def by (intro conjI spec)
qed

lemma cell_statistics_witness:
  "unat (average_voltage_mv (fill_cell_stats (JkCellInfo_default\<lparr>voltages_mv := [3300, 3310, 3290]\<rparr>))) = 3300"
proof -
  let ?c = "JkCellInfo_default\<lparr>voltages_mv := [3300, 3310, 3290]\<rparr>"
  have "unat (average_voltage_mv (fill_cell_stats ?c)) = (\<Sum>v \<leftarrow> [3300, 3310, 3290 :: u16]. unat v) div 3"
    using cell_statistics [of ?c "[3300, 3310, 3290]"] unfolding Let_def by simp
  then show ?thesis by simp
qed

text \<open>Temperatures survive the Kelvin encoding of the wire in full: the driver reads back
  what the responder wrote, for every 16-bit value.\<close>

theorem temperature_roundtrip: "k10_to_dC (dC_to_k10 t) = t"
  by (rule k10_dC)

text \<open>C39: The driver ignores every response the protocol module builds for its polls: a
  response carries its return code in CID2, and the driver looks there for the command.\<close>

theorem genuine_responses_ignored:
  assumes "pm_rx m = []" and "build_analog_response req cells pack = Some wire"
  shows "master_feed m wire = Some (m, Parsed_default) \<and>
    master_feed m (build_system_param_response req lim) = Some (m, Parsed_default)"
proof
  from assms(2) obtain f where "wire = build_pylontech f" "f_cid2 f = 0"
    by (auto simp: build_analog_response_def Let_def ok_response_def default_frame_def)
  then show "master_feed m wire = Some (m, Parsed_default)"
    using master_ignores_rtn [OF assms(1)] by simp
  show "master_feed m (build_system_param_response req lim) = Some (m, Parsed_default)"
    unfolding build_system_param_response_def Let_def
    by (rule master_ignores_rtn [OF assms(1)]) (simp add: ok_response_def default_frame_def)
qed

lemma genuine_responses_ignored_witness:
  "\<exists>wire. build_analog_response default_frame JkCellInfo_default JkPackInfo_default = Some wire \<and>
     master_feed (master_init 2) wire = Some (master_init 2, Parsed_default)"
proof -
  obtain wire where w: "build_analog_response default_frame JkCellInfo_default JkPackInfo_default = Some wire"
    by (auto simp: build_analog_response_def analog_of_def scale_capacity_to_u16_def Let_def
        JkPackInfo_default_def kCapU16Max_def)
  from genuine_responses_ignored [OF _ this, of "master_init 2"] w show ?thesis
    by (simp add: master_init_def)
qed

text \<open>A frame whose CID2 is 0x42 and that is addressed to the driver delivers the telemetry
  of its payload, whatever noise without a start mark precedes it.\<close>

theorem analog_frame_delivered:
  assumes "pm_rx m = []" "kSOI \<notin> set noise"
    and "f_adr f = pm_wire_adr m" "f_cid2 f = 0x42" "f_info f = AnalogResponse_serialize a []"
    and "length (a_cell_voltages_mv a) \<le> 255" "length (a_temperatures_k10 a) \<le> 255"
  shows "master_feed m (noise @ build_pylontech f) =
    Some (m\<lparr>pm_last_cell_count := word_of_nat (length (a_cell_voltages_mv a))\<rparr>,
      \<lparr>p_telemetry = Some (telemetry_of_analog a), p_settings = None\<rparr>)"
proof -
  have "AnalogResponse_deserialize (f_info f) = (True, a)"
    using AnalogResponse_roundtrip [OF assms(6,7), of "[]"] assms(5) by simp
  then have h: "master_frame (pm_wire_adr m) f (pm_last_cell_count m, Parsed_default) =
      (word_of_nat (length (a_cell_voltages_mv a)),
       \<lparr>p_telemetry = Some (telemetry_of_analog a), p_settings = None\<rparr>)"
    using assms(3,4) by (simp add: master_frame_def Parsed_default_def)
  have "scan_frames (noise @ build_pylontech f) = ([f], [])"
    using scan_junk [OF assms(2), of "build_pylontech f"] scan_built [of f "[]"] by simp
  with h assms(1) show ?thesis by (cases m) (simp add: master_feed_eq)
qed

lemma analog_frame_delivered_witness:
  "\<exists>t. master_feed (master_init 2) ([0x00] @ build_pylontech
       (default_frame\<lparr>f_adr := 2, f_cid2 := 0x42, f_info := AnalogResponse_serialize AnalogResponse_default []\<rparr>)) =
     Some (master_init 2, \<lparr>p_telemetry = Some t, p_settings = None\<rparr>)"
  using analog_frame_delivered [of "master_init 2" "[0x00]"
    "default_frame\<lparr>f_adr := 2, f_cid2 := 0x42, f_info := AnalogResponse_serialize AnalogResponse_default []\<rparr>"
    AnalogResponse_default]
  by (simp add: master_init_def kSOI_def AnalogResponse_default_def)

text \<open>Limits written by the responder and read by the driver are the same voltages and
  temperatures, and the same currents rounded down to 100 mA and saturated at the 16-bit
  field.\<close>

theorem limits_across_the_wire:
  "let s = settings_of_system_param (system_param_of lim) n in
     cell_ovp_mv s = cell_ovp_mv lim \<and> cell_uvp_mv s = cell_uvp_mv lim \<and>
     cell_uvpr_mv s = cell_uvpr_mv lim \<and> charge_otp_dC s = charge_otp_dC lim \<and>
     charge_utp_dC s = charge_utp_dC lim \<and> discharge_otp_dC s = discharge_otp_dC lim \<and>
     unat (max_charge_current_ma s) = min (unat (max_charge_current_ma lim) div 100) 32767 * 100 \<and>
     unat (max_discharge_current_ma s) = min (unat (max_discharge_current_ma lim) div 100) 32768 * 100"
  using limits_survive [of lim n]
  by (simp add: Let_def settings_of_system_param_def system_param_of_def k10_dC)

text \<open>Cutting a received stream in two makes no difference as long as the first part fits
  the frame limit: the two calls end in the state of the one call, and what they deliver,
  the later value winning, is what the one call delivers.\<close>

theorem feed_in_pieces:
  assumes "length (pm_rx m) + length xs \<le> kMaxFrameLen"
  shows "\<exists>m1 o1 m2 o2. master_feed m xs = Some (m1, o1) \<and> master_feed m1 ys = Some (m2, o2) \<and>
    master_feed m (xs @ ys) = Some (m2, merge_parsed o1 o2)"
proof -
  obtain l1 o1 where st1:
    "fold (master_frame (pm_wire_adr m)) (frames (pm_rx m @ xs)) (pm_last_cell_count m, Parsed_default) = (l1, o1)"
    by (cases rule: prod.exhaust)
  let ?r = "residue (pm_rx m @ xs)"
  obtain l2 o2 where st2: "fold (master_frame (pm_wire_adr m)) (frames (?r @ ys)) (l1, Parsed_default) = (l2, o2)"
    by (cases rule: prod.exhaust)
  have "scan_frames (pm_rx m @ xs @ ys) = (frames (pm_rx m @ xs) @ frames (?r @ ys), residue (?r @ ys))"
    using scan_append [of "pm_rx m @ xs" ys] assms by simp
  moreover have "fold (master_frame (pm_wire_adr m)) (frames (?r @ ys)) (l1, o1) = (l2, merge_parsed o1 o2)"
    using master_frames_merge [of "pm_wire_adr m" "frames (?r @ ys)" l1 o1 Parsed_default] st2 by simp
  ultimately show ?thesis
    using st1 st2 by (simp add: master_feed_eq)
qed

lemma feed_in_pieces_witness:
  "\<exists>m1 o1 m2 o2. master_feed (master_init 2) [0x7E, 0x32] = Some (m1, o1) \<and>
     master_feed m1 [0x30] = Some (m2, o2) \<and>
     master_feed (master_init 2) [0x7E, 0x32, 0x30] = Some (m2, merge_parsed o1 o2)"
  using feed_in_pieces [of "master_init 2" "[0x7E, 0x32]" "[0x30]"]
  by (simp add: master_init_def kMaxFrameLen_def)

end
