(* ===== verification/Battery.thy ===== *)
theory Battery
  imports Config Bms_Handler Jk_Driver Pylontech_Master
begin

text \<open>
  src/battery.cpp: which transport and which protocol a configured battery gets, and the
  periods of its timers; and \<open>BmsHandler\<close> over the two protocols the program has.
\<close>

section \<open>Battery::start\<close>

record BleSettings =
  ble_address :: string
  ble_service_uuid :: string
  ble_char_write_uuid :: string
  ble_char_notify_uuid :: string
  ble_scan_timeout_ms :: i32
  ble_adapter_poll_ms :: i32
  ble_reconnect_ms :: i32

datatype Transport = Ble BleSettings | Uart (uart_device: string) (uart_baud: i32) (uart_reopen: i32)

datatype Protocol = JkProtocol | PylontechMasterProtocol u8

record BatterySetup =
  bs_transport :: Transport
  bs_protocol :: Protocol
  bs_intervals :: intervals
  bs_poll_timer :: int
  bs_settings_timer :: int

definition battery_start :: "BatteryConfig \<Rightarrow> BatterySetup option" where
  "battery_start cfg =
    (let setup = (\<lambda>t p. \<lparr>bs_transport = t, bs_protocol = p,
           bs_intervals = \<lparr>history_interval = sint (bc_bms_poll_period_ms cfg),
                           state_update_interval = sint (bc_bms_state_update_interval_ms cfg)\<rparr>,
           bs_poll_timer = sint (bc_bms_poll_period_ms cfg),
           bs_settings_timer = sint (bc_settings_refresh_period_ms cfg)\<rparr>) in
     case bc_link cfg of
       Bluetooth \<Rightarrow>
         if bc_protocol cfg \<noteq> ''jk_bt'' then None
         else Some (setup (Ble \<lparr>ble_address = bc_address cfg,
                ble_service_uuid = bc_service_uuid cfg,
                ble_char_write_uuid = bc_char_write_uuid cfg,
                ble_char_notify_uuid = bc_char_notify_uuid cfg,
                ble_scan_timeout_ms = bc_scan_timeout_ms cfg,
                ble_adapter_poll_ms = bc_adapter_poll_ms cfg,
                ble_reconnect_ms = bc_reconnect_ms cfg\<rparr>) JkProtocol)
     | Ttl \<Rightarrow>
         if bc_protocol cfg \<noteq> ''pylontech'' then None
         else let wire_adr = bc_pylontech_address cfg + 1 in
           Some (setup (Uart (bc_address cfg) (bc_uart_baud cfg) (bc_reconnect_ms cfg))
                  (PylontechMasterProtocol (ucast wire_adr)))
     | Reserve \<Rightarrow> None)"

section \<open>The two protocols as virtual functions\<close>

definition jk_ops :: "JkFrameAssembler BatteryProtocolOps" where
  "jk_ops = \<lparr>op_reset = jk_reset, op_poll_request = jk_poll_request,
     op_settings_request = jk_settings_request, op_feed = (\<lambda>s data. the (jk_feed s data))\<rparr>"

definition master_ops :: "PylontechMaster BatteryProtocolOps" where
  "master_ops = \<lparr>op_reset = master_reset, op_poll_request = master_poll_request,
     op_settings_request = master_settings_request, op_feed = (\<lambda>m data. the (master_feed m data))\<rparr>"

lemma jk_requests: "jk_poll_request s \<noteq> []" "jk_settings_request s \<noteq> []"
  by (simp_all add: jk_poll_request_def jk_settings_request_def JkRequest_serialize_def Let_def lw_u32_def)

lemma master_requests: "master_poll_request m \<noteq> []" "master_settings_request m \<noteq> []"
  by (simp_all add: master_poll_request_def master_settings_request_def build_analog_request_def
      build_system_param_request_def build_pylontech_nonempty Let_def)

text \<open>Both drivers satisfy the interface, so the lemmas on handlers hold for both.\<close>

interpretation jk_handler: driven_battery jk_reset jk_poll_request jk_settings_request
  "\<lambda>s data. the (jk_feed s data)" jk_inv asm_buf "kJkResponseSize - 1" jk_ops
  by unfold_locales (simp add: jk_ops_def)

interpretation master_handler: driven_battery master_reset master_poll_request master_settings_request
  "\<lambda>m data. the (master_feed m data)" master_inv pm_rx kMaxFrameLen master_ops
  by unfold_locales (simp add: master_ops_def)

section \<open>Telemetry that is served was received\<close>

lemma on_telemetry_state:
  "h_state (on_telemetry iv ck c p h) = h_state h \<or>
   h_state (on_telemetry iv ck c p h) = apply_telemetry (ck_stamp ck) c p (h_state h)"
  by (auto simp: on_telemetry_def Let_def)

lemma step_telemetry:
  assumes "ss_cells (h_state (handler_step ops iv e h)) = Some c"
    and "ss_pack (h_state (handler_step ops iv e h)) = Some p"
  shows "(ss_cells (h_state h) = Some c \<and> ss_pack (h_state h) = Some p \<and>
      ss_updated_at (h_state (handler_step ops iv e h)) = ss_updated_at (h_state h)) \<or>
    (\<exists>ck data. e = Received ck data \<and>
      p_telemetry (snd (op_feed ops (h_protocol h) data)) = Some \<lparr>t_cells = c, t_pack = p\<rparr> \<and>
      ss_updated_at (h_state (handler_step ops iv e h)) = ck_stamp ck)"
proof (cases e)
  case (Received ck data)
  with assms show ?thesis
    by (auto simp: on_bytes_def on_telemetry_def Let_def apply_telemetry_def apply_settings_def
        split: prod.splits option.splits if_splits)
qed (use assms in \<open>auto simp: handler_ops set_connected_def\<close>)

lemma run_telemetry:
  assumes "ss_cells (h_state (handler_run ops iv evs (handler_init p0))) = Some c"
    and "ss_pack (h_state (handler_run ops iv evs (handler_init p0))) = Some p"
  shows "\<exists>pre ck data post. evs = pre @ Received ck data # post \<and>
    p_telemetry (snd (op_feed ops (h_protocol (handler_run ops iv pre (handler_init p0))) data)) =
      Some \<lparr>t_cells = c, t_pack = p\<rparr> \<and>
    ss_updated_at (h_state (handler_run ops iv evs (handler_init p0))) = ck_stamp ck"
  using assms
proof (induction evs rule: rev_induct)
  case Nil
  then show ?case by (simp add: handler_init_def shared_init_def)
next
  case (snoc e evs)
  let ?h = "handler_run ops iv evs (handler_init p0)"
  from snoc.prems have "ss_cells (h_state (handler_step ops iv e ?h)) = Some c"
    "ss_pack (h_state (handler_step ops iv e ?h)) = Some p" by simp_all
  from step_telemetry [OF this] show ?case
  proof
    assume old: "ss_cells (h_state ?h) = Some c \<and> ss_pack (h_state ?h) = Some p \<and>
      ss_updated_at (h_state (handler_step ops iv e ?h)) = ss_updated_at (h_state ?h)"
    with snoc.IH obtain pre ck data post where "evs = pre @ Received ck data # post"
      "p_telemetry (snd (op_feed ops (h_protocol (handler_run ops iv pre (handler_init p0))) data)) =
         Some \<lparr>t_cells = c, t_pack = p\<rparr>" "ss_updated_at (h_state ?h) = ck_stamp ck" by blast
    with old show ?thesis by (intro exI [of _ pre] exI [of _ ck] exI [of _ data] exI [of _ "post @ [e]"]) simp
  next
    assume "\<exists>ck data. e = Received ck data \<and>
      p_telemetry (snd (op_feed ops (h_protocol ?h) data)) = Some \<lparr>t_cells = c, t_pack = p\<rparr> \<and>
      ss_updated_at (h_state (handler_step ops iv e ?h)) = ck_stamp ck"
    then obtain ck data where "e = Received ck data"
      "p_telemetry (snd (op_feed ops (h_protocol ?h) data)) = Some \<lparr>t_cells = c, t_pack = p\<rparr>"
      "ss_updated_at (h_state (handler_step ops iv e ?h)) = ck_stamp ck" by blast
    then show ?thesis by (intro exI [of _ evs] exI [of _ ck] exI [of _ data] exI [of _ "[]"]) simp
  qed
qed

section \<open>Properties\<close>

text \<open>C35: Whatever events a handler sees, for any protocol, two consecutive samples it gives to
  the history are at least the history interval apart on the steady clock.\<close>

theorem history_writes_throttled:
  "successively (\<lambda>a b. fst b - fst a \<ge> history_interval iv)
     (h_history (handler_run ops iv evs (handler_init p)))"
  using throttled_run [OF throttled_init, of iv ops evs p] by (simp add: throttled_def)

text \<open>C15: When the shared state counts as fresh, the last link event was a connect, and the
  cells and pack it shows are those of one telemetry message the protocol delivered, whose
  time stamp is not older than the allowed age.\<close>

theorem fresh_means_recently_received:
  assumes "is_fresh now age (h_state (handler_run ops iv evs (handler_init p0)))"
  shows "link_after evs False \<and>
    (\<exists>pre ck data post t. evs = pre @ Received ck data # post \<and>
       p_telemetry (snd (op_feed ops (h_protocol (handler_run ops iv pre (handler_init p0))) data)) = Some t \<and>
       ss_cells (h_state (handler_run ops iv evs (handler_init p0))) = Some (t_cells t) \<and>
       ss_pack (h_state (handler_run ops iv evs (handler_init p0))) = Some (t_pack t) \<and>
       now - ck_stamp ck \<le> age)"
proof -
  let ?s = "h_state (handler_run ops iv evs (handler_init p0))"
  from assms obtain c p where cp: "ss_cells ?s = Some c" "ss_pack ?s = Some p"
    and "ss_connected ?s" "now - ss_updated_at ?s \<le> age"
    by (auto simp: is_fresh_def split: if_splits)
  moreover from this have "link_after evs False"
    by (simp add: connected_run) (simp add: handler_init_def shared_init_def)
  moreover obtain pre ck data post where "evs = pre @ Received ck data # post"
    "p_telemetry (snd (op_feed ops (h_protocol (handler_run ops iv pre (handler_init p0))) data)) =
       Some \<lparr>t_cells = c, t_pack = p\<rparr>" "ss_updated_at ?s = ck_stamp ck"
    using run_telemetry [OF cp] by blast
  ultimately show ?thesis
    by (intro conjI exI [of _ pre] exI [of _ ck] exI [of _ data] exI [of _ post]
        exI [of _ "\<lparr>t_cells = c, t_pack = p\<rparr>"]) simp_all
qed

lemma fresh_means_recently_received_witness:
  "link_after [LinkUp, Received \<lparr>ck_now = 9000, ck_wall = 0, ck_stamp = 9001\<rparr> (sample_frame 0x02)] False"
proof -
  let ?iv = "\<lparr>history_interval = 5000, state_update_interval = 500\<rparr>"
  let ?evs = "[LinkUp, Received \<lparr>ck_now = 9000, ck_wall = 0, ck_stamp = 9001\<rparr> (sample_frame 0x02)]"
  have "sample_frame 0x02 ! 4 = kJkFrameTypeCellInfo" by code_simp
  from jk_dispatch_cell_info [OF sample_frame_good(1) this, of Parsed_default] obtain c k where
    d: "jk_dispatch (sample_frame 0x02) Parsed_default =
      Some (Parsed_default\<lparr>p_telemetry := Some \<lparr>t_cells = c, t_pack = k\<rparr>\<rparr>)" by blast
  have "sample_frame 0x02 \<noteq> []" by (simp add: sample_frame_def)
  from jk_feed_frame [OF _ this d, of assembler_init "sample_frame 0x02"]
  have "jk_feed assembler_init (sample_frame 0x02) =
      Some (assembler_init, \<lparr>p_telemetry = Some \<lparr>t_cells = c, t_pack = k\<rparr>, p_settings = None\<rparr>)"
    by (simp add: push_frame [OF sample_frame_good(1)] assembler_init_def Parsed_default_def)
  moreover have "jk_reset assembler_init = assembler_init"
    by (simp add: jk_reset_def assembler_reset_def assembler_init_def)
  ultimately have "is_fresh 9001 5000 (h_state (handler_run jk_ops ?iv ?evs (handler_init assembler_init)))"
    by (simp add: handler_ops jk_ops_def handler_init_def shared_init_def set_connected_def
        apply_telemetry_def is_fresh_def send_def)
  from fresh_means_recently_received [OF this] show ?thesis by blast
qed

text \<open>Every connect of a handler, with either protocol, starts from an empty receive buffer
  and sends exactly the settings request and then the poll request.\<close>

theorem connect_starts_clean:
  "h_sent (on_connected jk_ops h) = h_sent h @ [jk_settings_request s, jk_poll_request s] \<and>
   asm_buf (h_protocol (on_connected jk_ops h)) = [] \<and>
   h_sent (on_connected master_ops g) = h_sent g @
     [master_settings_request (h_protocol g), master_poll_request (h_protocol g)] \<and>
   pm_rx (h_protocol (on_connected master_ops g)) = []"
proof -
  have r: "jk_settings_request s = jk_settings_request (h_protocol h)"
    "jk_poll_request s = jk_poll_request (h_protocol h)"
    by (simp_all add: jk_settings_request_def jk_poll_request_def)
  show ?thesis
    unfolding r
    using jk_handler.connect_handshake [of h, OF jk_requests]
      master_handler.connect_handshake [of g, OF master_requests]
    by blast
qed

text \<open>Whatever a handler of a Bluetooth battery is fed, its protocol never buffers a whole
  frame, and a handler of a Pylontech battery never buffers more than the frame limit.\<close>

theorem handler_buffers_bounded:
  "length (asm_buf (h_protocol (handler_run jk_ops iv evs (handler_init assembler_init)))) < kJkResponseSize \<and>
   length (pm_rx (h_protocol (handler_run master_ops iv evs (handler_init (master_init adr))))) \<le> kMaxFrameLen"
proof -
  have "jk_inv (h_protocol (handler_init assembler_init :: JkFrameAssembler BmsHandler))"
    using assembler_init_ok by (simp add: handler_init_def assembler_init_def)
  moreover have "master_inv (h_protocol (handler_init (master_init adr) :: PylontechMaster BmsHandler))"
    by (simp add: handler_init_def master_init_def pending_ok_def)
  moreover have "kJkResponseSize - 1 < kJkResponseSize" by (simp add: kJkResponseSize_def)
  ultimately show ?thesis
    using jk_handler.bounded_run [of "handler_init assembler_init" iv evs]
      master_handler.bounded_run [of "handler_init (master_init adr)" iv evs] by linarith
qed

end
