(* ===== verification/Inverter.thy ===== *)
theory Inverter
  imports Battery
begin

text \<open>
  src/inverter.cpp: the Pylontech slave that answers the polls of the inverter.  Each battery
  owns a block of module addresses; a request to an address is answered from the shared state
  of its battery, or of the mirror of a reserve.  Pointers to batteries are positions in the
  list of batteries.  A result \<open>None\<close> is a division by zero, which ends the process; the
  inner \<open>None\<close> is silence.  The UART is the list of the responses that were handed to it.
\<close>

section \<open>The address map\<close>

record BatteryObj =
  b_cfg :: BatteryConfig
  b_state :: SharedState

record Slot =
  sl_battery :: nat
  sl_mirror :: "nat option"
  sl_module_count :: u8

definition kBaseAddress :: u8 where "kBaseAddress = 2"
definition kRxBufLimit :: nat where "kRxBufLimit = 4096"
definition kReserveCRateTenths :: u32 where "kReserveCRateTenths = 5"
definition kFreshMs :: int where "kFreshMs = 5000"

definition mirror_of :: "BatteryObj list \<Rightarrow> BatteryObj \<Rightarrow> nat option" where
  "mirror_of bs b =
     (if bc_monitored (b_cfg b) then None
      else find (\<lambda>i. bc_name (b_cfg (bs ! i)) = bc_mirror (b_cfg b)) [0..<length bs])"

definition configured_mah :: "BatteryConfig \<Rightarrow> u32" where
  "configured_mah c = bc_capacity c * 1000"

definition battery_slots :: "BatteryObj list \<Rightarrow> nat \<Rightarrow> Slot list" where
  "battery_slots bs i =
    (let b = bs ! i; n = module_count_for_capacity (configured_mah (b_cfg b))
     in replicate (unat n) \<lparr>sl_battery = i, sl_mirror = mirror_of bs b, sl_module_count = n\<rparr>)"

definition build_address_map :: "BatteryObj list \<Rightarrow> Slot list" where
  "build_address_map bs = concat (map (battery_slots bs) [0..<length bs])"

section \<open>One request\<close>

text \<open>The values of a reserve: the mirror's, with capacity, current and limits of its own.\<close>

definition reserve_pack :: "BatteryConfig \<Rightarrow> JkPackInfo \<Rightarrow> JkPackInfo" where
  "reserve_pack c pack =
    (let cap_mah = configured_mah c
     in pack\<lparr>total_capacity_mah := cap_mah,
             remaining_capacity_mah := cap_mah * ucast (state_of_charge_pct pack) div 100,
             current_ma := 0\<rparr>)"

definition reserve_limits :: "BatteryConfig \<Rightarrow> JkSettings \<Rightarrow> JkSettings" where
  "reserve_limits c lim =
    (let ilim_ma = bc_capacity c * 1000 * kReserveCRateTenths div 10
     in lim\<lparr>max_charge_current_ma := ilim_ma, max_discharge_current_ma := ilim_ma\<rparr>)"

text \<open>The share of one module.\<close>

definition slice_pack :: "u8 \<Rightarrow> JkPackInfo \<Rightarrow> JkPackInfo" where
  "slice_pack n pack =
     pack\<lparr>current_ma := word_of_int (sint (current_ma pack) sdiv uint n),
          remaining_capacity_mah := remaining_capacity_mah pack div ucast n,
          total_capacity_mah := total_capacity_mah pack div ucast n\<rparr>"

definition slice_limits :: "u8 \<Rightarrow> JkSettings \<Rightarrow> JkSettings" where
  "slice_limits n lim =
     lim\<lparr>max_charge_current_ma := max_charge_current_ma lim div ucast n,
         max_discharge_current_ma := max_discharge_current_ma lim div ucast n\<rparr>"

definition respond :: "BatteryObj list \<Rightarrow> Slot list \<Rightarrow> int \<Rightarrow> PylontechFrame \<Rightarrow> bytes option option" where
  "respond bs slots now f =
    (if f_adr f < kBaseAddress \<or> unat (f_adr f - kBaseAddress) \<ge> length slots then Some None
     else
       let slot = slots ! unat (f_adr f - kBaseAddress);
           src = bs ! (case sl_mirror slot of Some k \<Rightarrow> k | None \<Rightarrow> sl_battery slot);
           module_count = sl_module_count slot;
           snap = snapshot (b_state src);
           have_live = (is_fresh now kFreshMs (b_state src) \<and> ss_cells snap \<noteq> None \<and> ss_pack snap \<noteq> None)
       in if \<not> have_live \<or> ss_settings snap = None then Some None
       else
         let cells = the (ss_cells snap); pack = the (ss_pack snap); lim = the (ss_settings snap);
             own = b_cfg (bs ! sl_battery slot);
             pack = (if sl_mirror slot \<noteq> None then reserve_pack own pack else pack);
             lim = (if sl_mirror slot \<noteq> None then reserve_limits own lim else lim)
         in if module_count = 0 then None
         else
           let pack = slice_pack module_count pack; lim = slice_limits module_count lim
           in if f_cid2 f = 0x42 then map_option Some (build_analog_response f cells pack)
              else if f_cid2 f = 0x44 then Some (Some (build_alarm_response f cells))
              else if f_cid2 f = 0x47 then Some (Some (build_system_param_response f lim))
              else if f_cid2 f = 0x92 then Some (Some (build_chgmgmt_response f pack lim))
              else Some None)"

section \<open>The receive loop\<close>

text \<open>
  The state of the loop: how often the clock was read, and the responses sent, unless the
  process has ended.  While the k-th frame is handled the batteries are \<open>bs k\<close> and the clock shows
  \<open>clock k\<close>.
\<close>

type_synonym inv_run = "(nat \<times> bytes list) option"

definition inverter_frame ::
    "(nat \<Rightarrow> BatteryObj list) \<Rightarrow> Slot list \<Rightarrow> (nat \<Rightarrow> int) \<Rightarrow> PylontechFrame \<Rightarrow> inv_run \<Rightarrow> inv_run" where
  "inverter_frame bs slots clock f st = do {
     (k, tx) \<leftarrow> st;
     r \<leftarrow> respond (bs k) slots (clock k) f;
     Some (Suc k, case r of None \<Rightarrow> tx | Some resp \<Rightarrow> tx @ [resp])
   }"

function process_buffer ::
    "(nat \<Rightarrow> BatteryObj list) \<Rightarrow> Slot list \<Rightarrow> (nat \<Rightarrow> int) \<Rightarrow> bytes \<Rightarrow> inv_run \<Rightarrow> (bytes \<times> inv_run) option" where
  "process_buffer bs slots clock buf st =
    (if buf = [] then Some (buf, st)
     else case try_parse_pylontech buf default_frame of
       None \<Rightarrow> None
     | Some (n, f) \<Rightarrow>
         if n = 0 then Some (buf, st)
         else if n < 0 then process_buffer bs slots clock (after_parse n buf) st
         else process_buffer bs slots clock (after_parse n buf) (inverter_frame bs slots clock f st))"
  by pat_completeness auto
termination
  by (relation "measure (\<lambda>(bs, slots, clock, buf, st). length buf)") (auto intro: after_parse_shorter)

declare process_buffer.simps [simp del]

definition inverter_on_bytes ::
    "(nat \<Rightarrow> BatteryObj list) \<Rightarrow> Slot list \<Rightarrow> (nat \<Rightarrow> int) \<Rightarrow> bytes \<Rightarrow> bytes \<Rightarrow> inv_run \<Rightarrow> (bytes \<times> inv_run) option" where
  "inverter_on_bytes bs slots clock data rx_buf st =
    (let rx_buf = (if length rx_buf + length data > kRxBufLimit then [] else rx_buf)
     in process_buffer bs slots clock (rx_buf @ data) st)"

lemma process_buffer_total: "\<exists>r. process_buffer bs slots clock buf st = Some r"
proof (induction buf arbitrary: st rule: scan_induct)
  case (stop buf f)
  then show ?case by (subst process_buffer.simps) simp
next
  case (step buf n f)
  then show ?case by (subst process_buffer.simps) simp
qed

interpretation il: frame_loop "\<lambda>buf st. the (process_buffer bs slots clock buf st)"
  "inverter_frame bs slots clock" for bs slots clock
proof
  fix buf f st n
  have ne: "buf \<noteq> []" if "try_parse_pylontech buf default_frame = Some (n, f)" "n \<noteq> 0" for n
    using that by (auto simp: try_parse_pylontech_def)
  show "the (process_buffer bs slots clock buf st) = (buf, st)"
    if "try_parse_pylontech buf default_frame = Some (0, f)"
    using that by (subst process_buffer.simps) simp
  show "the (process_buffer bs slots clock buf st) = the (process_buffer bs slots clock (after_parse n buf) st)"
    if "try_parse_pylontech buf default_frame = Some (n, f)" "n < 0"
    using that ne [OF that(1)] by (subst process_buffer.simps) simp
  show "the (process_buffer bs slots clock buf st) =
      the (process_buffer bs slots clock (after_parse n buf) (inverter_frame bs slots clock f st))"
    if "try_parse_pylontech buf default_frame = Some (n, f)" "n > 0"
    using that ne [OF that(1)] by (subst process_buffer.simps) simp
qed

lemma process_buffer_eq:
  "process_buffer bs slots clock buf st =
     Some (residue buf, fold (inverter_frame bs slots clock) (frames buf) st)"
  using process_buffer_total [of bs slots clock buf st] il.loop_eq [of bs slots clock buf st] by auto

section \<open>Blocks of the address map\<close>

definition module_count_of :: "BatteryObj list \<Rightarrow> nat \<Rightarrow> nat" where
  "module_count_of bs i = unat (module_count_for_capacity (configured_mah (b_cfg (bs ! i))))"

definition block_start :: "BatteryObj list \<Rightarrow> nat \<Rightarrow> nat" where
  "block_start bs i = (\<Sum>j \<leftarrow> [0..<i]. module_count_of bs j)"

lemma length_battery_slots [simp]: "length (battery_slots bs i) = module_count_of bs i"
  by (simp add: battery_slots_def module_count_of_def Let_def)

lemma address_map_split:
  assumes "i < length bs"
  shows "build_address_map bs =
    concat (map (battery_slots bs) [0..<i]) @ battery_slots bs i @
    concat (map (battery_slots bs) [Suc i..<length bs])"
proof -
  have "[0..<length bs] = [0..<i] @ i # [Suc i..<length bs]"
    using assms upt_add_eq_append [of 0 i "length bs - i"] by (simp add: upt_conv_Cons)
  then show ?thesis by (simp add: build_address_map_def)
qed

lemma address_map_nth:
  assumes "i < length bs" "k < module_count_of bs i"
  shows "build_address_map bs ! (block_start bs i + k) =
    \<lparr>sl_battery = i, sl_mirror = mirror_of bs (bs ! i),
     sl_module_count = module_count_for_capacity (configured_mah (b_cfg (bs ! i)))\<rparr>"
proof -
  have "length (concat (map (battery_slots bs) [0..<i])) = block_start bs i"
    by (simp add: block_start_def length_concat comp_def)
  then have "build_address_map bs ! (block_start bs i + k) = battery_slots bs i ! k"
    using assms by (simp add: address_map_split [OF assms(1)] nth_append)
  then show ?thesis using assms(2) by (simp add: battery_slots_def module_count_of_def Let_def)
qed

lemma length_address_map: "length (build_address_map bs) = block_start bs (length bs)"
  by (simp add: build_address_map_def block_start_def length_concat comp_def)

text \<open>Every slot belongs to the block of its battery.\<close>

lemma slot_in_block:
  assumes "s \<in> set (build_address_map bs)"
  shows "sl_battery s < length bs"
    "sl_module_count s = module_count_for_capacity (configured_mah (b_cfg (bs ! sl_battery s)))"
    "sl_mirror s = mirror_of bs (bs ! sl_battery s)" "sl_module_count s \<noteq> 0"
  using assms by (auto simp: build_address_map_def battery_slots_def Let_def)

lemma mirror_of_Some:
  assumes "mirror_of bs b = Some k"
  shows "k < length bs" "bc_name (b_cfg (bs ! k)) = bc_mirror (b_cfg b)" "\<not> bc_monitored (b_cfg b)"
  using assms by (auto simp: mirror_of_def find_Some_iff split: if_splits)

section \<open>One request\<close>

text \<open>What a request is answered from: the slot it addresses and the battery behind it.\<close>

abbreviation slot_at :: "Slot list \<Rightarrow> PylontechFrame \<Rightarrow> Slot" where
  "slot_at slots f \<equiv> slots ! unat (f_adr f - kBaseAddress)"

abbreviation source_of :: "BatteryObj list \<Rightarrow> Slot \<Rightarrow> BatteryObj" where
  "source_of bs s \<equiv> bs ! (case sl_mirror s of Some k \<Rightarrow> k | None \<Rightarrow> sl_battery s)"

definition addressed :: "Slot list \<Rightarrow> PylontechFrame \<Rightarrow> bool" where
  "addressed slots f \<longleftrightarrow> kBaseAddress \<le> f_adr f \<and> unat (f_adr f - kBaseAddress) < length slots"

text \<open>The share of a module, in all the fields the responses use.\<close>

definition module_pack :: "BatteryObj list \<Rightarrow> Slot \<Rightarrow> JkPackInfo" where
  "module_pack bs s =
    (let p = the (ss_pack (b_state (source_of bs s)))
     in slice_pack (sl_module_count s)
          (if sl_mirror s \<noteq> None then reserve_pack (b_cfg (bs ! sl_battery s)) p else p))"

definition module_limits :: "BatteryObj list \<Rightarrow> Slot \<Rightarrow> JkSettings" where
  "module_limits bs s =
    (let l = the (ss_settings (b_state (source_of bs s)))
     in slice_limits (sl_module_count s)
          (if sl_mirror s \<noteq> None then reserve_limits (b_cfg (bs ! sl_battery s)) l else l))"

definition ready :: "BatteryObj list \<Rightarrow> Slot \<Rightarrow> int \<Rightarrow> bool" where
  "ready bs s now \<longleftrightarrow> is_fresh now kFreshMs (b_state (source_of bs s)) \<and>
     ss_settings (b_state (source_of bs s)) \<noteq> None"

lemma respond_silent:
  "\<not> (addressed slots f \<and> ready bs (slot_at slots f) now) \<Longrightarrow> respond bs slots now f = Some None"
  by (auto simp: respond_def addressed_def ready_def Let_def snapshot_def not_less not_le)

lemma respond_ready:
  assumes "addressed slots f" "ready bs (slot_at slots f) now" "sl_module_count (slot_at slots f) \<noteq> 0"
  defines "s \<equiv> slot_at slots f"
  defines "cells \<equiv> the (ss_cells (b_state (source_of bs s)))"
  shows "respond bs slots now f =
    (if f_cid2 f = 0x42 then map_option Some (build_analog_response f cells (module_pack bs s))
     else if f_cid2 f = 0x44 then Some (Some (build_alarm_response f cells))
     else if f_cid2 f = 0x47 then Some (Some (build_system_param_response f (module_limits bs s)))
     else if f_cid2 f = 0x92 then Some (Some (build_chgmgmt_response f (module_pack bs s) (module_limits bs s)))
     else Some None)"
proof -
  have "\<not> (f_adr f < kBaseAddress \<or> unat (f_adr f - kBaseAddress) \<ge> length slots)"
    using assms(1) by (auto simp: addressed_def)
  moreover define src where "src = source_of bs s"
  moreover obtain c p l where "ss_cells (b_state src) = Some c" "ss_pack (b_state src) = Some p"
    "is_fresh now kFreshMs (b_state src)" "ss_settings (b_state src) = Some l"
    using assms(2) unfolding s_def [symmetric] src_def
    by (auto simp: ready_def is_fresh_def split: if_splits)
  ultimately show ?thesis
    using assms(3)
    unfolding respond_def Let_def snapshot_def s_def [symmetric] cells_def module_pack_def
      module_limits_def src_def [symmetric]
    by simp
qed

lemma wire_frame:
  assumes "respond bs slots now f = Some (Some wire)"
  shows "\<exists>g. wire = build_pylontech g \<and> f_ver g = f_ver f \<and> f_adr g = f_adr f \<and>
    f_cid1 g = 0x46 \<and> f_cid2 g = 0"
  using assms
  by (auto simp: respond_def Let_def build_analog_response_def build_alarm_response_def
      build_system_param_response_def build_chgmgmt_response_def ok_response_def default_frame_def
      split: if_splits)

section \<open>Shares of a module\<close>

text \<open>The division of C++ truncates towards zero.\<close>

lemma sdiv_pos: "0 < d \<Longrightarrow> (c :: int) sdiv d = sgn c * (\<bar>c\<bar> div d)"
  by (simp add: signed_divide_int_def)

lemma sdiv_between:
  assumes "0 < (d :: int)"
  shows "min c 0 \<le> c sdiv d" "c sdiv d \<le> max c 0"
proof -
  have "\<bar>c\<bar> div d \<le> \<bar>c\<bar> div 1" using assms by (intro zdiv_mono2) auto
  moreover have "0 \<le> \<bar>c\<bar> div d" using assms by (simp add: pos_imp_zdiv_nonneg_iff)
  ultimately have "\<bar>c\<bar> div d \<le> \<bar>c\<bar>" "0 \<le> \<bar>c\<bar> div d" by simp_all
  then show "min c 0 \<le> c sdiv d" "c sdiv d \<le> max c 0"
    by (auto simp: sdiv_pos [OF assms] sgn_if)
qed

lemma sdiv_sdiv:
  assumes "0 < (d :: int)" "0 < e"
  shows "c sdiv d sdiv e = c sdiv (d * e)"
proof -
  have de: "0 < d * e" using assms by simp
  define q where "q = \<bar>c\<bar> div d"
  have q: "0 \<le> q" using assms by (simp add: q_def pos_imp_zdiv_nonneg_iff)
  have "\<bar>c\<bar> div (d * e) = q div e" using assms by (simp add: q_def zdiv_zmult2_eq)
  then have r: "c sdiv (d * e) = sgn c * (q div e)" by (simp add: sdiv_pos [OF de])
  have l: "c sdiv d sdiv e = sgn (sgn c * q) * (\<bar>sgn c * q\<bar> div e)"
    by (simp only: sdiv_pos [OF assms(1)] sdiv_pos [OF assms(2)] q_def)
  show ?thesis
  proof (cases "c = 0 \<or> q = 0")
    case False
    then have "sgn (sgn c * q) = sgn c" "\<bar>sgn c * q\<bar> = q" using q by (auto simp: sgn_if)
    then show ?thesis unfolding l r by simp
  qed (auto simp: l r)
qed

lemma sdiv_rest: "0 < (d :: int) \<Longrightarrow> \<bar>c - d * (c sdiv d)\<bar> < d"
proof -
  assume d: "0 < d"
  have "\<bar>c\<bar> - d * (\<bar>c\<bar> div d) = \<bar>c\<bar> mod d" by (simp add: minus_mult_div_eq_mod)
  moreover have "0 \<le> \<bar>c\<bar> mod d" "\<bar>c\<bar> mod d < d" using d by simp_all
  ultimately show ?thesis by (auto simp: sdiv_pos [OF d] sgn_if)
qed

lemma slice_pack_fields:
  assumes "n \<noteq> 0"
  shows "unat (total_capacity_mah (slice_pack n p)) = unat (total_capacity_mah p) div unat n"
    "unat (remaining_capacity_mah (slice_pack n p)) = unat (remaining_capacity_mah p) div unat n"
    "sint (current_ma (slice_pack n p)) = sint (current_ma p) sdiv uint n"
proof -
  have n: "unat (ucast n :: u32) = unat n"
    using unat_u8_less [of n] by (simp add: unsigned_ucast_eq take_bit_nat_eq_self)
  show "unat (total_capacity_mah (slice_pack n p)) = unat (total_capacity_mah p) div unat n"
    "unat (remaining_capacity_mah (slice_pack n p)) = unat (remaining_capacity_mah p) div unat n"
    by (simp_all add: slice_pack_def unat_div_distrib n)
  have "uint n > 0" using assms by (simp add: uint_0_iff less_le)
  from sdiv_between [OF this, of "sint (current_ma p)"]
  have "- 2147483648 \<le> sint (current_ma p) sdiv uint n" "sint (current_ma p) sdiv uint n \<le> 2147483647"
    using sint_i32_range [of "current_ma p"] by auto
  then show "sint (current_ma (slice_pack n p)) = sint (current_ma p) sdiv uint n"
    by (simp add: slice_pack_def sint_word_of_int_i32)
qed

lemma reserve_pack_fields:
  assumes "unat (configured_mah c) \<le> 42949672" "state_of_charge_pct p \<le> 100"
  shows "unat (remaining_capacity_mah (reserve_pack c p)) =
    unat (configured_mah c) * unat (state_of_charge_pct p) div 100"
proof -
  let ?soc = "ucast (state_of_charge_pct p) :: u32"
  have soc: "unat ?soc = unat (state_of_charge_pct p)"
    using unat_u8_less [of "state_of_charge_pct p"] by (simp add: unsigned_ucast_eq take_bit_nat_eq_self)
  have "unat (state_of_charge_pct p) \<le> 100" using assms(2) by (simp add: word_le_nat_alt)
  with assms(1) have "unat (configured_mah c) * unat ?soc \<le> 42949672 * 100"
    unfolding soc by (rule mult_le_mono)
  then have "unat (configured_mah c * ?soc) = unat (configured_mah c) * unat ?soc"
    by (simp add: unat_word_ariths)
  then show ?thesis by (simp add: reserve_pack_def Let_def unat_div_distrib soc)
qed

lemma analog_of_module:
  assumes "analog_of f cells pack = Some a"
    and "unat (total_capacity_mah pack) \<le> 65000" "unat (remaining_capacity_mah pack) \<le> 65535"
  shows "unat (a_total_capacity_mah a) = unat (total_capacity_mah pack)"
    "unat (a_remain_capacity_mah a) = unat (remaining_capacity_mah pack)"
proof -
  have "scale_capacity_to_u16 (total_capacity_mah pack) (remaining_capacity_mah pack) =
      Some (ucast (total_capacity_mah pack), ucast (remaining_capacity_mah pack))"
    using assms(2) by (simp add: scale_capacity_to_u16_def le_kCapU16Max)
  with analog_of_fields(6) [OF assms(1)] have
    "a_total_capacity_mah a = ucast (total_capacity_mah pack)"
    "a_remain_capacity_mah a = ucast (remaining_capacity_mah pack)" by simp_all
  then show "unat (a_total_capacity_mah a) = unat (total_capacity_mah pack)"
    "unat (a_remain_capacity_mah a) = unat (remaining_capacity_mah pack)"
    using assms(2,3) by (simp_all add: unat_ucast_16)
qed

lemma analog_of_current:
  assumes "analog_of f cells pack = Some a" "\<bar>sint (current_ma pack)\<bar> \<le> 3276799"
  shows "sint (a_current_01a a) = sint (current_ma pack) sdiv 100"
proof -
  have "\<bar>sint (current_ma pack) sdiv 100\<bar> \<le> 32767"
    using assms(2) zdiv_mono1 [OF assms(2), of 100] by (simp add: sdiv_100_range(2))
  then show ?thesis
    unfolding analog_of_fields(4) [OF assms(1)] sint_clamp_i16 sdiv_100_range(1) by simp
qed

lemma unat_mult_div_le: "n \<noteq> 0 \<Longrightarrow> n * (t div n) \<le> t \<and> t < n * (t div n) + (n :: nat)"
  by (metis div_mult_mod_eq le_add1 mod_less_divisor mult.commute nat_add_left_cancel_less neq0_conv)

section \<open>Crashes\<close>

lemma analog_None: "build_analog_response f cells pack = None \<longleftrightarrow> 4294902296 < unat (total_capacity_mah pack)"
  using scale_wraps [of "total_capacity_mah pack" "remaining_capacity_mah pack"]
  by (simp add: build_analog_response_def analog_of_def Let_def)

lemma respond_crashes:
  assumes "addressed slots f \<Longrightarrow> sl_module_count (slot_at slots f) \<noteq> 0"
  shows "respond bs slots now f = None \<longleftrightarrow>
    addressed slots f \<and> ready bs (slot_at slots f) now \<and> f_cid2 f = 0x42 \<and>
    4294902296 < unat (total_capacity_mah (module_pack bs (slot_at slots f)))"
proof (cases "addressed slots f \<and> ready bs (slot_at slots f) now")
  case True
  then show ?thesis using assms
    by (simp add: respond_ready analog_None)
qed (use respond_silent [of slots f bs now] in auto)

lemma slot_at_map:
  assumes "addressed (build_address_map bs) f"
  shows "slot_at (build_address_map bs) f \<in> set (build_address_map bs)"
  using assms by (simp add: addressed_def)

lemma map_filter_append:
  "List.map_filter g (xs @ ys) = List.map_filter g xs @ List.map_filter g ys"
  by (simp add: List.map_filter_def)

text \<open>Frames are answered in their order.\<close>

lemma frames_answered:
  assumes "\<forall>i < length jfs. respond (bs i) slots (clock i) (snd (jfs ! i)) \<noteq> None"
  shows "fold (inverter_frame bs slots clock) (map snd jfs) (Some (0, [])) =
    Some (length jfs, List.map_filter (\<lambda>i. the (respond (bs i) slots (clock i) (snd (jfs ! i)))) [0..<length jfs])"
proof -
  have "fold (inverter_frame bs slots clock) (take m (map snd jfs)) (Some (0, [])) =
      Some (m, List.map_filter (\<lambda>i. the (respond (bs i) slots (clock i) (snd (jfs ! i)))) [0..<m])"
    if "m \<le> length jfs" for m
    using that
  proof (induction m)
    case (Suc m)
    then obtain r where r: "respond (bs m) slots (clock m) (snd (jfs ! m)) = Some r" using assms by fastforce
    have "take (Suc m) (map snd jfs) = take m (map snd jfs) @ [snd (jfs ! m)]"
      using Suc.prems by (simp add: take_Suc_conv_app_nth)
    then show ?case
      using Suc r by (simp add: inverter_frame_def map_filter_append map_filter_simps split: option.split)
  qed (simp add: map_filter_simps)
  from this [of "length jfs"] show ?thesis by simp
qed

lemma inverter_frame_None: "fold (inverter_frame bs slots clock) fs None = None"
  by (induction fs) (simp_all add: inverter_frame_def)

text \<open>All of them, or the process has ended.\<close>

lemma frames_outcome:
  "fold (inverter_frame bs slots clock) (map snd jfs) (Some (0, [])) =
    (if list_all (\<lambda>i. respond (bs i) slots (clock i) (snd (jfs ! i)) \<noteq> None) [0..<length jfs]
     then Some (length jfs, List.map_filter (\<lambda>i. the (respond (bs i) slots (clock i) (snd (jfs ! i)))) [0..<length jfs])
     else None)"
proof (cases "\<forall>i < length jfs. respond (bs i) slots (clock i) (snd (jfs ! i)) \<noteq> None")
  case True
  then show ?thesis using frames_answered [of jfs bs slots clock] by (simp add: list_all_iff)
next
  case False
  define m where "m = (LEAST i. i < length jfs \<and> respond (bs i) slots (clock i) (snd (jfs ! i)) = None)"
  have m: "m < length jfs" "respond (bs m) slots (clock m) (snd (jfs ! m)) = None"
    using False LeastI_ex [of "\<lambda>i. i < length jfs \<and> respond (bs i) slots (clock i) (snd (jfs ! i)) = None"]
    by (auto simp: m_def)
  have before: "respond (bs i) slots (clock i) (snd (take m jfs ! i)) \<noteq> None" if "i < m" for i
    using that m(1) not_less_Least [of i "\<lambda>i. i < length jfs \<and> respond (bs i) slots (clock i) (snd (jfs ! i)) = None"]
    by (auto simp: m_def)
  have "length (take m jfs) = m" using m(1) by simp
  with before frames_answered [of "take m jfs" bs slots clock] obtain tx where
    tx: "fold (inverter_frame bs slots clock) (map snd (take m jfs)) (Some (0, [])) = Some (m, tx)"
    by simp
  have "map snd jfs = map snd (take m jfs) @ snd (jfs ! m) # map snd (drop (Suc m) jfs)"
    using arg_cong [OF id_take_nth_drop [OF m(1)], of "map snd"] by simp
  then have "fold (inverter_frame bs slots clock) (map snd jfs) (Some (0, [])) =
      fold (inverter_frame bs slots clock) (map snd (drop (Suc m) jfs))
        (inverter_frame bs slots clock (snd (jfs ! m)) (Some (m, tx)))"
    by (simp only: fold_append fold.simps comp_apply tx)
  then show ?thesis using m False
    by (auto simp: inverter_frame_def inverter_frame_None list_all_iff)
qed

section \<open>A sample installation\<close>

text \<open>A monitored battery of 280 Ah and a reserve of 100 Ah that mirrors it.\<close>

definition sample_config :: "string \<Rightarrow> BatteryLink \<Rightarrow> i32 \<Rightarrow> string \<Rightarrow> BatteryConfig" where
  "sample_config name link cap mirror =
     \<lparr>bc_name = name, bc_link = link, bc_link_raw = [], bc_address = ''-'', bc_capacity = cap,
      bc_protocol = ''jk_bt'', bc_service_uuid = [], bc_char_write_uuid = [], bc_char_notify_uuid = [],
      bc_scan_timeout_ms = 10000, bc_adapter_poll_ms = 2000, bc_uart_baud = 115200,
      bc_pylontech_address = 0, bc_mirror = mirror, bc_reconnect_ms = 5000,
      bc_bms_poll_period_ms = 5000, bc_settings_refresh_period_ms = 60000,
      bc_bms_state_update_interval_ms = 500\<rparr>"

definition sample_live :: "u32 \<Rightarrow> SharedState" where
  "sample_live cap =
     \<lparr>ss_connected = True, ss_cells = Some JkCellInfo_default,
      ss_pack = Some (JkPackInfo_default\<lparr>total_capacity_mah := cap, remaining_capacity_mah := cap div 2,
        state_of_charge_pct := 50, current_ma := 10000\<rparr>),
      ss_settings = Some JkSettings_default, ss_updated_at = 0\<rparr>"

definition sample_batteries :: "u32 \<Rightarrow> BatteryObj list" where
  "sample_batteries cap =
     [\<lparr>b_cfg = sample_config ''a'' Bluetooth 280 [], b_state = sample_live cap\<rparr>,
      \<lparr>b_cfg = sample_config ''r'' Reserve 100 ''a'', b_state = shared_init\<rparr>]"

definition sample_slots :: "Slot list" where
  "sample_slots = replicate 5 \<lparr>sl_battery = 0, sl_mirror = None, sl_module_count = 5\<rparr> @
     replicate 2 \<lparr>sl_battery = 1, sl_mirror = Some 0, sl_module_count = 2\<rparr>"

lemma sample_counts: "module_count_for_capacity 280000 = 5" "module_count_for_capacity 100000 = 2"
  by code_simp+

lemma sample_map: "build_address_map (sample_batteries cap) = sample_slots"
proof -
  have "unat (5 :: u8) = 5" "unat (2 :: u8) = 2" by simp_all
  then show ?thesis
    by (simp add: build_address_map_def battery_slots_def sample_batteries_def sample_slots_def
        sample_config_def configured_mah_def mirror_of_def bc_monitored_def sample_counts Let_def
        upt_rec del: unsigned_numeral)
qed

definition sample_request :: PylontechFrame where
  "sample_request = default_frame\<lparr>f_adr := 3, f_cid2 := 0x47\<rparr>"

lemma sample_answer: "\<exists>wire. respond (sample_batteries 280000) sample_slots 4000 sample_request = Some (Some wire)"
proof -
  have s: "slot_at sample_slots sample_request = \<lparr>sl_battery = 0, sl_mirror = None, sl_module_count = 5\<rparr>"
    by (simp add: sample_request_def sample_slots_def kBaseAddress_def nth_append)
  have "addressed sample_slots sample_request"
    by (simp add: sample_request_def addressed_def sample_slots_def kBaseAddress_def)
  moreover have "ready (sample_batteries 280000) (slot_at sample_slots sample_request) 4000"
    unfolding s by (simp add: ready_def is_fresh_def sample_batteries_def sample_live_def kFreshMs_def)
  ultimately show ?thesis
    using respond_ready [of sample_slots sample_request "sample_batteries 280000" 4000] s
    by (simp add: sample_request_def)
qed

section \<open>Properties\<close>

text \<open>C1: The inverter side answers a request only when its address belongs to a configured
  battery whose data source is connected, has telemetry not older than five seconds and has
  settings; the answer is one frame the parser accepts, from the address that was asked,
  with return code 0.\<close>

theorem answers_only_from_live_data:
  assumes "respond bs slots now f = Some (Some wire)"
  shows "kBaseAddress \<le> f_adr f \<and> unat (f_adr f - kBaseAddress) < length slots \<and>
    is_fresh now 5000 (b_state (source_of bs (slot_at slots f))) \<and>
    ss_settings (b_state (source_of bs (slot_at slots f))) \<noteq> None \<and>
    (\<exists>g. try_parse_pylontech (wire @ rest) out = Some (int (length wire), g) \<and>
       f_ver g = f_ver f \<and> f_adr g = f_adr f \<and> f_cid1 g = 0x46 \<and> f_cid2 g = 0)"
proof -
  have "addressed slots f \<and> ready bs (slot_at slots f) now"
    using respond_silent [of slots f bs now] assms by fastforce
  moreover from wire_frame [OF assms] obtain g where "wire = build_pylontech g" "f_ver g = f_ver f"
    "f_adr g = f_adr f" "f_cid1 g = 0x46" "f_cid2 g = 0" by blast
  moreover from this have "try_parse_pylontech (wire @ rest) out = Some (int (length wire), g)"
    using parse_build by simp
  ultimately show ?thesis
    unfolding addressed_def ready_def kFreshMs_def by blast
qed

lemma answers_only_from_live_data_witness:
  "is_fresh 4000 5000 (b_state (source_of (sample_batteries 280000)
     (slot_at sample_slots sample_request)))"
  using answers_only_from_live_data [of "sample_batteries 280000" sample_slots 4000 sample_request] sample_answer
  by blast

text \<open>C9: The address map gives each battery one contiguous block of module addresses, in
  configuration order and as long as its module count; it depends on the configuration only,
  never on live telemetry.\<close>

theorem address_map_blocks:
  "length (build_address_map bs) = block_start bs (length bs) \<and>
   (\<forall>i k. i < length bs \<and> k < module_count_of bs i \<longrightarrow>
      build_address_map bs ! (block_start bs i + k) =
        \<lparr>sl_battery = i, sl_mirror = mirror_of bs (bs ! i),
         sl_module_count = module_count_for_capacity (configured_mah (b_cfg (bs ! i)))\<rparr>) \<and>
   build_address_map (map (\<lambda>b. b\<lparr>b_state := live b\<rparr>) bs) = build_address_map bs"
proof -
  let ?bs' = "map (\<lambda>b. b\<lparr>b_state := live b\<rparr>) bs"
  have "find (\<lambda>i. bc_name (b_cfg (?bs' ! i)) = w) [0..<length bs] =
      find (\<lambda>i. bc_name (b_cfg (bs ! i)) = w) [0..<length bs]" for w
    by (rule find_cong) simp_all
  then have "battery_slots ?bs' i = battery_slots bs i" if "i < length bs" for i
    using that by (simp add: battery_slots_def mirror_of_def Let_def)
  then have "build_address_map ?bs' = build_address_map bs"
    unfolding build_address_map_def length_map by (intro arg_cong [of _ _ concat] map_cong) simp_all
  then show ?thesis using address_map_nth [of _ bs] length_address_map [of bs] by blast
qed

lemma address_map_blocks_witness:
  "build_address_map (sample_batteries 280000) ! 5 = \<lparr>sl_battery = 1, sl_mirror = Some 0, sl_module_count = 2\<rparr>"
proof -
  have "module_count_of (sample_batteries 280000) 0 = 5" "module_count_of (sample_batteries 280000) 1 = 2"
    "mirror_of (sample_batteries 280000) (sample_batteries 280000 ! 1) = Some 0"
    by (simp_all add: module_count_of_def sample_batteries_def sample_config_def configured_mah_def
        sample_counts mirror_of_def bc_monitored_def upt_rec)
  then show ?thesis
    using address_map_blocks [of "sample_batteries 280000" b_state]
    by (force simp: block_start_def sample_batteries_def sample_config_def configured_mah_def sample_counts
        dest: spec [of _ 1])
qed

text \<open>The shares of the modules of a monitored battery, in the fields of one analog response.\<close>

lemma module_shares:
  assumes "s \<in> set (build_address_map bs)" "sl_mirror s = None"
    and "ss_pack (b_state (bs ! sl_battery s)) = Some p"
    and "analog_of f cells (module_pack bs s) = Some a"
  defines "n \<equiv> sl_module_count s"
  assumes "unat (total_capacity_mah p) \<le> unat n * 65000"
    and "unat (remaining_capacity_mah p) div unat n \<le> 65535"
    and "\<bar>sint (current_ma p) sdiv uint n\<bar> \<le> 3276799"
  shows "unat n * unat (a_total_capacity_mah a) \<le> unat (total_capacity_mah p)"
    "unat (total_capacity_mah p) < unat n * unat (a_total_capacity_mah a) + unat n"
    "unat n * unat (a_remain_capacity_mah a) \<le> unat (remaining_capacity_mah p)"
    "unat (remaining_capacity_mah p) < unat n * unat (a_remain_capacity_mah a) + unat n"
    "\<bar>sint (current_ma p) - uint n * 100 * sint (a_current_01a a)\<bar> < uint n * 100"
proof -
  have n0: "n \<noteq> 0" using slot_in_block(4) [OF assms(1)] by (simp add: n_def)
  then have un: "unat n \<noteq> 0" and in0: "0 < uint n" by (simp_all add: unat_eq_0 uint_0_iff less_le)
  have mp: "module_pack bs s = slice_pack n p"
    using assms(2,3) by (simp add: module_pack_def n_def)
  note fields = slice_pack_fields [OF n0, of p]
  have tot: "unat (total_capacity_mah (slice_pack n p)) \<le> 65000"
    unfolding fields(1) using div_le_mono [OF assms(6), of "unat n"] un by simp
  have rem: "unat (remaining_capacity_mah (slice_pack n p)) \<le> 65535"
    unfolding fields by (rule assms(7))
  note a = assms(4) [unfolded mp]
  have cur: "\<bar>sint (current_ma (slice_pack n p))\<bar> \<le> 3276799"
    unfolding fields(3) by (rule assms(8))
  have c: "sint (a_current_01a a) = sint (current_ma p) sdiv (uint n * 100)"
    using analog_of_current [OF a cur] fields(3) in0 by (simp add: sdiv_sdiv)
  show "unat n * unat (a_total_capacity_mah a) \<le> unat (total_capacity_mah p)"
    "unat (total_capacity_mah p) < unat n * unat (a_total_capacity_mah a) + unat n"
    "unat n * unat (a_remain_capacity_mah a) \<le> unat (remaining_capacity_mah p)"
    "unat (remaining_capacity_mah p) < unat n * unat (a_remain_capacity_mah a) + unat n"
    "\<bar>sint (current_ma p) - uint n * 100 * sint (a_current_01a a)\<bar> < uint n * 100"
    using unat_mult_div_le [OF un, of "unat (total_capacity_mah p)"]
      unat_mult_div_le [OF un, of "unat (remaining_capacity_mah p)"]
      sdiv_rest [of "uint n * 100" "sint (current_ma p)"] in0
    by (simp_all add: analog_of_module [OF a tot rem] fields(1,2) c)
qed

text \<open>C8: The modules of a monitored battery add up to the pack.  Let an analog request to a module of
  battery \<open>s\<close> be answered, the battery having live pack data \<open>p\<close> and at most 255 cell voltages.  If
  its live capacity is at most 65000 mAh per module of its block, and the module's shares of the remaining
  capacity and of the current fit their 16-bit fields (65535 mAh, 3276.7 A), then the answer
  decodes to a total capacity, a remaining capacity and a current that, times the module count, differ from
  the pack's by less than one unit (1 mAh, 100 mA) per module.\<close>

theorem modules_add_up:
  assumes "respond bs (build_address_map bs) now f = Some (Some wire)" "f_cid2 f = 0x42"
  defines "s \<equiv> slot_at (build_address_map bs) f"
  defines "n \<equiv> sl_module_count s"
  assumes "sl_mirror s = None"
    and "ss_pack (b_state (bs ! sl_battery s)) = Some p"
    and "ss_cells (b_state (bs ! sl_battery s)) = Some cells" "length (voltages_mv cells) \<le> 255"
    and "unat (total_capacity_mah p) \<le> unat n * 65000"
    and "unat (remaining_capacity_mah p) div unat n \<le> 65535"
    and "\<bar>sint (current_ma p) sdiv uint n\<bar> \<le> 3276799"
  shows "\<exists>g a. try_parse_pylontech (wire @ rest) out = Some (int (length wire), g) \<and>
    AnalogResponse_deserialize (f_info g) = (True, a) \<and>
    unat n * unat (a_total_capacity_mah a) \<le> unat (total_capacity_mah p) \<and>
    unat (total_capacity_mah p) < unat n * unat (a_total_capacity_mah a) + unat n \<and>
    unat n * unat (a_remain_capacity_mah a) \<le> unat (remaining_capacity_mah p) \<and>
    unat (remaining_capacity_mah p) < unat n * unat (a_remain_capacity_mah a) + unat n \<and>
    \<bar>sint (current_ma p) - uint n * 100 * sint (a_current_01a a)\<bar> < uint n * 100"
proof -
  have adr: "addressed (build_address_map bs) f" "ready bs s now"
    using respond_silent [of "build_address_map bs" f bs now] assms(1) by (auto simp: s_def)
  have s: "s \<in> set (build_address_map bs)" unfolding s_def by (rule slot_at_map [OF adr(1)])
  have "map_option Some (build_analog_response f cells (module_pack bs s)) = Some (Some wire)"
    using respond_ready [OF adr(1) adr(2) [unfolded s_def]] slot_in_block(4) [OF s] assms(1,2,5,7)
    by (simp add: s_def)
  then have "build_analog_response f cells (module_pack bs s) = Some wire" by auto
  from analog_response_on_the_wire_fields [OF this assms(8)] obtain g a where
    "try_parse_pylontech (wire @ rest) out = Some (int (length wire), g)"
    "analog_of f cells (module_pack bs s) = Some a" "AnalogResponse_deserialize (f_info g) = (True, a)"
    by blast
  then show ?thesis
    using module_shares [OF s assms(5,6) _ assms(9-11) [unfolded n_def]] unfolding n_def by blast
qed

lemma modules_add_up_witness:
  "\<exists>wire g a. respond (sample_batteries 280000) sample_slots 4000 (sample_request\<lparr>f_cid2 := 0x42\<rparr>) = Some (Some wire) \<and>
     try_parse_pylontech wire default_frame = Some (int (length wire), g) \<and>
     AnalogResponse_deserialize (f_info g) = (True, a) \<and>
     5 * unat (a_total_capacity_mah a) \<le> 280000 \<and> 280000 < 5 * unat (a_total_capacity_mah a) + 5"
proof -
  let ?bs = "sample_batteries 280000" and ?f = "sample_request\<lparr>f_cid2 := 0x42\<rparr>"
  let ?p = "JkPackInfo_default\<lparr>total_capacity_mah := 280000, remaining_capacity_mah := 280000 div 2,
        state_of_charge_pct := 50, current_ma := 10000\<rparr>"
  have s: "slot_at (build_address_map ?bs) ?f = \<lparr>sl_battery = 0, sl_mirror = None, sl_module_count = 5\<rparr>"
    unfolding sample_map by (simp add: sample_request_def sample_slots_def kBaseAddress_def nth_append)
  have adr: "addressed (build_address_map ?bs) ?f"
    unfolding sample_map by (simp add: sample_request_def addressed_def sample_slots_def kBaseAddress_def)
  have rdy: "ready ?bs (slot_at (build_address_map ?bs) ?f) 4000"
    unfolding s by (simp add: ready_def is_fresh_def sample_batteries_def sample_live_def kFreshMs_def)
  have p: "ss_pack (b_state (?bs ! 0)) = Some ?p" "ss_cells (b_state (?bs ! 0)) = Some JkCellInfo_default"
    by (simp_all add: sample_batteries_def sample_live_def)
  have "respond ?bs (build_address_map ?bs) 4000 ?f \<noteq> None"
    using respond_crashes [of "build_address_map ?bs" ?f ?bs 4000] p
    unfolding s by (simp add: module_pack_def slice_pack_def)
  then obtain wire where w: "respond ?bs (build_address_map ?bs) 4000 ?f = Some (Some wire)"
    using respond_ready [OF adr rdy] unfolding s by fastforce
  have "f_cid2 ?f = 0x42" "length (voltages_mv JkCellInfo_default) \<le> 255" by (simp_all add: JkCellInfo_default_def)
  from modules_add_up [OF w this(1), unfolded s, simplified, OF p this(2), of "[]" default_frame] w
  show ?thesis by (auto simp: sample_map signed_divide_int_def)
qed

text \<open>A module of a reserve shows the voltages and temperatures of its mirror, no current,
  its own configured capacity split over its modules, a remaining capacity that is the
  mirror's state of charge of it, and the current limit of half its own capacity per hour.\<close>

theorem reserve_values:
  assumes "s \<in> set (build_address_map bs)" "sl_mirror s = Some k"
    and "ss_pack (b_state (bs ! k)) = Some p" "ss_settings (b_state (bs ! k)) = Some l"
  defines "n \<equiv> unat (sl_module_count s)" and "c \<equiv> b_cfg (bs ! sl_battery s)"
  assumes "unat (configured_mah c) \<le> 42949672" "state_of_charge_pct p \<le> 100"
  shows "\<not> bc_monitored c \<and> bc_name (b_cfg (bs ! k)) = bc_mirror c \<and>
    current_ma (module_pack bs s) = 0 \<and>
    unat (total_capacity_mah (module_pack bs s)) = unat (configured_mah c) div n \<and>
    unat (remaining_capacity_mah (module_pack bs s)) =
      unat (configured_mah c) * unat (state_of_charge_pct p) div 100 div n \<and>
    state_of_charge_pct (module_pack bs s) = state_of_charge_pct p \<and>
    voltage_mv (module_pack bs s) = voltage_mv p \<and>
    battery_temp1_dC (module_pack bs s) = battery_temp1_dC p \<and>
    unat (max_charge_current_ma (module_limits bs s)) = unat (configured_mah c) * 5 div 10 div n \<and>
    unat (max_discharge_current_ma (module_limits bs s)) = unat (configured_mah c) * 5 div 10 div n"
proof -
  have n0: "sl_module_count s \<noteq> 0" using slot_in_block(4) [OF assms(1)] by simp
  have mo: "mirror_of bs (bs ! sl_battery s) = Some k"
    using slot_in_block(3) [OF assms(1)] assms(2) by simp
  have mp: "module_pack bs s = slice_pack (sl_module_count s) (reserve_pack c p)"
    and ml: "module_limits bs s = slice_limits (sl_module_count s) (reserve_limits c l)"
    using assms(2-4) by (simp_all add: module_pack_def module_limits_def c_def)
  have "unat (configured_mah c * kReserveCRateTenths div 10) = unat (configured_mah c) * 5 div 10"
    using assms(7) by (simp add: unat_div_distrib kReserveCRateTenths_def unat_word_ariths)
  then have ilim: "unat (bc_capacity c * 1000 * kReserveCRateTenths div 10) = unat (configured_mah c) * 5 div 10"
    by (simp add: configured_mah_def)
  have un: "unat (ucast (sl_module_count s) :: u32) = n"
    using unat_u8_less [of "sl_module_count s"]
    by (simp add: n_def unsigned_ucast_eq take_bit_nat_eq_self)
  have tot: "total_capacity_mah (reserve_pack c p) = configured_mah c"
    and cur: "current_ma (reserve_pack c p) = 0"
    by (simp_all add: reserve_pack_def Let_def)
  have "current_ma (module_pack bs s) = 0"
    unfolding mp by (simp add: slice_pack_def cur)
  moreover have "state_of_charge_pct (module_pack bs s) = state_of_charge_pct p"
    "voltage_mv (module_pack bs s) = voltage_mv p"
    "battery_temp1_dC (module_pack bs s) = battery_temp1_dC p"
    unfolding mp by (simp_all add: slice_pack_def reserve_pack_def Let_def)
  moreover have "unat (max_charge_current_ma (module_limits bs s)) = unat (configured_mah c) * 5 div 10 div n"
    "unat (max_discharge_current_ma (module_limits bs s)) = unat (configured_mah c) * 5 div 10 div n"
    unfolding ml by (simp_all add: slice_limits_def reserve_limits_def Let_def ilim un
        unat_div_distrib [of "bc_capacity c * 1000 * kReserveCRateTenths div 10"])
  moreover have "unat (total_capacity_mah (module_pack bs s)) = unat (configured_mah c) div n"
    "unat (remaining_capacity_mah (module_pack bs s)) =
      unat (configured_mah c) * unat (state_of_charge_pct p) div 100 div n"
    unfolding mp slice_pack_fields(1,2) [OF n0] tot reserve_pack_fields [OF assms(7,8)] n_def
    by simp_all
  ultimately show ?thesis
    using mirror_of_Some [OF mo] by (simp add: c_def)
qed

lemma reserve_values_witness:
  "unat (total_capacity_mah (module_pack (sample_batteries 280000) (sample_slots ! 5))) = 50000 \<and>
   unat (remaining_capacity_mah (module_pack (sample_batteries 280000) (sample_slots ! 5))) = 25000"
proof -
  let ?bs = "sample_batteries 280000"
  have s: "sample_slots ! 5 \<in> set (build_address_map ?bs)" "sl_mirror (sample_slots ! 5) = Some 0"
    "sl_module_count (sample_slots ! 5) = 2" "sl_battery (sample_slots ! 5) = 1"
    unfolding sample_map by (simp_all add: sample_slots_def nth_append)
  have cfg: "configured_mah (b_cfg (?bs ! 1)) = 100000"
    by (simp add: sample_batteries_def sample_config_def configured_mah_def)
  show ?thesis
    using reserve_values [OF s(1,2)] s(3,4) cfg
    by (simp add: sample_batteries_def sample_live_def)
qed

text \<open>C38: Answering a request ends the process in exactly one case: an analog request to a live
  battery whose module share of the reported total capacity is above 4 294 902 296 mAh, where
  the capacity scale wraps to zero and the code divides by it.\<close>

theorem crash_condition:
  "respond bs (build_address_map bs) now f = None \<longleftrightarrow>
     addressed (build_address_map bs) f \<and> ready bs (slot_at (build_address_map bs) f) now \<and>
     f_cid2 f = 0x42 \<and>
     4294902296 < unat (total_capacity_mah (module_pack bs (slot_at (build_address_map bs) f)))"
proof (cases "addressed (build_address_map bs) f")
  case True
  then have "sl_module_count (slot_at (build_address_map bs) f) \<noteq> 0"
    using slot_in_block(4) slot_at_map by blast
  then show ?thesis by (simp add: respond_crashes)
qed (use respond_silent [of "build_address_map bs" f bs now] in auto)

text \<open>After any received chunk the receive buffer holds at most the unfinished beginning of
  one frame, of at most 4096 bytes, whatever it held before.\<close>

theorem receive_buffer_bounded:
  "\<exists>r st'. inverter_on_bytes bs slots clock data rx_buf st = Some (r, st') \<and>
     pending_ok r \<and> length r \<le> kRxBufLimit"
proof -
  have "pending_ok r \<Longrightarrow> length r \<le> kRxBufLimit" for r
    by (auto simp: pending_ok_def kMaxFrameLen_def kRxBufLimit_def)
  then show ?thesis
    by (auto simp: inverter_on_bytes_def Let_def process_buffer_eq residue_pending)
qed

text \<open>Requests that arrive in one chunk, with noise between them, are answered in their
  order, each from the state at its own clock reading, and nothing stays in the buffer.\<close>

theorem requests_answered_in_order:
  assumes "\<forall>(j, f) \<in> set jfs. kSOI \<notin> set j"
    and "length (concat (map (\<lambda>(j, f). j @ build_pylontech f) jfs)) \<le> kRxBufLimit"
    and "\<forall>i < length jfs. respond (bs i) slots (clock i) (snd (jfs ! i)) \<noteq> None"
  shows "inverter_on_bytes bs slots clock (concat (map (\<lambda>(j, f). j @ build_pylontech f) jfs)) [] (Some (0, [])) =
    Some ([], Some (length jfs,
      List.map_filter (\<lambda>i. the (respond (bs i) slots (clock i) (snd (jfs ! i)))) [0..<length jfs]))"
proof -
  let ?fs = "map snd jfs"
  have "inverter_on_bytes bs slots clock (concat (map (\<lambda>(j, f). j @ build_pylontech f) jfs)) [] (Some (0, [])) =
      Some ([], fold (inverter_frame bs slots clock) ?fs (Some (0, [])))"
    using il.loop_junk_and_frames [OF assms(1), of bs slots clock "Some (0, [])"] assms(2)
      process_buffer_total [of bs slots clock "concat (map (\<lambda>(j, f). j @ build_pylontech f) jfs)" "Some (0, [])"]
    by (auto simp: inverter_on_bytes_def Let_def)
  then show ?thesis using frames_answered [OF assms(3)] by simp
qed

lemma requests_answered_in_order_witness:
  "inverter_on_bytes (\<lambda>_. []) [] (\<lambda>_. 0) ([0x00] @ build_pylontech default_frame) [] (Some (0, [])) =
     Some ([], Some (1, []))"
proof -
  have r: "respond [] [] 0 default_frame = Some None"
    by (simp add: respond_def)
  show ?thesis
    using requests_answered_in_order [of "[([0x00], default_frame)]" "\<lambda>_. []" "[]" "\<lambda>_. 0"] r
    by (simp add: kSOI_def kRxBufLimit_def length_build_pylontech default_frame_def map_filter_simps)
qed

end
