(* ===== verification/Http.thy ===== *)
theory Http
  imports Daily Inverter
begin

text \<open>
  src/http_server.cpp: routing, file serving, the battery and settings pages, and the paged
  history.  libevent and cJSON are not part of the repository: a request is what libevent's
  parser hands over, a reply is the call that sends it, and a JSON body is the tree that the
  code builds (its printing is left to cJSON).  \<open>realpath\<close>, the files, the clocks and the random numbers are
  fields of the world of a request.  Times are milliseconds; the sub-millisecond part of the
  system clock is not modelled.  All handlers run on the one thread of the event loop, so each is
  one step on the server's state.
\<close>

section \<open>Replies\<close>

datatype Json =
  JNum rat
| JBool bool
| JStr string
| JArr "Json list"
| JObj "(string \<times> Json) list"

datatype Reply =
  SendError int string
| SendJson int Json
| SendFile string string

abbreviation HTTP_OK :: int where "HTTP_OK \<equiv> 200"
abbreviation HTTP_BADREQUEST :: int where "HTTP_BADREQUEST \<equiv> 400"
abbreviation HTTP_NOTFOUND :: int where "HTTP_NOTFOUND \<equiv> 404"

abbreviation json_error :: "string \<Rightarrow> Json" where
  "json_error e \<equiv> JObj [(''error'', JStr e)]"

definition junsigned :: "'a::len word \<Rightarrow> Json" where "junsigned v = JNum (of_int (uint v))"
definition jsigned :: "'a::len word \<Rightarrow> Json" where "jsigned v = JNum (of_int (sint v))"

definition sample_to_cjson :: "TelemetrySample \<Rightarrow> Json" where
  "sample_to_cjson s = JObj
     [(''ts'', JNum (of_int (ts_time s))),
      (''voltage_mv'', jsigned (voltage_mv (ts_pack s))),
      (''current_ma'', jsigned (current_ma (ts_pack s))),
      (''soc_pct'', junsigned (state_of_charge_pct (ts_pack s))),
      (''remaining_mah'', junsigned (remaining_capacity_mah (ts_pack s))),
      (''total_mah'', junsigned (total_capacity_mah (ts_pack s))),
      (''cycle_count'', junsigned (cycle_count (ts_pack s))),
      (''temp1_dc'', jsigned (battery_temp1_dC (ts_pack s))),
      (''temp2_dc'', jsigned (battery_temp2_dC (ts_pack s))),
      (''mos_temp_dc'', jsigned (power_tube_temp_dC (ts_pack s))),
      (''charging'', JBool (charging_enabled (ts_pack s))),
      (''discharging'', JBool (discharging_enabled (ts_pack s))),
      (''balancer'', JBool (balancer_enabled (ts_pack s))),
      (''balance_current_ma'', jsigned (balance_current_ma (ts_pack s))),
      (''errors'', junsigned (errors_bitmask (ts_pack s))),
      (''avg_cell_mv'', junsigned (average_voltage_mv (ts_cells s))),
      (''diff_cell_mv'', junsigned (voltage_diff_mv (ts_cells s))),
      (''cells_mv'', JArr (map junsigned (voltages_mv (ts_cells s)))),
      (''resistance_uohm'', JArr (map junsigned (resistance_uohm (ts_cells s))))]"

definition history_json :: "string \<Rightarrow> TelemetrySample list \<Rightarrow> Json" where
  "history_json req_id data =
     JObj [(''req_id'', JStr req_id), (''data'', JArr (map sample_to_cjson data))]"

text \<open>From the last dot on, as \<open>path.rfind\<close> and \<open>path.substr\<close>.\<close>

definition extension :: "string \<Rightarrow> string" where
  "extension path = CHR ''.'' # rev (takeWhile (\<lambda>c. c \<noteq> CHR ''.'') (rev path))"

definition mime_for_ext :: "string \<Rightarrow> string" where
  "mime_for_ext path =
    (if CHR ''.'' \<notin> set path then ''application/octet-stream''
     else let ext = extension path in
       if ext = ''.html'' \<or> ext = ''.htm'' then ''text/html; charset=utf-8''
       else if ext = ''.css'' then ''text/css''
       else if ext = ''.js'' then ''application/javascript''
       else if ext = ''.json'' then ''application/json''
       else if ext = ''.svg'' then ''image/svg+xml''
       else if ext = ''.png'' then ''image/png''
       else if ext = ''.jpg'' \<or> ext = ''.jpeg'' then ''image/jpeg''
       else if ext = ''.ico'' then ''image/x-icon''
       else if ext = ''.woff'' then ''font/woff''
       else if ext = ''.woff2'' then ''font/woff2''
       else if ext = ''.ttf'' then ''font/ttf''
       else if ext = ''.txt'' then ''text/plain; charset=utf-8''
       else ''application/octet-stream'')"

section \<open>The state, and what a request sees\<close>

record PageCtx =
  pc_battery_id :: int
  pc_time_start :: int
  pc_time_end :: int
  pc_count :: int
  pc_expires_at :: int

record HttpServer =
  sv_www_root :: string
  sv_ctxs :: "string \<rightharpoonup> PageCtx"

text \<open>The request as libevent parses it: the URI may not parse, the path may be missing, and
  \<open>evhttp_find_header\<close> finds a parameter of the query or none.\<close>

record HttpRequest =
  rq_uri_ok :: bool
  rq_path :: "string option"
  rq_params :: "string \<Rightarrow> string option"

text \<open>What the handlers find; the queries of a request, for its page, for the probe after it and for the days, may
  fail as \<open>History\<close> says.\<close>

record HttpWorld =
  hw_history :: HistoryState
  hw_page :: QueryEnv
  hw_probe :: QueryEnv
  hw_days :: QueryEnv
  hw_batteries :: "BatteryObj list"
  hw_now :: int
  hw_steady :: int
  hw_uuid :: string
  hw_realpath :: "string \<Rightarrow> string option"
  hw_file :: "string \<Rightarrow> string option"
  hw_civil :: "int \<Rightarrow> nat \<times> nat \<times> nat"

definition kCtxTtlSec :: int where "kCtxTtlSec = 300"

text \<open>\<open>std::atoi\<close> and \<open>std::atoll\<close>; a value that does not fit is undefined in C.\<close>

definition is_digit :: "char \<Rightarrow> bool" where
  "is_digit c \<longleftrightarrow> 48 \<le> (of_char c :: int) \<and> (of_char c :: int) \<le> 57"

definition is_space :: "char \<Rightarrow> bool" where
  "is_space c \<longleftrightarrow> (of_char c :: int) = 32 \<or> 9 \<le> (of_char c :: int) \<and> (of_char c :: int) \<le> 13"

definition digits_value :: "string \<Rightarrow> int" where
  "digits_value s = foldl (\<lambda>n c. 10 * n + (of_char c - 48)) 0 (takeWhile is_digit s)"

definition atoi :: "string \<Rightarrow> int" where
  "atoi s =
    (case dropWhile is_space s of
       [] \<Rightarrow> 0
     | c # r \<Rightarrow> if c = CHR ''-'' then - digits_value r
               else if c = CHR ''+'' then digits_value r
               else digits_value (c # r))"

section \<open>Request ids\<close>

definition hex_digit :: "nat \<Rightarrow> char" where
  "hex_digit n = ''0123456789abcdef'' ! n"

text \<open>\<open>%0nx\<close> of a value of at most \<open>n\<close> digits.\<close>

definition hex_padded :: "nat \<Rightarrow> 'a::len word \<Rightarrow> string" where
  "hex_padded n v = map (\<lambda>i. hex_digit (unat (drop_bit (4 * i) v AND 0xF))) (rev [0..<n])"

text \<open>The arguments are the random numbers in the order they are drawn.\<close>

definition gen_uuid4 :: "u32 \<Rightarrow> u16 \<Rightarrow> u16 \<Rightarrow> u16 \<Rightarrow> u32 \<Rightarrow> u16 \<Rightarrow> string" where
  "gen_uuid4 a b c d e1 e2 =
    (let c = (c AND 0x0FFF) OR 0x4000;
         d = (d AND 0x3FFF) OR 0x8000
     in hex_padded 8 a @ ''-'' @ hex_padded 4 b @ ''-'' @ hex_padded 4 c @ ''-'' @ hex_padded 4 d @ ''-'' @
        hex_padded 8 e1 @ hex_padded 4 e2)"

section \<open>Files\<close>

definition serve_file :: "HttpWorld \<Rightarrow> string \<Rightarrow> string \<Rightarrow> Reply" where
  "serve_file w www path =
    (case hw_realpath w (www @ path) of
       None \<Rightarrow> SendError HTTP_NOTFOUND ''Not Found''
     | Some resolved \<Rightarrow>
         case hw_realpath w www of
           None \<Rightarrow> SendError HTTP_NOTFOUND ''Not Found''
         | Some root_resolved \<Rightarrow>
             let root_s = root_resolved @ ''/'' in
             if take (length root_s) resolved \<noteq> root_s then SendError HTTP_NOTFOUND ''Not Found''
             else case hw_file w resolved of
                 None \<Rightarrow> SendError HTTP_NOTFOUND ''Not Found''
               | Some body \<Rightarrow> SendFile (mime_for_ext resolved) body)"

section \<open>Batteries and settings\<close>

definition battery_param :: "HttpRequest \<Rightarrow> int" where
  "battery_param req =
    (if \<not> rq_uri_ok req then 0
     else case rq_params req ''battery'' of None \<Rightarrow> 0 | Some b \<Rightarrow> atoi b)"

definition find_battery :: "HttpWorld \<Rightarrow> string \<Rightarrow> BatteryObj option" where
  "find_battery w name = find (\<lambda>b. bc_name (b_cfg b) = name) (hw_batteries w)"

definition state_for :: "HttpWorld \<Rightarrow> string \<Rightarrow> SharedState option" where
  "state_for w name = map_option b_state (find_battery w name)"

definition battery_json :: "HttpWorld \<Rightarrow> int \<times> string \<Rightarrow> Json" where
  "battery_json w ref =
     JObj ([(''id'', JNum (of_int (fst ref))), (''name'', JStr (snd ref))] @
       (case find_battery w (snd ref) of
          Some b \<Rightarrow>
            [(''link'', JStr (bc_link_raw (b_cfg b))), (''protocol'', JStr (bc_protocol (b_cfg b))),
             (''monitored'', JBool (bc_monitored (b_cfg b))),
             (''capacity'', jsigned (bc_capacity (b_cfg b))), (''legacy'', JBool False)]
        | None \<Rightarrow>
            [(''link'', JStr ''bluetooth''), (''protocol'', JStr ''jk_bt''),
             (''monitored'', JBool False), (''capacity'', JNum 0), (''legacy'', JBool True)]))"

definition handle_batteries :: "HttpWorld \<Rightarrow> Reply" where
  "handle_batteries w =
     SendJson HTTP_OK (JArr (map (battery_json w) (battery_list (hw_history w))))"

definition reserve_json :: "BatteryConfig \<Rightarrow> Json" where
  "reserve_json c =
    (let kReserveCRateTenths = 5;
         cap_mah = bc_capacity c * 1000;
         limit_ma = bc_capacity c * 1000 * kReserveCRateTenths div 10
     in JObj
       [(''reserve'', JBool True),
        (''mirror'', JStr (bc_mirror c)),
        (''capacity_mah'', junsigned cap_mah),
        (''charge_current_limit_ma'', junsigned limit_ma),
        (''discharge_current_limit_ma'', junsigned limit_ma),
        (''soc_pct'', JNum 100),
        (''current_ma'', JNum 0)])"

definition settings_json :: "JkSettings \<Rightarrow> Json" where
  "settings_json s = JObj
     [(''cell_count'', junsigned (cell_count s)),
      (''nominal_capacity_mah'', junsigned (nominal_capacity_mah s)),
      (''cell_uvp_mv'', junsigned (cell_uvp_mv s)),
      (''cell_uvpr_mv'', junsigned (cell_uvpr_mv s)),
      (''cell_ovp_mv'', junsigned (cell_ovp_mv s)),
      (''cell_ovpr_mv'', junsigned (cell_ovpr_mv s)),
      (''soc_100_mv'', junsigned (soc_100_mv s)),
      (''soc_0_mv'', junsigned (soc_0_mv s)),
      (''balance_trigger_mv'', junsigned (balance_trigger_mv s)),
      (''start_balance_mv'', junsigned (start_balance_mv s)),
      (''max_charge_current_ma'', junsigned (max_charge_current_ma s)),
      (''max_discharge_current_ma'', junsigned (max_discharge_current_ma s)),
      (''max_balance_current_ma'', junsigned (max_balance_current_ma s)),
      (''charge_ocp_delay_s'', junsigned (charge_ocp_delay_s s)),
      (''charge_ocp_recovery_s'', junsigned (charge_ocp_recovery_s s)),
      (''discharge_ocp_delay_s'', junsigned (discharge_ocp_delay_s s)),
      (''discharge_ocp_recovery_s'', junsigned (discharge_ocp_recovery_s s)),
      (''scp_delay_us'', junsigned (scp_delay_us s)),
      (''scp_recovery_s'', junsigned (scp_recovery_s s)),
      (''charge_otp_dC'', jsigned (charge_otp_dC s)),
      (''charge_otp_recovery_dC'', jsigned (charge_otp_recovery_dC s)),
      (''discharge_otp_dC'', jsigned (discharge_otp_dC s)),
      (''discharge_otp_recovery_dC'', jsigned (discharge_otp_recovery_dC s)),
      (''charge_utp_dC'', jsigned (charge_utp_dC s)),
      (''charge_utp_recovery_dC'', jsigned (charge_utp_recovery_dC s)),
      (''mosfet_otp_dC'', jsigned (mosfet_otp_dC s)),
      (''mosfet_otp_recovery_dC'', jsigned (mosfet_otp_recovery_dC s)),
      (''smart_sleep_mv'', junsigned (smart_sleep_mv s)),
      (''power_off_mv'', junsigned (power_off_mv s)),
      (''request_charge_mv'', junsigned (request_charge_mv s)),
      (''request_float_mv'', junsigned (request_float_mv s)),
      (''charging_switch_on'', JBool (charging_switch_on s)),
      (''discharging_switch_on'', JBool (discharging_switch_on s)),
      (''balancer_switch_on'', JBool (balancer_switch_on s))]"

definition handle_info :: "HttpWorld \<Rightarrow> HttpRequest \<Rightarrow> Reply" where
  "handle_info w req =
    (let name = battery_name (battery_param req) (hw_history w) in
     case find_battery w name of
       None \<Rightarrow> SendJson HTTP_NOTFOUND (json_error ''battery not in config'')
     | Some bat \<Rightarrow>
         if \<not> bc_monitored (b_cfg bat) then SendJson HTTP_OK (reserve_json (b_cfg bat))
         else case state_for w name of
             None \<Rightarrow> SendJson HTTP_NOTFOUND (json_error ''no live data for this battery'')
           | Some st \<Rightarrow>
               case ss_settings (snapshot st) of
                 None \<Rightarrow> SendJson HTTP_NOTFOUND (json_error ''settings not yet received'')
               | Some s \<Rightarrow> SendJson HTTP_OK (settings_json s))"

section \<open>Daily energy\<close>

text \<open>\<open>gmtime_r\<close> is the calendar \<open>hw_civil\<close> of the day of the clock.\<close>

definition handle_daily :: "HttpWorld \<Rightarrow> HttpRequest \<Rightarrow> Reply" where
  "handle_daily w req =
    (let num = (\<lambda>k. if \<not> rq_uri_ok req then 0
                  else case rq_params req k of None \<Rightarrow> 0 | Some v \<Rightarrow> atoi v);
         battery_id = num ''battery''; year = num ''year''; month = num ''month'';
         (year, month) =
           (if year \<le> 0 \<or> month \<le> 0 then
              case hw_civil w (day_of (hw_now w)) of (y, m, d) \<Rightarrow> (int y, int m)
            else (year, month));
         data = get_daily_energy (hw_days w) (hw_civil w) battery_id (nat year) (nat month) (hw_history w)
     in SendJson HTTP_OK (JObj
          [(''battery_id'', JNum (of_int battery_id)), (''year'', JNum (of_int year)),
           (''month'', JNum (of_int month)),
           (''data'', JArr (map (\<lambda>e. JObj [(''date'', JStr (de_date e)),
                                           (''charged_wh'', JNum (de_charged_wh e)),
                                           (''discharged_wh'', JNum (de_discharged_wh e))]) data))]))"

section \<open>Paged history\<close>

text \<open>One page, and the probe for anything older than its last sample; both handlers do this.\<close>

definition fetch_page :: "QueryEnv \<Rightarrow> HistoryState \<Rightarrow> int \<Rightarrow> int \<Rightarrow> int \<Rightarrow> int \<Rightarrow> TelemetrySample list" where
  "fetch_page q h bid time_start time_end cnt =
    (let win_ms = time_end - time_start;
         step_ms = (if win_ms > 0 \<and> cnt > 0 then win_ms div cnt else 0)
     in range_by_id q bid time_start time_end cnt step_ms h)"

definition older_left :: "QueryEnv \<Rightarrow> HistoryState \<Rightarrow> int \<Rightarrow> int \<Rightarrow> TelemetrySample list \<Rightarrow> bool" where
  "older_left q h bid time_start data =
     (range_by_id q bid time_start (ts_time (last data)) 1 0 h \<noteq> [])"

definition handle_history_next :: "HttpWorld \<Rightarrow> string \<Rightarrow> HttpServer \<Rightarrow> Reply \<times> HttpServer" where
  "handle_history_next w req_id srv =
    (case sv_ctxs srv req_id of
       None \<Rightarrow> (SendJson HTTP_NOTFOUND (json_error ''req_id not found''), srv)
     | Some ctx \<Rightarrow>
         let data = fetch_page (hw_page w) (hw_history w) (pc_battery_id ctx) (pc_time_start ctx)
                      (pc_time_end ctx) (pc_count ctx);
             srv = (if data \<noteq> [] then
                 if older_left (hw_probe w) (hw_history w) (pc_battery_id ctx) (pc_time_start ctx) data then
                   srv\<lparr>sv_ctxs := (sv_ctxs srv)(req_id \<mapsto>
                     ctx\<lparr>pc_time_end := ts_time (last data),
                         pc_expires_at := hw_steady w + kCtxTtlSec * 1000\<rparr>)\<rparr>
                 else srv\<lparr>sv_ctxs := (sv_ctxs srv)(req_id := None)\<rparr>
               else srv\<lparr>sv_ctxs := (sv_ctxs srv)(req_id := None)\<rparr>)
         in (SendJson HTTP_OK (history_json req_id data), srv))"

text \<open>A parameter that is present and not empty.\<close>

definition given :: "HttpRequest \<Rightarrow> string \<Rightarrow> string option" where
  "given req k = (case rq_params req k of Some v \<Rightarrow> if v = [] then None else Some v | None \<Rightarrow> None)"

definition handle_history_initial :: "HttpWorld \<Rightarrow> HttpRequest \<Rightarrow> HttpServer \<Rightarrow> Reply \<times> HttpServer" where
  "handle_history_initial w req srv =
    (let bid = (case rq_params req ''battery'' of Some b \<Rightarrow> atoi b | None \<Rightarrow> 0);
         time_start = (case given req ''time_start'' of
                         Some v \<Rightarrow> atoi v * 1000 | None \<Rightarrow> hw_now w - 24 * 3600 * 1000);
         time_end = (case given req ''time_end'' of Some v \<Rightarrow> atoi v * 1000 | None \<Rightarrow> hw_now w);
         cnt = (case given req ''count'' of
                    Some v \<Rightarrow> if atoi v > 0 then atoi v else 100 | None \<Rightarrow> 100);
         data = fetch_page (hw_page w) (hw_history w) bid time_start time_end cnt;
         req_id = hw_uuid w;
         srv = (if data \<noteq> [] \<and> older_left (hw_probe w) (hw_history w) bid time_start data then
             srv\<lparr>sv_ctxs := (sv_ctxs srv)(req_id \<mapsto>
               \<lparr>pc_battery_id = bid, pc_time_start = time_start, pc_time_end = ts_time (last data),
                pc_count = cnt, pc_expires_at = hw_steady w + kCtxTtlSec * 1000\<rparr>)\<rparr>
           else srv)
     in (SendJson HTTP_OK (history_json req_id data), srv))"

definition handle_history :: "HttpWorld \<Rightarrow> HttpRequest \<Rightarrow> HttpServer \<Rightarrow> Reply \<times> HttpServer" where
  "handle_history w req srv =
    (if rq_params req ''next'' \<noteq> None then
       case rq_params req ''req_id'' of
         None \<Rightarrow> (SendJson HTTP_BADREQUEST (json_error ''req_id required for ?next''), srv)
       | Some req_id \<Rightarrow>
           if req_id = [] then (SendJson HTTP_BADREQUEST (json_error ''req_id required for ?next''), srv)
           else handle_history_next w req_id srv
     else handle_history_initial w req srv)"

definition on_sweep :: "int \<Rightarrow> HttpServer \<Rightarrow> HttpServer" where
  "on_sweep now srv =
     srv\<lparr>sv_ctxs := (\<lambda>k. case sv_ctxs srv k of
           None \<Rightarrow> None | Some c \<Rightarrow> if now \<ge> pc_expires_at c then None else Some c)\<rparr>"

section \<open>Routing\<close>

definition on_request :: "HttpWorld \<Rightarrow> HttpRequest \<Rightarrow> HttpServer \<Rightarrow> Reply \<times> HttpServer" where
  "on_request w req srv =
    (if \<not> rq_uri_ok req then (SendError HTTP_BADREQUEST ''Bad URI'', srv)
     else
       let path_s = (case rq_path req of Some p \<Rightarrow> p | None \<Rightarrow> ''/'');
           path_s = (if path_s = ''/'' then ''/index.html'' else path_s)
       in if path_s = ''/info'' then (handle_info w req, srv)
          else if path_s = ''/batteries'' then (handle_batteries w, srv)
          else if path_s = ''/history'' then handle_history w req srv
          else if path_s = ''/daily'' then (handle_daily w req, srv)
          else (serve_file w (sv_www_root srv) path_s, srv))"

section \<open>Pages\<close>

lemma select_samples_rows:
  assumes "cnt > 0"
  shows "set (select_samples bid s e cnt step rows) \<subseteq> set (filter (in_range bid s e) rows)"
    "sorted_wrt (\<lambda>a b. sr_ts_ms a \<ge> sr_ts_ms b) (select_samples bid s e cnt step rows)"
    "int (length (select_samples bid s e cnt step rows)) \<le> cnt"
    "select_samples bid s e cnt step rows = [] \<longleftrightarrow> filter (in_range bid s e) rows = []"
proof -
  let ?all = "newest_first (filter (in_range bid s e) rows)"
  let ?rs = "if step > 0 then first_per_bucket (bucket_of s step) ?all else ?all"
  have eq: "select_samples bid s e cnt step rows = take (nat cnt) ?rs"
    using assms by (simp add: select_samples_def Let_def)
  have sub: "set ?rs \<subseteq> set (filter (in_range bid s e) rows)"
    using first_per_bucket_subset [of "bucket_of s step" ?all] by auto
  then show "set (select_samples bid s e cnt step rows) \<subseteq> set (filter (in_range bid s e) rows)"
    unfolding eq using set_take_subset by (rule subset_trans [rotated])
  have "sorted_wrt (\<lambda>a b. sr_ts_ms a \<ge> sr_ts_ms b) ?rs"
    using newest_first_sorted first_per_bucket_sorted [OF newest_first_sorted] by simp
  then show "sorted_wrt (\<lambda>a b. sr_ts_ms a \<ge> sr_ts_ms b) (select_samples bid s e cnt step rows)"
    unfolding eq by (rule sorted_wrt_take)
  show "int (length (select_samples bid s e cnt step rows)) \<le> cnt"
    using assms by (simp add: eq)
  have "?rs = [] \<longleftrightarrow> ?all = []" by (cases ?all) simp_all
  moreover have "?all = [] \<longleftrightarrow> filter (in_range bid s e) rows = []"
    by (metis set_empty set_newest_first)
  ultimately show "select_samples bid s e cnt step rows = [] \<longleftrightarrow> filter (in_range bid s e) rows = []"
    using assms by (simp add: eq)
qed

text \<open>A page: every sample of it is in range; newest first, never longer than asked; it is empty
  only if the range is.\<close>

lemma ts_time_row_sample [simp]: "ts_time (row_sample name r cs) = sr_ts_ms r"
  by (simp add: row_sample_def Let_def)

lemma fetch_page_rows:
  "bid > 0 \<Longrightarrow> qe_samples q \<Longrightarrow> qe_cells q \<Longrightarrow> \<exists>step g. fetch_page q h bid s e cnt =
     map g (rows_until (qe_rows q) (select_samples bid s e cnt step (db_samples (hs_db h)))) \<and> (\<forall>r. ts_time (g r) = sr_ts_ms r)"
  by (rule exI [of _ "if e - s > 0 \<and> cnt > 0 then (e - s) div cnt else 0"],
      rule exI [of _ "\<lambda>r. row_sample (battery_name bid h) r (rows_until (qe_cell_rows q (sr_id r)) (cells_of (sr_id r) (db_cells (hs_db h))))"])
     (simp only: fetch_page_def Let_def range_by_id_def range_core_def ts_time_row_sample not_le [symmetric] simp_thms if_False if_True)

lemma range_core_fails: "\<not> query_answers q \<Longrightarrow> range_core q bid nm s e cnt step d = []"
  by (auto simp: query_answers_def range_core_def rows_until_empty)

lemma fetch_page_fails: "\<not> query_answers q \<Longrightarrow> fetch_page q h bid s e cnt = []"
  by (simp add: fetch_page_def range_by_id_def range_core_fails Let_def)

lemma fetch_page_facts:
  assumes "bid > 0" "cnt > 0"
  shows "\<forall>x \<in> set (fetch_page q h bid s e cnt). s \<le> ts_time x \<and> ts_time x < e"
    "sorted_wrt (\<lambda>a b. ts_time a \<ge> ts_time b) (fetch_page q h bid s e cnt)"
    "int (length (fetch_page q h bid s e cnt)) \<le> cnt"
    "fetch_page q h bid s e cnt = [] \<longleftrightarrow> \<not> query_answers q \<or> filter (in_range bid s e) (db_samples (hs_db h)) = []"
proof -
  have "(\<forall>x \<in> set (fetch_page q h bid s e cnt). s \<le> ts_time x \<and> ts_time x < e) \<and>
    sorted_wrt (\<lambda>a b. ts_time a \<ge> ts_time b) (fetch_page q h bid s e cnt) \<and>
    int (length (fetch_page q h bid s e cnt)) \<le> cnt \<and>
    (fetch_page q h bid s e cnt = [] \<longleftrightarrow> \<not> query_answers q \<or> filter (in_range bid s e) (db_samples (hs_db h)) = [])"
  proof (cases "qe_samples q \<and> qe_cells q")
    case True
    then obtain step g where g: "fetch_page q h bid s e cnt =
        map g (rows_until (qe_rows q) (select_samples bid s e cnt step (db_samples (hs_db h))))" "\<And>r. ts_time (g r) = sr_ts_ms r"
      using fetch_page_rows [OF assms(1)] by blast
    let ?rows = "select_samples bid s e cnt step (db_samples (hs_db h))"
    note f = select_samples_rows [OF assms(2), of bid s e step "db_samples (hs_db h)"]
    have "set (rows_until (qe_rows q) ?rows) \<subseteq> set (filter (in_range bid s e) (db_samples (hs_db h)))"
      using rows_until_sub(1) f(1) by (rule order_trans)
    then have "\<forall>x \<in> set (fetch_page q h bid s e cnt). s \<le> ts_time x \<and> ts_time x < e"
      by (auto simp: g in_range_def)
    moreover have "sorted_wrt (\<lambda>a b. ts_time a \<ge> ts_time b) (fetch_page q h bid s e cnt)"
      using rows_until_sub(3) [OF f(2)] by (simp add: g sorted_wrt_map)
    moreover have "int (length (fetch_page q h bid s e cnt)) \<le> cnt"
      using f(3) rows_until_sub(2) [of "qe_rows q" ?rows] by (simp add: g)
    moreover have "fetch_page q h bid s e cnt = [] \<longleftrightarrow> qe_rows q = Some 0 \<or> ?rows = []"
      by (simp add: g rows_until_empty)
    ultimately show ?thesis using True f(4) by (simp add: query_answers_def)
  next
    case False
    then show ?thesis using assms(2) by (auto simp: fetch_page_fails query_answers_def)
  qed
  then show "\<forall>x \<in> set (fetch_page q h bid s e cnt). s \<le> ts_time x \<and> ts_time x < e"
    "sorted_wrt (\<lambda>a b. ts_time a \<ge> ts_time b) (fetch_page q h bid s e cnt)"
    "int (length (fetch_page q h bid s e cnt)) \<le> cnt"
    "fetch_page q h bid s e cnt = [] \<longleftrightarrow> \<not> query_answers q \<or> filter (in_range bid s e) (db_samples (hs_db h)) = []"
    by simp_all
qed

lemma older_left_iff:
  assumes "bid > 0"
  shows "older_left q h bid s data \<longleftrightarrow> query_answers q \<and>
    (\<exists>r \<in> set (db_samples (hs_db h)). sr_battery_id r = bid \<and> s \<le> sr_ts_ms r \<and> sr_ts_ms r < ts_time (last data))"
  using select_samples_rows(4) [of 1 bid s "ts_time (last data)" 0 "db_samples (hs_db h)"] assms
  by (auto simp: older_left_def range_by_id_def range_core_def in_range_def filter_empty_conv rows_until_empty query_answers_def)

text \<open>What a context satisfies.\<close>

definition ctx_ok :: "PageCtx \<Rightarrow> bool" where
  "ctx_ok c \<longleftrightarrow> pc_battery_id c > 0 \<and> pc_count c > 0 \<and> pc_time_start c < pc_time_end c"

definition ctxs_ok :: "HttpServer \<Rightarrow> bool" where
  "ctxs_ok srv \<longleftrightarrow> (\<forall>k c. sv_ctxs srv k = Some c \<longrightarrow> ctx_ok c)"

lemma fetch_page_no_battery: "\<not> bid > 0 \<Longrightarrow> fetch_page q h bid s e cnt = []"
  by (simp add: fetch_page_def range_by_id_def)

lemma older_left_before:
  "bid > 0 \<Longrightarrow> older_left q h bid s data \<Longrightarrow> s < ts_time (last data)"
  by (auto simp: older_left_iff)

lemma next_found:
  fixes w :: HttpWorld and c :: PageCtx
  assumes "sv_ctxs srv rid = Some c" "ctx_ok c"
  defines "data \<equiv> fetch_page (hw_page w) (hw_history w) (pc_battery_id c) (pc_time_start c) (pc_time_end c) (pc_count c)"
  shows "fst (handle_history_next w rid srv) = SendJson HTTP_OK (history_json rid data)"
    "sv_ctxs (snd (handle_history_next w rid srv)) rid =
       (if data \<noteq> [] \<and> older_left (hw_probe w) (hw_history w) (pc_battery_id c) (pc_time_start c) data
        then Some (c\<lparr>pc_time_end := ts_time (last data), pc_expires_at := hw_steady w + kCtxTtlSec * 1000\<rparr>)
        else None)"
  using assms by (simp_all add: handle_history_next_def Let_def)

lemma next_other: "k \<noteq> rid \<Longrightarrow> sv_ctxs (snd (handle_history_next w rid srv)) k = sv_ctxs srv k"
  by (simp add: handle_history_next_def Let_def split: option.split)

lemma next_unknown: "sv_ctxs srv rid = None \<Longrightarrow> snd (handle_history_next w rid srv) = srv"
  by (simp add: handle_history_next_def)

lemma page_last:
  assumes "ctx_ok c" "data = fetch_page q h (pc_battery_id c) (pc_time_start c) (pc_time_end c) (pc_count c)"
    "data \<noteq> []"
  shows "pc_time_start c \<le> ts_time (last data)" "ts_time (last data) < pc_time_end c"
    "\<forall>x \<in> set data. ts_time (last data) \<le> ts_time x"
proof -
  note f = fetch_page_facts [of "pc_battery_id c" "pc_count c" q h "pc_time_start c" "pc_time_end c"]
  from f(1) assms show "pc_time_start c \<le> ts_time (last data)" "ts_time (last data) < pc_time_end c"
    by (auto simp: ctx_ok_def)
  have split: "data = butlast data @ [last data]" using assms(3) by simp
  have "sorted_wrt (\<lambda>a b. ts_time a \<ge> ts_time b) data" using f(2) assms by (simp add: ctx_ok_def)
  with split have "sorted_wrt (\<lambda>a b. ts_time a \<ge> ts_time b) (butlast data @ [last data])" by metis
  then have "\<forall>x \<in> set (butlast data). ts_time (last data) \<le> ts_time x" by (simp add: sorted_wrt_append)
  then show "\<forall>x \<in> set data. ts_time (last data) \<le> ts_time x"
    using split by (metis Un_iff empty_iff empty_set insert_iff list.simps(15) order_refl set_append)
qed

lemma next_ctx_ok:
  assumes "sv_ctxs srv rid = Some c" "ctx_ok c"
    "sv_ctxs (snd (handle_history_next w rid srv)) rid = Some c'"
  shows "ctx_ok c'" "pc_time_end c' < pc_time_end c" "pc_time_start c' = pc_time_start c"
    "pc_battery_id c' = pc_battery_id c" "pc_count c' = pc_count c"
    "pc_expires_at c' = hw_steady w + kCtxTtlSec * 1000"
  using assms(3) page_last [OF assms(2) refl, of "hw_page w" "hw_history w"] assms(2)
    older_left_before [of "pc_battery_id c" "hw_probe w" "hw_history w" "pc_time_start c"]
  by (auto simp: next_found(2) [OF assms(1,2)] ctx_ok_def split: if_splits)

lemma next_ctxs_ok: "ctxs_ok srv \<Longrightarrow> ctxs_ok (snd (handle_history_next w rid srv))"
  unfolding ctxs_ok_def
proof (intro allI impI)
  fix k c
  assume ok: "\<forall>k c. sv_ctxs srv k = Some c \<longrightarrow> ctx_ok c"
    and k: "sv_ctxs (snd (handle_history_next w rid srv)) k = Some c"
  show "ctx_ok c"
  proof (cases "k = rid \<and> sv_ctxs srv rid \<noteq> None")
    case True
    then obtain c0 where "sv_ctxs srv rid = Some c0" by auto
    with k True ok show ?thesis using next_ctx_ok(1) by blast
  next
    case False
    with k have "sv_ctxs srv k = Some c" using next_other next_unknown by metis
    with ok show ?thesis by blast
  qed
qed

lemma initial_ctxs:
  assumes "sv_ctxs (snd (handle_history_initial w req srv)) k = Some c"
  shows "sv_ctxs srv k = Some c \<or> k = hw_uuid w \<and> ctx_ok c \<and> pc_expires_at c = hw_steady w + kCtxTtlSec * 1000"
proof -
  obtain bid s e n where n: "n > 0" and
    eq: "snd (handle_history_initial w req srv) =
      (let data = fetch_page (hw_page w) (hw_history w) bid s e n in
       if data \<noteq> [] \<and> older_left (hw_probe w) (hw_history w) bid s data then
         srv\<lparr>sv_ctxs := (sv_ctxs srv)(hw_uuid w \<mapsto>
           \<lparr>pc_battery_id = bid, pc_time_start = s, pc_time_end = ts_time (last data),
            pc_count = n, pc_expires_at = hw_steady w + kCtxTtlSec * 1000\<rparr>)\<rparr>
       else srv)"
    by (rule that [where n = "case given req ''count'' of Some v \<Rightarrow> if atoi v > 0 then atoi v else 100 | None \<Rightarrow> 100"])
       (auto simp: handle_history_initial_def Let_def split: option.split)
  have "bid > 0" if "fetch_page (hw_page w) (hw_history w) bid s e n \<noteq> []" using that fetch_page_no_battery by blast
  then show ?thesis
    using assms older_left_before [of bid "hw_probe w" "hw_history w" s] n
    by (auto simp: eq Let_def ctx_ok_def split: if_splits)
qed

section \<open>Digits of a request id\<close>

lemma nibble_less: "unat (v AND 0xF :: u16) < 16" "unat (w AND 0xF :: u32) < 16"
  using word_and_le1 [where y = v and a = 15] word_and_le1 [where y = w and a = 15] by (simp_all add: word_le_nat_alt)

lemma version_nibble: "drop_bit 12 ((c AND 0x0FFF) OR 0x4000 :: u16) AND 0xF = 4"
proof (rule bit_word_eqI)
  fix n assume "n < LENGTH(16)"
  then have "n \<in> set [0..<16]" by simp
  then show "bit (drop_bit 12 ((c AND 0x0FFF) OR 0x4000 :: u16) AND 0xF) n = bit (4 :: u16) n"
    by (simp add: bit_simps upt_rec) (elim disjE; simp add: bit_simps)?
qed

lemma variant_nibble: "drop_bit 12 ((d AND 0x3FFF) OR 0x8000 :: u16) AND 0xF \<in> {8, 9, 10, 11}"
proof -
  have "drop_bit 12 ((d AND 0x3FFF) OR 0x8000) AND 0xF = 8 OR (drop_bit 12 d AND 3)"
  proof (rule bit_word_eqI)
    fix n assume "n < LENGTH(16)"
    then have "n \<in> set [0..<16]" by simp
    then show "bit (drop_bit 12 ((d AND 0x3FFF) OR 0x8000 :: u16) AND 0xF) n = bit (8 OR (drop_bit 12 d AND 3) :: u16) n"
      by (simp add: bit_simps upt_rec) (elim disjE; simp add: bit_simps)?
  qed
  moreover have "drop_bit 12 d AND 3 \<in> {0, 1, 2, 3}"
  proof -
    have "drop_bit 12 d AND 3 \<le> 3" by (rule word_and_le1)
    then have "unat (drop_bit 12 d AND 3) \<in> {0, 1, 2, 3}" by (auto simp: word_le_nat_alt)
    then show ?thesis by (auto simp: word_unat_eq_iff)
  qed
  ultimately show ?thesis by (elim insertE emptyE; simp)
qed

lemma length_hex_padded [simp]: "length (hex_padded n v) = n"
  by (simp add: hex_padded_def)

lemma set_hex_padded: "set (hex_padded n (v :: u16)) \<subseteq> set ''0123456789abcdef''"
    "set (hex_padded n (w :: u32)) \<subseteq> set ''0123456789abcdef''"
proof -
  have "hex_digit n \<in> set ''0123456789abcdef''" if "n < 16" for n
    unfolding hex_digit_def by (rule nth_mem) (use that in simp)
  then show "set (hex_padded n v) \<subseteq> set ''0123456789abcdef''" "set (hex_padded n w) \<subseteq> set ''0123456789abcdef''"
    using nibble_less by (auto simp only: hex_padded_def set_map image_iff)
qed

lemma hex_padded_4: "hex_padded 4 v ! 0 = hex_digit (unat (drop_bit 12 v AND 0xF))"
  by (simp add: hex_padded_def upt_rec numeral_eq_Suc)

section \<open>Properties\<close>

text \<open>Every page context the server keeps names a battery, a positive page size and a range
  that is not empty; every request and every sweep keeps it so.\<close>

theorem contexts_stay_valid:
  assumes "ctxs_ok srv"
  shows "ctxs_ok (snd (on_request w req srv)) \<and> ctxs_ok (on_sweep now srv)"
proof
  have init: "ctxs_ok (snd (handle_history_initial w req srv))"
    using assms initial_ctxs [of w req srv] unfolding ctxs_ok_def by blast
  show "ctxs_ok (snd (on_request w req srv))"
    using init assms next_ctxs_ok [OF assms]
    by (auto simp: on_request_def handle_history_def Let_def split: option.split)
  show "ctxs_ok (on_sweep now srv)"
    using assms by (auto simp: ctxs_ok_def on_sweep_def split: option.splits if_splits)
qed

definition sample_server :: HttpServer where
  "sample_server = \<lparr>sv_www_root = ''/www'', sv_ctxs = [''id'' \<mapsto>
     \<lparr>pc_battery_id = 1, pc_time_start = 0, pc_time_end = 5000, pc_count = 2, pc_expires_at = 300000\<rparr>]\<rparr>"

lemma sample_server_ok: "ctxs_ok sample_server"
  by (simp add: ctxs_ok_def ctx_ok_def sample_server_def)

lemma contexts_stay_valid_witness: "ctxs_ok (on_sweep 100 sample_server)"
  using contexts_stay_valid [OF sample_server_ok] by blast

text \<open>C30: The next page of a request holds at most as many samples as asked, all in the range
  that is left, newest first.  Either the range shrinks to what is older than the page, strictly and without
  becoming empty, or the request is finished, and then no sample of its battery is left
  that is older than what was delivered, unless a query failed before its first row: that of the page, when the
  page is empty, or that of the probe, when it is not.  (A failure is taken for the end; see
  \<open>failed_query_ends_paging\<close>.)\<close>

theorem next_page_descends:
  assumes "sv_ctxs srv rid = Some c" "ctx_ok c"
  shows "\<exists>data. fst (handle_history_next w rid srv) = SendJson HTTP_OK (history_json rid data) \<and>
    int (length data) \<le> pc_count c \<and>
    sorted_wrt (\<lambda>a b. ts_time a \<ge> ts_time b) data \<and>
    set data \<subseteq> {x. pc_time_start c \<le> ts_time x \<and> ts_time x < pc_time_end c} \<and>
    (case sv_ctxs (snd (handle_history_next w rid srv)) rid of
       Some c' \<Rightarrow> data \<noteq> [] \<and> pc_time_end c' = ts_time (last data) \<and>
         pc_time_start c' = pc_time_start c \<and> pc_time_start c < pc_time_end c' \<and> pc_time_end c' < pc_time_end c
     | None \<Rightarrow> \<not> query_answers (if data = [] then hw_page w else hw_probe w) \<or>
         filter (\<lambda>r. in_range (pc_battery_id c) (pc_time_start c) (pc_time_end c) r \<and>
           list_all (\<lambda>x. sr_ts_ms r < ts_time x) data) (db_samples (hs_db (hw_history w))) = [])"
proof -
  let ?h = "hw_history w"
  let ?d = "fetch_page (hw_page w) ?h (pc_battery_id c) (pc_time_start c) (pc_time_end c) (pc_count c)"
  have ok: "pc_battery_id c > 0" "pc_count c > 0" using assms(2) by (simp_all add: ctx_ok_def)
  note f = fetch_page_facts [OF ok, of "hw_page w" ?h "pc_time_start c" "pc_time_end c"]
  note n = next_found [OF assms, of w]
  have done_: "\<not> query_answers (if ?d = [] then hw_page w else hw_probe w) \<or> filter (\<lambda>r. in_range (pc_battery_id c) (pc_time_start c) (pc_time_end c) r \<and>
      list_all (\<lambda>x. sr_ts_ms r < ts_time x) ?d) (db_samples (hs_db ?h)) = []"
    if "sv_ctxs (snd (handle_history_next w rid srv)) rid = None"
  proof (cases "?d = []")
    case True
    then have "\<not> query_answers (hw_page w) \<or>
        filter (in_range (pc_battery_id c) (pc_time_start c) (pc_time_end c)) (db_samples (hs_db ?h)) = []"
      using f(4) by simp
    then show ?thesis using True by (auto simp: filter_empty_conv)
  next
    case False
    with that have "\<not> older_left (hw_probe w) ?h (pc_battery_id c) (pc_time_start c) ?d" by (simp add: n(2) split: if_splits)
    then show ?thesis using False last_in_set [OF False]
      by (auto simp: older_left_iff [OF ok(1)] filter_empty_conv in_range_def list_all_iff)
  qed
  have some: "?d \<noteq> [] \<and> pc_time_end c' = ts_time (last ?d) \<and> pc_time_start c' = pc_time_start c \<and>
      pc_time_start c < pc_time_end c' \<and> pc_time_end c' < pc_time_end c"
    if "sv_ctxs (snd (handle_history_next w rid srv)) rid = Some c'" for c'
    using next_ctx_ok [OF assms that] that by (auto simp: n(2) ctx_ok_def split: if_splits)
  show ?thesis
  proof (intro exI [of _ ?d] conjI)
    show "set ?d \<subseteq> {x. pc_time_start c \<le> ts_time x \<and> ts_time x < pc_time_end c}" using f(1) by blast
    show "case sv_ctxs (snd (handle_history_next w rid srv)) rid of
       Some c' \<Rightarrow> ?d \<noteq> [] \<and> pc_time_end c' = ts_time (last ?d) \<and>
         pc_time_start c' = pc_time_start c \<and> pc_time_start c < pc_time_end c' \<and> pc_time_end c' < pc_time_end c
     | None \<Rightarrow> \<not> query_answers (if ?d = [] then hw_page w else hw_probe w) \<or>
         filter (\<lambda>r. in_range (pc_battery_id c) (pc_time_start c) (pc_time_end c) r \<and>
           list_all (\<lambda>x. sr_ts_ms r < ts_time x) ?d) (db_samples (hs_db ?h)) = []"
    proof (cases "sv_ctxs (snd (handle_history_next w rid srv)) rid")
      case None
      from done_ [OF None] show ?thesis unfolding None option.case .
    next
      case (Some c')
      from some [OF Some] show ?thesis unfolding Some option.case .
    qed
  qed (rule n(1) f(2) f(3))+
qed

definition sample_world :: HttpWorld where
  "sample_world = \<lparr>hw_history = sample_history, hw_page = good_query, hw_probe = good_query, hw_days = good_query,
     hw_batteries = [], hw_now = 100000, hw_steady = 1000,
     hw_uuid = ''id2'', hw_realpath = Some, hw_file = (\<lambda>_. Some ''x''), hw_civil = sample_civil\<rparr>"

lemma next_page_descends_witness:
  "\<exists>data. fst (handle_history_next sample_world ''id'' sample_server) = SendJson HTTP_OK (history_json ''id'' data) \<and>
     int (length data) \<le> 2"
proof -
  obtain c where c: "sv_ctxs sample_server ''id'' = Some c" "ctx_ok c" "pc_count c = 2"
    by (simp add: sample_server_def ctx_ok_def)
  from next_page_descends [OF c(1,2), of sample_world] show ?thesis
    unfolding c(3) by (elim exE conjE) (intro exI conjI)
qed

text \<open>A page whose query fails is answered with success and no samples, and the request is forgotten: the client
  takes it for the end, whatever is still stored.\<close>

theorem failed_query_ends_paging:
  assumes "sv_ctxs srv rid = Some c" "\<not> query_answers (hw_page w)"
  shows "fst (handle_history_next w rid srv) = SendJson HTTP_OK (history_json rid []) \<and>
    sv_ctxs (snd (handle_history_next w rid srv)) rid = None"
proof -
  have "fetch_page (hw_page w) (hw_history w) (pc_battery_id c) (pc_time_start c) (pc_time_end c) (pc_count c) = []"
    using assms(2) by (rule fetch_page_fails)
  then show ?thesis using assms(1) by (simp add: handle_history_next_def)
qed

lemma failed_query_ends_paging_witness:
  "sv_ctxs (snd (handle_history_next (sample_world\<lparr>hw_page := good_query\<lparr>qe_samples := False\<rparr>\<rparr>) ''id'' sample_server)) ''id'' = None"
proof -
  obtain c where c: "sv_ctxs sample_server ''id'' = Some c" by (simp add: sample_server_def)
  have "\<not> query_answers (hw_page (sample_world\<lparr>hw_page := good_query\<lparr>qe_samples := False\<rparr>\<rparr>))"
    by (simp add: query_answers_def)
  from failed_query_ends_paging [OF c this] show ?thesis by blast
qed

text \<open>C31: Asking for the next page again and again comes to an end, whatever is stored or
  aggregated in between: after at most as many requests as the range has milliseconds the
  server has dropped the context.\<close>

theorem paging_terminates:
  assumes "sv_ctxs srv rid = Some c" "ctx_ok c"
    and "nat (pc_time_end c - pc_time_start c) \<le> length ws"
  shows "sv_ctxs (fold (\<lambda>w s. snd (handle_history_next w rid s)) ws srv) rid = None"
proof -
  have gone: "sv_ctxs (fold (\<lambda>w s. snd (handle_history_next w rid s)) us s) rid = None"
    if "sv_ctxs s rid = None" for us s
    using that by (induction us arbitrary: s) (simp_all add: next_unknown)
  show ?thesis
    using assms
  proof (induction ws arbitrary: srv c)
    case (Cons w ws)
    let ?s = "snd (handle_history_next w rid srv)"
    show ?case
    proof (cases "sv_ctxs ?s rid")
      case (Some c')
      note n = next_ctx_ok [OF Cons.prems(1,2) Some]
      have "nat (pc_time_end c' - pc_time_start c') \<le> length ws"
        using n(2,3) Cons.prems(3) by simp
      with Cons.IH [OF Some n(1)] show ?thesis by simp
    qed (simp add: gone)
  qed (auto simp: ctx_ok_def)
qed

lemma paging_terminates_witness:
  "sv_ctxs (fold (\<lambda>w s. snd (handle_history_next w ''id'' s)) (replicate 5000 sample_world) sample_server) ''id'' = None"
  by (rule paging_terminates [where c = "\<lparr>pc_battery_id = 1, pc_time_start = 0, pc_time_end = 5000,
        pc_count = 2, pc_expires_at = 300000\<rparr>"])
     (simp_all add: sample_server_def ctx_ok_def)

text \<open>A context that a page request leaves behind survives every sweep of the next 300 seconds,
  and the first sweep from then on removes it.\<close>

theorem contexts_live_five_minutes:
  assumes "sv_ctxs srv rid = Some c" "ctx_ok c"
    and "sv_ctxs (snd (handle_history_next w rid srv)) rid = Some c'"
  shows "sv_ctxs (fold on_sweep ts (snd (handle_history_next w rid srv))) rid =
    (if list_all (\<lambda>t. t < hw_steady w + 300000) ts then Some c' else None)"
proof -
  have e: "pc_expires_at c' = hw_steady w + 300000"
    using next_ctx_ok(6) [OF assms] by (simp add: kCtxTtlSec_def)
  have gone: "sv_ctxs (fold on_sweep us s) rid = None" if "sv_ctxs s rid = None" for us s
    using that by (induction us arbitrary: s) (simp_all add: on_sweep_def)
  have "sv_ctxs (fold on_sweep ts s) rid = (if list_all (\<lambda>t. t < pc_expires_at c') ts then Some c' else None)"
    if "sv_ctxs s rid = Some c'" for s
    using that
  proof (induction ts arbitrary: s)
    case (Cons t ts)
    show ?case
    proof (cases "t < pc_expires_at c'")
      case True
      then have "sv_ctxs (on_sweep t s) rid = Some c'" using Cons.prems by (simp add: on_sweep_def)
      with Cons.IH True show ?thesis by simp
    next
      case False
      then have "sv_ctxs (on_sweep t s) rid = None" using Cons.prems by (simp add: on_sweep_def)
      with gone False show ?thesis by simp
    qed
  qed simp
  from this [OF assms(3)] e show ?thesis by simp
qed

text \<open>Two stored samples and pages of one: the first page leaves a context.\<close>

definition two_samples :: HistoryState where
  "two_samples = sample_history\<lparr>hs_db := (hs_db sample_history)\<lparr>db_samples :=
     [sample_row 1 1 1000 JkCellInfo_default JkPackInfo_default,
      sample_row 2 1 2000 JkCellInfo_default JkPackInfo_default]\<rparr>\<rparr>"

definition paging_server :: HttpServer where
  "paging_server = sample_server\<lparr>sv_ctxs := [''id'' \<mapsto>
     \<lparr>pc_battery_id = 1, pc_time_start = 0, pc_time_end = 5000, pc_count = 1, pc_expires_at = 300000\<rparr>]\<rparr>"

lemma contexts_live_five_minutes_witness:
  "\<exists>c'. sv_ctxs (fold on_sweep [60000, 299999]
     (snd (handle_history_next (sample_world\<lparr>hw_history := two_samples\<rparr>) ''id'' paging_server))) ''id'' = Some c'"
proof -
  let ?w = "sample_world\<lparr>hw_history := two_samples\<rparr>"
  obtain c where c: "sv_ctxs paging_server ''id'' = Some c" "ctx_ok c"
    "c = \<lparr>pc_battery_id = 1, pc_time_start = 0, pc_time_end = 5000, pc_count = 1, pc_expires_at = 300000\<rparr>"
    by (simp add: paging_server_def ctx_ok_def)
  have "sv_ctxs (snd (handle_history_next ?w ''id'' paging_server)) ''id'' \<noteq> None"
    by (simp add: next_found(2) [OF c(1,2)] c(3) fetch_page_def older_left_def range_by_id_def range_core_def
        two_samples_def good_query_def select_samples_def sample_row_def row_sample_def newest_first_def in_range_def
        bucket_of_def sample_world_def Let_def)
  then obtain c' where "sv_ctxs (snd (handle_history_next ?w ''id'' paging_server)) ''id'' = Some c'" by blast
  from contexts_live_five_minutes [OF c(1,2) this, of "[60000, 299999]"] show ?thesis
    by (simp add: sample_world_def)
qed

text \<open>C32: Whatever a client asks for, a file that is served lies strictly below the resolved root of
  the web directory: its resolved path is the resolved root, a slash, and a rest.  A sibling whose name begins like
  the root is not below it.\<close>

theorem served_files_lie_below_root:
  assumes "fst (on_request w req srv) = SendFile mime body"
  shows "\<exists>base rest path. hw_realpath w (sv_www_root srv) = Some base \<and>
    hw_realpath w (sv_www_root srv @ path) = Some (base @ ''/'' @ rest) \<and>
    hw_file w (base @ ''/'' @ rest) = Some body \<and> mime = mime_for_ext (base @ ''/'' @ rest)"
proof -
  have "fst (handle_history w req srv) \<noteq> SendFile mime body"
    by (auto simp: handle_history_def handle_history_next_def handle_history_initial_def Let_def
        split: option.split)
  moreover have "handle_info w req \<noteq> SendFile mime body"
    by (auto simp: handle_info_def Let_def split: option.split)
  moreover have "handle_daily w req \<noteq> SendFile mime body"
    by (simp add: handle_daily_def Let_def split: prod.split)
  ultimately obtain path where p: "serve_file w (sv_www_root srv) path = SendFile mime body"
    using assms by (auto simp: on_request_def handle_batteries_def Let_def split: if_splits)
  then obtain resolved base where r: "hw_realpath w (sv_www_root srv @ path) = Some resolved"
      "hw_realpath w (sv_www_root srv) = Some base" "take (length (base @ ''/'')) resolved = base @ ''/''"
      "hw_file w resolved = Some body" "mime = mime_for_ext resolved"
    by (auto simp: serve_file_def Let_def split: option.splits if_splits)
  have "resolved = base @ ''/'' @ drop (length (base @ ''/'')) resolved"
    using append_take_drop_id [of "length (base @ ''/'')" resolved] r(3) by (metis append_assoc)
  with r show ?thesis by metis
qed

lemma served_files_lie_below_root_witness:
  "fst (on_request sample_world \<lparr>rq_uri_ok = True, rq_path = Some ''/a.js'', rq_params = \<lambda>_. None\<rparr> sample_server) =
     SendFile ''application/javascript'' ''x'' \<and>
   (\<exists>base rest path. hw_realpath sample_world ''/www'' = Some base \<and>
     hw_realpath sample_world (''/www'' @ path) = Some (base @ ''/'' @ rest))"
proof -
  have s: "fst (on_request sample_world \<lparr>rq_uri_ok = True, rq_path = Some ''/a.js'', rq_params = \<lambda>_. None\<rparr> sample_server) =
     SendFile ''application/javascript'' ''x''"
    by (simp add: on_request_def serve_file_def sample_world_def sample_server_def mime_for_ext_def
        extension_def)
  with served_files_lie_below_root [OF s] show ?thesis by (auto simp: sample_server_def)
qed

text \<open>For a reserve battery the settings page shows exactly the capacity, the current and the
  two current limits that the inverter side reports for it, whatever the mirror measures; only the state of
  charge is not the reported one: the page says 100, the inverter side the mirror's.\<close>

theorem reserve_page_matches_inverter:
  assumes "find_battery w (battery_name (battery_param req) (hw_history w)) = Some b"
    and "\<not> bc_monitored (b_cfg b)"
  shows "\<exists>fields. handle_info w req = SendJson HTTP_OK (JObj fields) \<and>
    map_of fields ''capacity_mah'' = Some (junsigned (total_capacity_mah (reserve_pack (b_cfg b) pack))) \<and>
    map_of fields ''current_ma'' = Some (jsigned (current_ma (reserve_pack (b_cfg b) pack))) \<and>
    map_of fields ''charge_current_limit_ma'' = Some (junsigned (max_charge_current_ma (reserve_limits (b_cfg b) limits))) \<and>
    map_of fields ''discharge_current_limit_ma'' =
      Some (junsigned (max_discharge_current_ma (reserve_limits (b_cfg b) limits))) \<and>
    map_of fields ''soc_pct'' = Some (JNum 100) \<and>
    state_of_charge_pct (reserve_pack (b_cfg b) pack) = state_of_charge_pct pack"
  using assms
  by (simp add: handle_info_def reserve_json_def reserve_pack_def reserve_limits_def configured_mah_def
      kReserveCRateTenths_def jsigned_def Let_def)

lemma reserve_page_matches_inverter_witness:
  "\<exists>fields. handle_info
      (sample_world\<lparr>hw_history := sample_history\<lparr>hs_cache := [(''r'', 2)]\<rparr>, hw_batteries := sample_batteries 280000\<rparr>)
      \<lparr>rq_uri_ok = True, rq_path = Some ''/info'', rq_params = [''battery'' \<mapsto> ''2'']\<rparr> = SendJson HTTP_OK (JObj fields) \<and>
    map_of fields ''capacity_mah'' = Some (junsigned (100000 :: u32))"
proof -
  let ?w = "sample_world\<lparr>hw_history := sample_history\<lparr>hs_cache := [(''r'', 2)]\<rparr>, hw_batteries := sample_batteries 280000\<rparr>"
  let ?q = "\<lparr>rq_uri_ok = True, rq_path = Some ''/info'', rq_params = [''battery'' \<mapsto> ''2'']\<rparr>"
  let ?b = "\<lparr>b_cfg = sample_config ''r'' Reserve 100 ''a'', b_state = shared_init\<rparr>"
  have "atoi ''2'' = 2" by code_simp
  then have f: "find_battery ?w (battery_name (battery_param ?q) (hw_history ?w)) = Some ?b"
    by (simp add: battery_param_def battery_name_def find_battery_def sample_batteries_def sample_config_def)
  have "\<not> bc_monitored (b_cfg ?b)" by (simp add: bc_monitored_def sample_config_def)
  from reserve_page_matches_inverter [OF f this, of JkPackInfo_default JkSettings_default] show ?thesis
    by (auto simp: reserve_pack_def configured_mah_def sample_config_def)
qed

text \<open>A request id is 36 characters long with hyphens at the four fixed places, the version digit 4,
  a variant digit among 8, 9, a, b, and lower-case hexadecimal digits everywhere else.\<close>

theorem request_id_is_uuid4:
  "let u = gen_uuid4 a b c d e1 e2 in
   length u = 36 \<and> u ! 14 = CHR ''4'' \<and> u ! 19 \<in> {CHR ''8'', CHR ''9'', CHR ''a'', CHR ''b''} \<and>
   list_all (\<lambda>i. u ! i = CHR ''-'') [8, 13, 18, 23] \<and>
   set u \<subseteq> insert (CHR ''-'') (set ''0123456789abcdef'')"
proof -
  let ?c = "(c AND 0x0FFF) OR 0x4000" and ?d = "(d AND 0x3FFF) OR 0x8000"
  have u: "gen_uuid4 a b c d e1 e2 = hex_padded 8 a @ ''-'' @ hex_padded 4 b @ ''-'' @ hex_padded 4 ?c @ ''-'' @
      hex_padded 4 ?d @ ''-'' @ hex_padded 8 e1 @ hex_padded 4 e2"
    by (simp add: gen_uuid4_def Let_def)
  have "hex_padded 4 ?c ! 0 = CHR ''4''"
    by (simp only: hex_padded_4 version_nibble) (simp add: hex_digit_def)
  moreover have "hex_padded 4 ?d ! 0 \<in> {CHR ''8'', CHR ''9'', CHR ''a'', CHR ''b''}"
    using variant_nibble [of d] by (simp only: hex_padded_4) (elim insertE emptyE; simp add: hex_digit_def)
  moreover have "set (gen_uuid4 a b c d e1 e2) \<subseteq> insert (CHR ''-'') (set ''0123456789abcdef'')"
    using set_hex_padded unfolding u set_append by (intro Un_least) (simp_all add: subset_insertI2)
  ultimately show ?thesis by (simp add: u Let_def nth_append)
qed

end
