(* ===== verification/Scan_Coordinator.thy ===== *)
theory Scan_Coordinator
  imports Prelude "HOL-Library.Multiset"
begin

text \<open>
  src/ble_scan_coordinator.cpp: the exclusive slot for scanning and connecting.  Owners are
  numbers.  \<open>request\<close> and \<open>release\<close> hold the mutex for their whole effect on the state; the
  callback they run after unlocking is returned as the owner to signal.  Every client passes
  the same kind of callback (it signals the client's own slot event), so a waiter is its
  owner.  The locale \<open>exclusive_slot\<close> states what the clients rely on.
\<close>

record ScanCoordinator =
  co_holder :: "nat option"
  co_waiters :: "nat list"

definition coordinator_init :: ScanCoordinator where
  "coordinator_init = \<lparr>co_holder = None, co_waiters = []\<rparr>"

definition request :: "nat \<Rightarrow> ScanCoordinator \<Rightarrow> ScanCoordinator \<times> nat option" where
  "request owner c =
     (if co_holder c = Some owner then (c, Some owner)
      else if co_holder c = None then (c\<lparr>co_holder := Some owner\<rparr>, Some owner)
      else if owner \<in> set (co_waiters c) then (c, None)
      else (c\<lparr>co_waiters := co_waiters c @ [owner]\<rparr>, None))"

definition release :: "nat \<Rightarrow> ScanCoordinator \<Rightarrow> ScanCoordinator \<times> nat option" where
  "release owner c =
     (if co_holder c \<noteq> Some owner then (c\<lparr>co_waiters := remove1 owner (co_waiters c)\<rparr>, None)
      else let c = c\<lparr>co_holder := None\<rparr> in
        case co_waiters c of
          [] \<Rightarrow> (c, None)
        | w # ws \<Rightarrow> (c\<lparr>co_waiters := ws, co_holder := Some w\<rparr>, Some w))"

section \<open>The contract\<close>

text \<open>
  \<open>line\<close> is the holder followed by those who wait, in the order they will be served; it is
  empty exactly when the slot is free.
\<close>

locale exclusive_slot =
  fixes req :: "nat \<Rightarrow> 'c \<Rightarrow> 'c \<times> nat option"
    and rel :: "nat \<Rightarrow> 'c \<Rightarrow> 'c \<times> nat option"
    and line :: "'c \<Rightarrow> nat list"
    and ok :: "'c \<Rightarrow> bool"
  assumes ok_distinct: "ok c \<Longrightarrow> distinct (line c)"
    and ok_req: "ok c \<Longrightarrow> ok (fst (req i c))"
    and ok_rel: "ok c \<Longrightarrow> ok (fst (rel i c))"
    and line_req: "ok c \<Longrightarrow> line (fst (req i c)) = (if i \<in> set (line c) then line c else line c @ [i])"
    and line_rel: "ok c \<Longrightarrow> line (fst (rel i c)) = remove1 i (line c)"
    and grant_req: "ok c \<Longrightarrow> snd (req i c) = (if line c = [] \<or> hd (line c) = i then Some i else None)"
    and grant_rel: "ok c \<Longrightarrow> snd (rel i c) =
      (if line c \<noteq> [] \<and> hd (line c) = i \<and> tl (line c) \<noteq> [] then Some (hd (tl (line c))) else None)"
begin

definition holder :: "'c \<Rightarrow> nat option" where
  "holder c = (case line c of [] \<Rightarrow> None | i # _ \<Rightarrow> Some i)"

lemma grant_req_holder: "ok c \<Longrightarrow> snd (req i c) = Some j \<Longrightarrow> j = i \<and> holder (fst (req i c)) = Some i"
  by (auto simp: grant_req line_req holder_def split: if_splits list.splits)

lemma grant_rel_holder: "ok c \<Longrightarrow> snd (rel i c) = Some j \<Longrightarrow>
    holder c = Some i \<and> holder (fst (rel i c)) = Some j \<and> j \<noteq> i"
  using ok_distinct [of c]
  by (cases "line c"; cases "tl (line c)") (auto simp: grant_rel line_rel holder_def split: if_splits)

lemma req_keeps_holder: "ok c \<Longrightarrow> holder c = Some j \<Longrightarrow> holder (fst (req i c)) = Some j"
  by (auto simp: line_req holder_def split: list.splits)

lemma rel_keeps_holder: "ok c \<Longrightarrow> holder c = Some j \<Longrightarrow> j \<noteq> i \<Longrightarrow> holder (fst (rel i c)) = Some j"
  by (auto simp: line_rel holder_def split: list.splits)

text \<open>First come, first served: when the owners in front have released, in any order, the next
  one in line holds the slot.\<close>

lemma ok_rels: "ok c \<Longrightarrow> ok (fold (\<lambda>i c. fst (rel i c)) is c)"
  by (induction "is" arbitrary: c) (auto intro: ok_rel)

lemma line_rels: "ok c \<Longrightarrow> line (fold (\<lambda>i c. fst (rel i c)) is c) = fold remove1 is (line c)"
  by (induction "is" arbitrary: c) (auto simp: line_rel ok_rel)

lemma fold_remove1_front:
  "distinct (is @ j # rest) \<Longrightarrow> mset js = mset is \<Longrightarrow> fold remove1 js (is @ j # rest) = j # rest"
proof (induction js arbitrary: "is")
  case (Cons k js)
  then have k: "k \<in> set is" by (metis list.set_intros(1) set_mset_mset)
  then have "remove1 k (is @ j # rest) = remove1 k is @ j # rest" by (simp add: remove1_append)
  moreover have "distinct (remove1 k is @ j # rest)"
    using Cons.prems(1) by (auto simp: distinct_remove1 dest: notin_set_remove1)
  moreover have "mset js = mset (remove1 k is)"
    using Cons.prems(2) by (metis add_mset_remove_trivial mset.simps(2) mset_remove1)
  ultimately show ?case using Cons.IH [of "remove1 k is"] by simp
qed simp

lemma served_in_order:
  assumes "ok c" "line c = is @ j # rest" "mset js = mset is"
  shows "holder (fold (\<lambda>i c. fst (rel i c)) js c) = Some j"
  using fold_remove1_front [of "is" j rest js] ok_distinct [OF assms(1)] assms
  by (simp add: holder_def line_rels)

end

section \<open>The coordinator satisfies it\<close>

definition co_line :: "ScanCoordinator \<Rightarrow> nat list" where
  "co_line c = (case co_holder c of None \<Rightarrow> [] | Some h \<Rightarrow> h # co_waiters c)"

definition co_ok :: "ScanCoordinator \<Rightarrow> bool" where
  "co_ok c \<longleftrightarrow> (co_holder c = None \<longrightarrow> co_waiters c = []) \<and> distinct (co_line c)"

lemma coordinator_init_ok: "co_ok coordinator_init"
  by (simp add: co_ok_def co_line_def coordinator_init_def)

interpretation co: exclusive_slot request release co_line co_ok
proof
  fix c i
  show "distinct (co_line c)" if "co_ok c" using that by (simp add: co_ok_def)
  show "co_ok (fst (request i c))" if "co_ok c"
    using that by (auto simp: co_ok_def co_line_def request_def split: option.splits)
  show "co_ok (fst (release i c))" if "co_ok c"
    using that by (auto simp: co_ok_def co_line_def release_def Let_def notin_set_remove1
        split: option.splits list.splits)
  show "co_line (fst (request i c)) = (if i \<in> set (co_line c) then co_line c else co_line c @ [i])"
    if "co_ok c"
    using that by (auto simp: co_ok_def co_line_def request_def split: option.splits)
  show "co_line (fst (release i c)) = remove1 i (co_line c)" if "co_ok c"
    using that by (auto simp: co_ok_def co_line_def release_def Let_def split: option.splits list.splits)
  show "snd (request i c) = (if co_line c = [] \<or> hd (co_line c) = i then Some i else None)"
    if "co_ok c"
    using that by (auto simp: co_ok_def co_line_def request_def split: option.splits)
  show "snd (release i c) =
      (if co_line c \<noteq> [] \<and> hd (co_line c) = i \<and> tl (co_line c) \<noteq> [] then Some (hd (tl (co_line c))) else None)"
    if "co_ok c"
    using that by (auto simp: co_ok_def co_line_def release_def Let_def split: option.splits list.splits)
qed

lemma co_holder_eq: "co.holder c = co_holder c"
  by (simp add: co.holder_def co_line_def split: option.split)

section \<open>Properties\<close>

text \<open>The slot is served first come, first served: whoever stands in line gets the slot
  when those in front have released it or given up, in whatever order they do.\<close>

theorem slot_served_in_order:
  assumes "co_ok c" "co_line c = ahead @ i # behind" "mset gone = mset ahead"
  shows "co_holder (fold (\<lambda>j c. fst (release j c)) gone c) = Some i"
  using co.served_in_order [OF assms] by (simp add: co_holder_eq)

lemma slot_served_in_order_witness:
  "co_holder (fold (\<lambda>j c. fst (release j c)) [2, 1] \<lparr>co_holder = Some 1, co_waiters = [2, 3]\<rparr>) = Some 3"
  using slot_served_in_order [of "\<lparr>co_holder = Some 1, co_waiters = [2, 3]\<rparr>" "[1, 2]" 3 "[]" "[2, 1]"]
  by (simp add: co_ok_def co_line_def)

text \<open>A request never takes the slot from its holder, and queues its owner at most once.\<close>

theorem request_is_fair:
  assumes "co_ok c" "co_holder c = Some h"
  shows "co_holder (fst (request i c)) = Some h \<and>
    co_line (fst (request i (fst (request i c)))) = co_line (fst (request i c)) \<and>
    (snd (request i c) = Some i \<longleftrightarrow> i = h)"
  using assms by (auto simp: request_def co_line_def co_ok_def)

lemma request_is_fair_witness:
  "co_holder (fst (request 2 \<lparr>co_holder = Some 1, co_waiters = []\<rparr>)) = Some 1"
  using request_is_fair [of "\<lparr>co_holder = Some 1, co_waiters = []\<rparr>" 1 2]
  by (simp add: co_ok_def co_line_def)

end
