(* ===== verification/Os_Primitives.thy ===== *)
theory Os_Primitives
  imports Prelude "HOL-Library.Signed_Division"
begin

text \<open>
  src/event.cpp, src/timer.cpp and src/thread.cpp: the wake-up flag over an eventfd, the timer over a
  timerfd and the worker thread.  The kernel objects behave as their manual pages say: an
  eventfd is a counter whose read returns and clears it; \<open>timerfd_settime\<close> rejects a negative
  or denormalised time and a zero time disarms.  Creating the descriptors is left out; a
  negative descriptor makes every operation a no-op.  The locale \<open>wakeup_flag\<close> states what the
  event loops rely on.
\<close>

section \<open>Event\<close>

record Event =
  ev_fd :: int
  ev_count :: nat

text \<open>The largest value of the counter; a write beyond it fails with \<open>EAGAIN\<close>, unnoticed.\<close>

definition eventfd_max :: nat where "eventfd_max = 2 ^ 64 - 2"

definition event_init :: "int \<Rightarrow> Event" where
  "event_init fd = \<lparr>ev_fd = fd, ev_count = 0\<rparr>"

definition event_signal :: "Event \<Rightarrow> Event" where
  "event_signal e =
     (if ev_fd e < 0 then e
      else if ev_count e + 1 > eventfd_max then e
      else e\<lparr>ev_count := ev_count e + 1\<rparr>)"

definition event_consume :: "Event \<Rightarrow> Event" where
  "event_consume e = (if ev_fd e < 0 then e else e\<lparr>ev_count := 0\<rparr>)"

text \<open>\<open>epoll\<close> reports the descriptor while the counter is positive.\<close>

definition event_readable :: "Event \<Rightarrow> bool" where
  "event_readable e \<longleftrightarrow> 0 < ev_count e"

section \<open>The contract of a wake-up flag\<close>

datatype flag_op = Signal | Consume

locale wakeup_flag =
  fixes signal :: "'e \<Rightarrow> 'e" and consume :: "'e \<Rightarrow> 'e" and raised :: "'e \<Rightarrow> bool" and ok :: "'e \<Rightarrow> bool"
  assumes ok_signal: "ok e \<Longrightarrow> ok (signal e)"
    and ok_consume: "ok e \<Longrightarrow> ok (consume e)"
    and raised_signal: "ok e \<Longrightarrow> raised (signal e)"
    and raised_consume: "ok e \<Longrightarrow> \<not> raised (consume e)"
begin

primrec flag_apply :: "flag_op \<Rightarrow> 'e \<Rightarrow> 'e" where
  "flag_apply Signal e = signal e"
| "flag_apply Consume e = consume e"

lemma ok_apply: "ok e \<Longrightarrow> ok (flag_apply p e)"
  by (cases p) (simp_all add: ok_signal ok_consume)

lemma ok_run: "ok e \<Longrightarrow> ok (fold flag_apply ps e)"
  by (induction ps arbitrary: e) (simp_all add: ok_apply)

text \<open>Only the last operation counts: signals coalesce, and none that follows a consume is lost.\<close>

lemma raised_last: "ok e \<Longrightarrow> ps \<noteq> [] \<Longrightarrow> raised (fold flag_apply ps e) \<longleftrightarrow> last ps = Signal"
proof (induction ps rule: rev_induct)
  case (snoc p ps)
  then show ?case using ok_run [of e ps] by (cases p) (simp_all add: raised_signal raised_consume)
qed simp

lemma signal_then_anything:
  "ok e \<Longrightarrow> Consume \<notin> set ps \<Longrightarrow> raised (fold flag_apply ps (signal e))"
proof (cases "ps = []")
  case False
  moreover assume "ok e" "Consume \<notin> set ps"
  moreover have "last ps \<in> set ps" using False by simp
  ultimately show ?thesis using raised_last [OF ok_signal, of e ps] by (cases "last ps") auto
qed (simp add: raised_signal)

end

definition event_ok :: "Event \<Rightarrow> bool" where
  "event_ok e \<longleftrightarrow> 0 \<le> ev_fd e \<and> ev_count e \<le> eventfd_max"

interpretation ev: wakeup_flag event_signal event_consume event_readable event_ok
  by unfold_locales
    (auto simp: event_ok_def event_signal_def event_consume_def event_readable_def eventfd_max_def)

section \<open>Timer\<close>

record itimerspec =
  it_value_sec :: int
  it_value_nsec :: int
  it_interval_sec :: int
  it_interval_nsec :: int

text \<open>A timer: the nanoseconds until it expires, unless it is disarmed, and its period.\<close>

record Timer =
  tm_fd :: int
  tm_left :: "int option"
  tm_period :: int

definition timer_init :: "int \<Rightarrow> Timer" where
  "timer_init fd = \<lparr>tm_fd = fd, tm_left = None, tm_period = 0\<rparr>"

definition timespec_ok :: "int \<Rightarrow> int \<Rightarrow> bool" where
  "timespec_ok sec nsec \<longleftrightarrow> 0 \<le> sec \<and> 0 \<le> nsec \<and> nsec < 1000000000"

definition timerfd_settime :: "itimerspec \<Rightarrow> Timer \<Rightarrow> Timer" where
  "timerfd_settime spec t =
     (if \<not> timespec_ok (it_value_sec spec) (it_value_nsec spec) \<or>
         \<not> timespec_ok (it_interval_sec spec) (it_interval_nsec spec) then t
      else
        let left = it_value_sec spec * 1000000000 + it_value_nsec spec
        in t\<lparr>tm_left := (if left = 0 then None else Some left),
             tm_period := it_interval_sec spec * 1000000000 + it_interval_nsec spec\<rparr>)"

text \<open>\<open>duration_cast\<close> truncates towards zero.\<close>

definition value_of_ms :: "int \<Rightarrow> int \<times> int" where
  "value_of_ms d =
     (let sec = d sdiv 1000; ns = (d - sec * 1000) * 1000000
      in if sec = 0 \<and> ns = 0 then (sec, 1) else (sec, ns))"

definition timer_arm :: "int \<Rightarrow> Timer \<Rightarrow> Timer" where
  "timer_arm d t =
     (if tm_fd t < 0 then t
      else let (sec, ns) = value_of_ms d
        in timerfd_settime \<lparr>it_value_sec = sec, it_value_nsec = ns,
                            it_interval_sec = 0, it_interval_nsec = 0\<rparr> t)"

definition timer_arm_periodic :: "int \<Rightarrow> Timer \<Rightarrow> Timer" where
  "timer_arm_periodic period t =
     (if tm_fd t < 0 then t
      else let (sec, ns) = value_of_ms period
        in timerfd_settime \<lparr>it_value_sec = sec, it_value_nsec = ns,
                            it_interval_sec = sec, it_interval_nsec = ns\<rparr> t)"

definition timer_disarm :: "Timer \<Rightarrow> Timer" where
  "timer_disarm t =
     (if tm_fd t < 0 then t
      else timerfd_settime \<lparr>it_value_sec = 0, it_value_nsec = 0, it_interval_sec = 0, it_interval_nsec = 0\<rparr> t)"

text \<open>An expiry: a periodic timer starts its next period, a one-shot timer is disarmed.\<close>

definition timer_expire :: "Timer \<Rightarrow> Timer" where
  "timer_expire t = t\<lparr>tm_left := (if tm_period t > 0 then Some (tm_period t) else None)\<rparr>"

lemma value_of_ms_nonneg:
  assumes "0 \<le> d"
  shows "value_of_ms d = (if d = 0 then (0, 1) else (d div 1000, d mod 1000 * 1000000))"
proof -
  have q: "d sdiv 1000 = d div 1000" using assms by (simp add: signed_divide_int_def sgn_if)
  have m: "d - d div 1000 * 1000 = d mod 1000" by (simp add: minus_div_mult_eq_mod)
  show ?thesis
  proof (cases "d = 0")
    case False
    have "\<not> (d div 1000 = 0 \<and> d mod 1000 * 1000000 = 0)"
    proof
      assume z: "d div 1000 = 0 \<and> d mod 1000 * 1000000 = 0"
      have "d = d div 1000 * 1000 + d mod 1000" by (rule div_mult_mod_eq [symmetric])
      with z have "d = 0 * 1000 + 0" by (metis mult_eq_0_iff zero_neq_numeral)
      with False show False by simp
    qed
    then show ?thesis using False by (simp only: value_of_ms_def Let_def q m if_False)
  qed (simp add: value_of_ms_def)
qed

lemma value_of_ms_negative:
  assumes "d < 0"
  shows "\<not> timespec_ok (fst (value_of_ms d)) (snd (value_of_ms d))"
proof -
  have q: "d sdiv 1000 = - ((- d) div 1000)" using assms by (simp add: signed_divide_int_def sgn_if)
  have m: "- d = (- d) div 1000 * 1000 + (- d) mod 1000" by simp
  show ?thesis
  proof (cases "(- d) div 1000 = 0")
    case True
    then have "d - d sdiv 1000 * 1000 < 0" using assms q by simp
    then show ?thesis using q True by (simp add: value_of_ms_def timespec_ok_def Let_def)
  next
    case False
    then have "(- d) div 1000 > 0" using assms pos_imp_zdiv_nonneg_iff [of 1000 "- d"] by linarith
    then show ?thesis using q by (simp add: value_of_ms_def timespec_ok_def Let_def)
  qed
qed

lemma timer_arm_eq:
  assumes "0 \<le> tm_fd t"
  shows "timer_arm d t = (if d < 0 then t else t\<lparr>tm_left := Some (max 1 (d * 1000000)), tm_period := 0\<rparr>)"
proof (cases "d < 0")
  case True
  obtain sec ns where v: "value_of_ms d = (sec, ns)" by fastforce
  then have "\<not> timespec_ok sec ns" using value_of_ms_negative [OF True] by simp
  then show ?thesis using True assms by (simp add: timer_arm_def timerfd_settime_def v)
next
  case False
  obtain sec ns where v: "value_of_ms d = (sec, ns)" by fastforce
  have "timespec_ok sec ns \<and> sec * 1000000000 + ns = max 1 (d * 1000000)"
  proof (cases "d = 0")
    case True
    with v have "sec = 0" "ns = 1" by (simp_all add: value_of_ms_nonneg)
    with True show ?thesis by (simp add: timespec_ok_def)
  next
    case d: False
    with v False have s: "sec = d div 1000" "ns = d mod 1000 * 1000000"
      by (simp_all only: value_of_ms_nonneg [of d] not_less if_False prod.inject)
    have "d = sec * 1000 + d mod 1000" by (simp add: s)
    then have total: "sec * 1000000000 + ns = d * 1000000" unfolding s(2) by linarith
    have "0 \<le> sec" using False s by (simp add: pos_imp_zdiv_nonneg_iff)
    moreover have "0 \<le> d mod 1000" "d mod 1000 < 1000" by simp_all
    ultimately show ?thesis using total d False unfolding timespec_ok_def s(2) by linarith
  qed
  moreover have "timespec_ok 0 0" by (simp add: timespec_ok_def)
  ultimately show ?thesis
    using assms False by (simp add: timer_arm_def timerfd_settime_def v Let_def)
qed

section \<open>Thread\<close>

text \<open>
  The flags of a worker, whether its thread can be joined, and how often \<open>run\<close> was spawned and
  \<open>on_stop\<close> called.  A join waits for \<open>run\<close> to return; afterwards the thread is not joinable.
\<close>

record Thread =
  th_started :: bool
  th_stopping :: bool
  th_joinable :: bool
  th_runs :: nat
  th_stop_calls :: nat

definition thread_init :: Thread where
  "thread_init = \<lparr>th_started = False, th_stopping = False, th_joinable = False, th_runs = 0, th_stop_calls = 0\<rparr>"

definition thread_start :: "Thread \<Rightarrow> Thread" where
  "thread_start t =
     (if th_started t then t
      else t\<lparr>th_started := True, th_joinable := True, th_runs := th_runs t + 1\<rparr>)"

definition thread_stop :: "Thread \<Rightarrow> Thread" where
  "thread_stop t =
     (if th_stopping t then (if th_joinable t then t\<lparr>th_joinable := False\<rparr> else t)
      else let t = t\<lparr>th_stopping := True, th_stop_calls := th_stop_calls t + 1\<rparr>
        in if th_joinable t then t\<lparr>th_joinable := False\<rparr> else t)"

definition thread_destroy :: "Thread \<Rightarrow> Thread" where
  "thread_destroy t = (if th_joinable t then thread_stop t else t)"

definition thread_ok :: "Thread \<Rightarrow> bool" where
  "thread_ok t \<longleftrightarrow> th_runs t = (if th_started t then 1 else 0) \<and>
     th_stop_calls t = (if th_stopping t then 1 else 0) \<and> (th_joinable t \<longrightarrow> th_started t)"

lemma thread_ok_ops [intro]:
  "thread_ok thread_init"
  "thread_ok t \<Longrightarrow> thread_ok (thread_start t)"
  "thread_ok t \<Longrightarrow> thread_ok (thread_stop t)"
  "thread_ok t \<Longrightarrow> thread_ok (thread_destroy t)"
  by (auto simp: thread_ok_def thread_init_def thread_start_def thread_stop_def thread_destroy_def Let_def)

lemma thread_stop_joins: "\<not> th_joinable (thread_stop t)" "\<not> th_joinable (thread_destroy t)"
  by (simp_all add: thread_stop_def thread_destroy_def Let_def)

section \<open>Properties\<close>

text \<open>The eventfd behind an \<open>Event\<close> is a flag: whatever was signalled and consumed before, it is
  raised exactly when the last operation was a signal; signals coalesce, the counter never
  overflows into silence, and a signal after a consume is never lost.\<close>

theorem event_is_a_flag:
  assumes "0 \<le> fd" "ps \<noteq> []"
  shows "event_readable (fold (\<lambda>p. case p of Signal \<Rightarrow> event_signal | Consume \<Rightarrow> event_consume) ps (event_init fd))
    \<longleftrightarrow> last ps = Signal"
proof -
  have "ev.flag_apply = (\<lambda>p. case p of Signal \<Rightarrow> event_signal | Consume \<Rightarrow> event_consume)"
    by (rule ext, rule ext) (simp split: flag_op.split)
  moreover have "event_ok (event_init fd)" using assms(1) by (simp add: event_ok_def event_init_def)
  ultimately show ?thesis using ev.raised_last assms(2) by metis
qed

lemma event_is_a_flag_witness:
  "event_readable (fold (\<lambda>p. case p of Signal \<Rightarrow> event_signal | Consume \<Rightarrow> event_consume)
     [Signal, Signal, Consume, Signal] (event_init 3))"
  using event_is_a_flag [of 3 "[Signal, Signal, Consume, Signal]"] by simp

text \<open>Arming a timer with a duration that is not negative makes it expire after exactly that many
  milliseconds, and after one nanosecond for a duration of zero, which the kernel would take
  as a disarm; a negative duration is rejected by the kernel and changes nothing.\<close>

theorem timer_arm_expires:
  assumes "0 \<le> tm_fd t"
  shows "tm_left (timer_arm d t) = (if d < 0 then tm_left t else Some (max 1 (d * 1000000))) \<and>
    (tm_left (timer_arm d t) = None \<longleftrightarrow> d < 0 \<and> tm_left t = None)"
  using timer_arm_eq [OF assms, of d] by simp

lemma timer_arm_expires_witness:
  "tm_left (timer_arm 5000 (timer_init 4)) = Some 5000000000"
  using timer_arm_expires [of "timer_init 4" 5000] by (simp add: timer_init_def)

end
