(* ===== verification/Event_Queue.thy ===== *)
theory Event_Queue
  imports Os_Primitives
begin

text \<open>
  src/event_queue.cpp: the queue between the thread of a Bluetooth client, with the callbacks of
  its library, and the dispatcher.  The mutex makes \<open>try_pop\<close> and the first half of \<open>push\<close>
  atomic, but the eventfd is written after it was released, and \<open>drain_notify\<close> reads it without it; so
  a push is two steps and the consumer, \<open>BleTransport::pump\<close>, is one step per read and per pop,
  and the steps of all threads interleave freely.
\<close>

section \<open>The queue\<close>

datatype BmsEvent = EvConnected | EvDisconnected | EvNotifyFrame bytes

definition queue_push :: "BmsEvent \<Rightarrow> BmsEvent list \<Rightarrow> BmsEvent list" where
  "queue_push ev q = q @ [ev]"

definition queue_try_pop :: "BmsEvent list \<Rightarrow> BmsEvent option \<times> BmsEvent list" where
  "queue_try_pop q = (case q of [] \<Rightarrow> (None, []) | ev # q' \<Rightarrow> (Some ev, q'))"

record BmsEventQueue =
  eq_evfd :: Event
  eq_q :: "BmsEvent list"

definition event_queue_init :: "int \<Rightarrow> BmsEventQueue" where
  "event_queue_init fd = \<lparr>eq_evfd = event_init fd, eq_q = []\<rparr>"

text \<open>The critical section of \<open>push\<close>, and the write behind it.\<close>

definition push_locked :: "BmsEvent \<Rightarrow> BmsEventQueue \<Rightarrow> BmsEventQueue" where
  "push_locked ev q = q\<lparr>eq_q := queue_push ev (eq_q q)\<rparr>"

definition push_notify :: "BmsEventQueue \<Rightarrow> BmsEventQueue" where
  "push_notify q = q\<lparr>eq_evfd := event_signal (eq_evfd q)\<rparr>"

text \<open>One \<open>read\<close> of \<open>drain_notify\<close>: whether it got something, so that the loop goes on.\<close>

definition drain_read :: "BmsEventQueue \<Rightarrow> bool \<times> BmsEventQueue" where
  "drain_read q = (event_readable (eq_evfd q), q\<lparr>eq_evfd := event_consume (eq_evfd q)\<rparr>)"

definition try_pop :: "BmsEventQueue \<Rightarrow> BmsEvent option \<times> BmsEventQueue" where
  "try_pop q = (let (ev, rest) = queue_try_pop (eq_q q) in (ev, q\<lparr>eq_q := rest\<rparr>))"

section \<open>Producers and consumer\<close>

text \<open>Where the dispatcher is: waiting, in the loop of \<open>drain_notify\<close>, or in the loop of \<open>try_pop\<close>.\<close>

datatype consumer = Waiting | Draining | Popping

text \<open>\<open>qw_writers\<close> counts the threads between the two halves of \<open>push\<close>; what was pushed and what was
  delivered is recorded.\<close>

record QueueWorld =
  qw_queue :: BmsEventQueue
  qw_consumer :: consumer
  qw_writers :: nat
  qw_pushed :: "BmsEvent list"
  qw_delivered :: "BmsEvent list"

definition queue_world :: "int \<Rightarrow> QueueWorld" where
  "queue_world fd = \<lparr>qw_queue = event_queue_init fd, qw_consumer = Waiting, qw_writers = 0,
     qw_pushed = [], qw_delivered = []\<rparr>"

datatype queue_label = PushLocked BmsEvent | PushNotify | Wake | DrainRead | TryPop

fun queue_apply :: "queue_label \<Rightarrow> QueueWorld \<Rightarrow> QueueWorld option" where
  "queue_apply (PushLocked ev) w =
     Some (w\<lparr>qw_queue := push_locked ev (qw_queue w), qw_writers := Suc (qw_writers w),
             qw_pushed := qw_pushed w @ [ev]\<rparr>)"
| "queue_apply PushNotify w =
     (if qw_writers w = 0 then None
      else Some (w\<lparr>qw_queue := push_notify (qw_queue w), qw_writers := qw_writers w - 1\<rparr>))"
| "queue_apply Wake w =
     (if qw_consumer w = Waiting \<and> event_readable (eq_evfd (qw_queue w))
      then Some (w\<lparr>qw_consumer := Draining\<rparr>) else None)"
| "queue_apply DrainRead w =
     (if qw_consumer w = Draining
      then let (again, q) = drain_read (qw_queue w)
           in Some (w\<lparr>qw_queue := q, qw_consumer := (if again then Draining else Popping)\<rparr>)
      else None)"
| "queue_apply TryPop w =
     (if qw_consumer w = Popping
      then case try_pop (qw_queue w) of
          (None, q) \<Rightarrow> Some (w\<lparr>qw_queue := q, qw_consumer := Waiting\<rparr>)
        | (Some ev, q) \<Rightarrow> Some (w\<lparr>qw_queue := q, qw_delivered := qw_delivered w @ [ev]\<rparr>)
      else None)"

fun queue_run :: "queue_label list \<Rightarrow> QueueWorld \<Rightarrow> QueueWorld option" where
  "queue_run [] w = Some w"
| "queue_run (l # ls) w = (case queue_apply l w of None \<Rightarrow> None | Some w \<Rightarrow> queue_run ls w)"

inductive queue_reachable :: "int \<Rightarrow> QueueWorld \<Rightarrow> bool" for fd where
  start: "queue_reachable fd (queue_world fd)"
| step: "queue_reachable fd w \<Longrightarrow> queue_apply l w = Some w' \<Longrightarrow> queue_reachable fd w'"

section \<open>No wake-up is lost\<close>

text \<open>Whenever something is in the queue, the eventfd is readable, or a writer is about to make it
  so, or the dispatcher is at work; nothing is lost, doubled or reordered.\<close>

definition queue_inv :: "QueueWorld \<Rightarrow> bool" where
  "queue_inv w \<longleftrightarrow> event_ok (eq_evfd (qw_queue w)) \<and>
     qw_delivered w @ eq_q (qw_queue w) = qw_pushed w \<and>
     (eq_q (qw_queue w) \<noteq> [] \<and> qw_consumer w = Waiting \<longrightarrow>
        event_readable (eq_evfd (qw_queue w)) \<or> 0 < qw_writers w)"

lemma queue_apply_inv: "queue_inv w \<Longrightarrow> queue_apply l w = Some w' \<Longrightarrow> queue_inv w'"
proof (cases l)
  case (PushLocked ev)
  then show "queue_inv w \<Longrightarrow> queue_apply l w = Some w' \<Longrightarrow> queue_inv w'"
    by (auto simp: queue_inv_def push_locked_def queue_push_def)
next
  case PushNotify
  then show "queue_inv w \<Longrightarrow> queue_apply l w = Some w' \<Longrightarrow> queue_inv w'"
    by (auto simp: queue_inv_def push_notify_def ev.ok_signal ev.raised_signal split: if_splits)
next
  case TryPop
  then show "queue_inv w \<Longrightarrow> queue_apply l w = Some w' \<Longrightarrow> queue_inv w'"
    by (auto simp: queue_inv_def try_pop_def queue_try_pop_def split: if_splits list.splits)
qed (auto simp: queue_inv_def drain_read_def Let_def ev.ok_consume split: if_splits)

lemma queue_reachable_inv:
  assumes "queue_reachable fd w" "0 \<le> fd"
  shows "queue_inv w"
  using assms(1)
proof (induction rule: queue_reachable.induct)
  case start
  then show ?case using assms(2)
    by (simp add: queue_inv_def queue_world_def event_queue_init_def event_init_def event_ok_def)
qed (rule queue_apply_inv)

section \<open>The dispatcher catches up\<close>

lemma queue_run_append: "queue_run (as @ bs) w = (case queue_run as w of None \<Rightarrow> None | Some w \<Rightarrow> queue_run bs w)"
  by (induction as arbitrary: w) (auto split: option.split)

lemma pops:
  "qw_consumer w = Popping \<Longrightarrow> queue_run (replicate (Suc (length (eq_q (qw_queue w)))) TryPop) w =
     Some (w\<lparr>qw_queue := (qw_queue w)\<lparr>eq_q := []\<rparr>, qw_consumer := Waiting,
             qw_delivered := qw_delivered w @ eq_q (qw_queue w)\<rparr>)"
proof (induction "eq_q (qw_queue w)" arbitrary: w)
  case (Cons ev evs)
  let ?w = "w\<lparr>qw_queue := (qw_queue w)\<lparr>eq_q := evs\<rparr>, qw_delivered := qw_delivered w @ [ev]\<rparr>"
  have "queue_apply TryPop w = Some ?w"
    using Cons.hyps(2) [symmetric] Cons.prems by (simp add: try_pop_def queue_try_pop_def)
  then show ?case
    using Cons.hyps(1) [of ?w] Cons.hyps(2) [symmetric] Cons.prems by simp
qed (simp add: try_pop_def queue_try_pop_def)

lemma notifies:
  "\<exists>q. queue_run (replicate (qw_writers w) PushNotify) w = Some (w\<lparr>qw_queue := q, qw_writers := 0\<rparr>)"
proof (induction "qw_writers w" arbitrary: w)
  case (Suc n)
  let ?w = "w\<lparr>qw_queue := push_notify (qw_queue w), qw_writers := n\<rparr>"
  have "queue_apply PushNotify w = Some ?w" using Suc.hyps(2) [symmetric] by simp
  then show ?case using Suc.hyps(1) [of ?w] Suc.hyps(2) [symmetric] by simp
next
  case 0
  then show ?case by (intro exI [of _ "qw_queue w"]) simp
qed

lemma queue_run_inv: "queue_inv w \<Longrightarrow> queue_run ls w = Some w' \<Longrightarrow> queue_inv w'"
  by (induction ls arbitrary: w) (auto intro: queue_apply_inv split: option.splits)

text \<open>Steps without new events.\<close>

definition quiet :: "queue_label list \<Rightarrow> QueueWorld \<Rightarrow> QueueWorld \<Rightarrow> bool" where
  "quiet ls w w' \<longleftrightarrow> set ls \<subseteq> {PushNotify, Wake, DrainRead, TryPop} \<and> queue_run ls w = Some w' \<and>
     qw_pushed w' = qw_pushed w"

lemma quiet_trans: "quiet ls w v \<Longrightarrow> quiet ks v u \<Longrightarrow> quiet (ls @ ks) w u"
  by (simp add: quiet_def queue_run_append)

lemma drained:
  assumes "queue_inv w" "qw_consumer w = Draining"
  shows "\<exists>ls w'. quiet ls w w' \<and> qw_consumer w' = Popping"
proof -
  have "event_ok (eq_evfd (qw_queue w))" using assms(1) by (simp add: queue_inv_def)
  then have n: "\<not> event_readable (event_consume (eq_evfd (qw_queue w)))" by (rule ev.raised_consume)
  show ?thesis
  proof (cases "event_readable (eq_evfd (qw_queue w))")
    case True
    then show ?thesis using n assms(2)
      by (intro exI [of _ "[DrainRead, DrainRead]"]) (simp add: quiet_def drain_read_def)
  next
    case False
    then show ?thesis using assms(2)
      by (intro exI [of _ "[DrainRead]"]) (simp add: quiet_def drain_read_def)
  qed
qed

lemma delivered:
  assumes "queue_inv w" "qw_consumer w = Popping"
  shows "\<exists>ls w'. quiet ls w w' \<and> qw_delivered w' = qw_pushed w \<and> qw_consumer w' = Waiting"
proof -
  let ?ls = "replicate (Suc (length (eq_q (qw_queue w)))) TryPop"
  have "set ?ls \<subseteq> {PushNotify, Wake, DrainRead, TryPop}" by (simp only: set_replicate) auto
  moreover have "qw_delivered w @ eq_q (qw_queue w) = qw_pushed w" using assms(1) by (simp add: queue_inv_def)
  ultimately show ?thesis
    using pops [OF assms(2)] unfolding quiet_def
    by (intro exI [of _ ?ls] exI [of _ "w\<lparr>qw_queue := (qw_queue w)\<lparr>eq_q := []\<rparr>,
        qw_consumer := Waiting, qw_delivered := qw_delivered w @ eq_q (qw_queue w)\<rparr>"])
      (simp del: replicate_Suc)
qed

lemma catches_up:
  assumes "queue_inv w" "qw_writers w = 0"
  shows "\<exists>ls w'. quiet ls w w' \<and> qw_delivered w' = qw_pushed w \<and> qw_consumer w' = Waiting"
proof -
  have pop: "\<exists>ls w'. quiet ls v w' \<and> qw_delivered w' = qw_pushed v \<and> qw_consumer w' = Waiting"
    if d: "queue_inv v" "qw_consumer v = Draining" for v
  proof -
    obtain ls u where u: "quiet ls v u" "qw_consumer u = Popping" using drained [OF d] by blast
    have "queue_inv u" using queue_run_inv [OF d(1)] u(1) by (auto simp: quiet_def)
    from delivered [OF this u(2)] obtain ks t where "quiet ks u t" "qw_delivered t = qw_pushed u" "qw_consumer t = Waiting"
      by blast
    then show ?thesis using quiet_trans [OF u(1)] u(1) unfolding quiet_def by metis
  qed
  show ?thesis
  proof (cases "qw_consumer w")
    case Waiting
    show ?thesis
    proof (cases "eq_q (qw_queue w) = []")
      case True
      then show ?thesis using assms(1) Waiting
        by (intro exI [of _ "[]"] exI [of _ w]) (simp add: quiet_def queue_inv_def)
    next
      case False
      let ?v = "w\<lparr>qw_consumer := Draining\<rparr>"
      have v: "quiet [Wake] w ?v" using False assms Waiting by (simp add: quiet_def queue_inv_def)
      have "queue_inv ?v" using assms(1) by (simp add: queue_inv_def)
      from pop [OF this] obtain ls u where "quiet ls ?v u" "qw_delivered u = qw_pushed w" "qw_consumer u = Waiting"
        by auto
      then show ?thesis using quiet_trans [OF v] by blast
    qed
  qed (use assms delivered pop in blast)+
qed

section \<open>A sample race\<close>

lemma queue_run_reachable: "queue_reachable fd w \<Longrightarrow> queue_run ls w = Some w' \<Longrightarrow> queue_reachable fd w'"
  by (induction ls arbitrary: w) (auto intro: queue_reachable.step split: option.splits)

text \<open>A second event arrives while the dispatcher drains; its write comes after the read.\<close>

definition sample_race :: "queue_label list" where
  "sample_race = [PushLocked EvConnected, PushNotify, Wake, PushLocked EvDisconnected, DrainRead, PushNotify]"

lemma sample_race_run:
  "\<exists>w. queue_run sample_race (queue_world 3) = Some w \<and> queue_reachable 3 w \<and>
     qw_pushed w = [EvConnected, EvDisconnected] \<and> qw_delivered w = []"
proof -
  have "\<exists>w. queue_run sample_race (queue_world 3) = Some w \<and>
      qw_pushed w = [EvConnected, EvDisconnected] \<and> qw_delivered w = []"
    by (simp add: sample_race_def queue_world_def event_queue_init_def event_init_def push_locked_def
        queue_push_def push_notify_def event_signal_def eventfd_max_def drain_read_def event_readable_def)
  then show ?thesis using queue_run_reachable [OF queue_reachable.start] by blast
qed

section \<open>Properties\<close>

text \<open>C34: However the pushes of the client's threads interleave with the reads and pops of the
  dispatcher, the handler gets the events in the order in which they were pushed, none twice, and those
  still to come are in the queue; and when the queue is not empty while the dispatcher waits,
  the eventfd is readable or a push is about to make it so.\<close>

theorem no_wakeup_lost:
  assumes "queue_reachable fd w" "0 \<le> fd"
  shows "qw_pushed w = qw_delivered w @ eq_q (qw_queue w) \<and>
    (eq_q (qw_queue w) \<noteq> [] \<and> qw_consumer w = Waiting \<and> qw_writers w = 0 \<longrightarrow> queue_apply Wake w \<noteq> None)"
proof -
  have "queue_inv w" by (rule queue_reachable_inv [OF assms])
  then show ?thesis by (auto simp: queue_inv_def)
qed

lemma no_wakeup_lost_witness:
  "\<exists>w. queue_run sample_race (queue_world 3) = Some w \<and> [EvConnected, EvDisconnected] = eq_q (qw_queue w)"
  using sample_race_run no_wakeup_lost [of 3] by force

text \<open>The dispatcher always catches up: from every state that can be reached, finishing the pushes that
  have begun and running the dispatcher delivers everything that was pushed.\<close>

theorem pump_catches_up:
  assumes "queue_reachable fd w" "0 \<le> fd"
  shows "\<exists>ls w'. set ls \<subseteq> {PushNotify, Wake, DrainRead, TryPop} \<and> queue_run ls w = Some w' \<and>
    qw_delivered w' = qw_pushed w \<and> qw_consumer w' = Waiting"
proof -
  obtain q where q: "queue_run (replicate (qw_writers w) PushNotify) w = Some (w\<lparr>qw_queue := q, qw_writers := 0\<rparr>)"
    using notifies by blast
  let ?v = "w\<lparr>qw_queue := q, qw_writers := 0\<rparr>"
  have v: "quiet (replicate (qw_writers w) PushNotify) w ?v" using q by (auto simp: quiet_def)
  have "queue_inv ?v" by (rule queue_run_inv [OF queue_reachable_inv [OF assms] q])
  from catches_up [OF this] obtain ls u where "quiet ls ?v u" "qw_delivered u = qw_pushed ?v" "qw_consumer u = Waiting"
    by auto
  then show ?thesis using quiet_trans [OF v] by (intro exI [of _ "replicate (qw_writers w) PushNotify @ ls"] exI [of _ u])
    (simp add: quiet_def)
qed

lemma pump_catches_up_witness:
  "\<exists>ls w w'. queue_run sample_race (queue_world 3) = Some w \<and> queue_run ls w = Some w' \<and>
     qw_delivered w' = [EvConnected, EvDisconnected]"
  using sample_race_run pump_catches_up [of 3] by force

end
