(* ===== verification/Ble_Client.thy ===== *)
theory Ble_Client
  imports Battery Scan_Coordinator Event_Queue
begin

text \<open>
  src/ble_client.cpp and src/ble_transport.cpp: the management threads of
  the Bluetooth batteries.  All clients share one scan coordinator, so the model is the world
  of all clients: a client per number, the coordinator, and the signals of granted slots that
  are on their way to their client.  Each client is the state machine of the code with its
  event flags; the Bluetooth library is the environment: whether an adapter is found, a scan
  starts, a connect succeeds, and when its callbacks run are choices of the step.

  A step is one event handler of one client, or one callback; \<open>enter(Connect)\<close> blocks in the
  library and is two steps, so other clients run during a connect.  A timer event may come at
  any time, which includes expirations that were already in the batch of \<open>epoll_wait\<close>
  when the timer was disarmed.
\<close>

section \<open>Emptying the event queue\<close>

text \<open>\<open>BleTransport::pump\<close>: the dispatcher thread empties the queue into the handler; each
  received frame comes with the clock readings of its handling.\<close>

function pump ::
    "'p BatteryProtocolOps \<Rightarrow> intervals \<Rightarrow> (bytes \<Rightarrow> clocks) \<Rightarrow> BmsEvent list \<Rightarrow> 'p BmsHandler \<Rightarrow> 'p BmsHandler" where
  "pump ops iv ck q h =
    (case queue_try_pop q of
       (None, q') \<Rightarrow> h
     | (Some EvConnected, q') \<Rightarrow> pump ops iv ck q' (on_connected ops h)
     | (Some EvDisconnected, q') \<Rightarrow> pump ops iv ck q' (on_disconnected ops h)
     | (Some (EvNotifyFrame payload), q') \<Rightarrow> pump ops iv ck q' (on_bytes ops iv (ck payload) payload h))"
  by pat_completeness auto
termination
  by (relation "measure (\<lambda>(ops, iv, ck, q, h). length q)") (auto simp: queue_try_pop_def split: list.splits)

declare pump.simps [simp del]

section \<open>Clients\<close>

datatype ClientState = WaitAdapter | WaitSlot | Scan | Connect | Online | Backoff | Stopping

record BleClient =
  cl_state :: ClientState
  cl_adapter :: bool
  cl_adapter_warned :: bool
  cl_match :: bool
  cl_peripheral :: bool
  cl_link :: bool
  cl_scanning :: bool
  cl_work :: bool
  cl_slot :: bool
  cl_timer :: "int option"
  cl_queue :: "BmsEvent list"

definition client_init :: BleClient where
  "client_init = \<lparr>cl_state = WaitAdapter, cl_adapter = False, cl_adapter_warned = False, cl_match = False,
     cl_peripheral = False, cl_link = False, cl_scanning = False, cl_work = False, cl_slot = False,
     cl_timer = None, cl_queue = []\<rparr>"

definition to_lower :: "string \<Rightarrow> string" where
  "to_lower s = map (\<lambda>c. let k = of_char c :: nat in if 65 \<le> k \<and> k \<le> 90 then char_of (k + 32) else c) s"

definition ids_match :: "string \<Rightarrow> string \<Rightarrow> bool" where
  "ids_match a b \<longleftrightarrow> to_lower a = to_lower b"

record World =
  w_co :: ScanCoordinator
  w_inflight :: "nat list"
  w_client :: "nat \<Rightarrow> BleClient"

definition world_init :: World where
  "world_init = \<lparr>w_co = coordinator_init, w_inflight = [], w_client = (\<lambda>_. client_init)\<rparr>"

abbreviation upd :: "nat \<Rightarrow> (BleClient \<Rightarrow> BleClient) \<Rightarrow> World \<Rightarrow> World" where
  "upd i f w \<equiv> w\<lparr>w_client := (w_client w)(i := f (w_client w i))\<rparr>"

text \<open>The coordinator calls: the callback signals the slot event of the owner that got the slot.\<close>

definition grant_inflight :: "ScanCoordinator \<times> nat option \<Rightarrow> World \<Rightarrow> World" where
  "grant_inflight r w =
     w\<lparr>w_co := fst r, w_inflight := w_inflight w @ (case snd r of None \<Rightarrow> [] | Some j \<Rightarrow> [j])\<rparr>"

definition request_slot :: "nat \<Rightarrow> World \<Rightarrow> World" where
  "request_slot i w = grant_inflight (request i (w_co w)) w"

definition release_slot :: "nat \<Rightarrow> World \<Rightarrow> World" where
  "release_slot i w = grant_inflight (release i (w_co w)) w"

text \<open>A disconnect of an established link runs the disconnected callback, which signals work.\<close>

definition teardown_peripheral :: "BleClient \<Rightarrow> BleClient" where
  "teardown_peripheral c =
     (if \<not> cl_peripheral c then c
      else let c = (if cl_link c then c\<lparr>cl_link := False, cl_work := True\<rparr> else c)
           in c\<lparr>cl_peripheral := False\<rparr>)"

definition stop_scan :: "BleClient \<Rightarrow> BleClient" where
  "stop_scan c = (if \<not> cl_adapter c then c else c\<lparr>cl_scanning := False\<rparr>)"

text \<open>\<open>start_scan\<close>; \<open>started\<close> says whether \<open>scan_start\<close> succeeds.\<close>

definition start_scan :: "bool \<Rightarrow> BleClient \<Rightarrow> bool \<times> BleClient" where
  "start_scan started c =
     (if \<not> cl_adapter c then (False, c)
      else let c = c\<lparr>cl_match := False, cl_scanning := True\<rparr>
           in if started then (True, c)
              else (False, c\<lparr>cl_scanning := False, cl_adapter := False\<rparr>))"

section \<open>enter\<close>

definition enter_wait_slot :: "nat \<Rightarrow> World \<Rightarrow> World" where
  "enter_wait_slot i w = request_slot i (upd i (\<lambda>c. c\<lparr>cl_state := WaitSlot\<rparr>) w)"

definition enter_wait_adapter :: "BleSettings \<Rightarrow> bool \<Rightarrow> nat \<Rightarrow> World \<Rightarrow> World" where
  "enter_wait_adapter cfg probe i w =
    (let w = upd i (\<lambda>c. c\<lparr>cl_state := WaitAdapter\<rparr>) w
     in if probe then enter_wait_slot i (upd i (\<lambda>c. c\<lparr>cl_adapter := True, cl_adapter_warned := False\<rparr>) w)
        else upd i (\<lambda>c. c\<lparr>cl_adapter_warned := True, cl_timer := Some (sint (ble_adapter_poll_ms cfg))\<rparr>) w)"

definition enter_online :: "nat \<Rightarrow> World \<Rightarrow> World" where
  "enter_online i w =
    (let w = release_slot i (upd i (\<lambda>c. c\<lparr>cl_state := Online\<rparr>) w)
     in upd i (\<lambda>c. c\<lparr>cl_work := False\<rparr>) w)"

definition enter_backoff :: "BleSettings \<Rightarrow> nat \<Rightarrow> World \<Rightarrow> World" where
  "enter_backoff cfg i w =
    (let w = release_slot i (upd i (\<lambda>c. c\<lparr>cl_state := Backoff\<rparr>) w)
     in upd i (\<lambda>c. c\<lparr>cl_timer := Some (sint (ble_reconnect_ms cfg))\<rparr>) w)"

definition enter_scan :: "BleSettings \<Rightarrow> bool \<Rightarrow> nat \<Rightarrow> World \<Rightarrow> World" where
  "enter_scan cfg started i w =
    (let c = (w_client w i)\<lparr>cl_state := Scan, cl_work := False\<rparr>;
         (ok, c) = start_scan started c;
         w = upd i (\<lambda>_. c) w
     in if ok then upd i (\<lambda>c. c\<lparr>cl_timer := Some (sint (ble_scan_timeout_ms cfg))\<rparr>) w
        else enter_backoff cfg i w)"

text \<open>The part of \<open>enter(Connect)\<close> before the blocking call, and the part after it: the
  connect and the subscription succeeded or not, and whether the link was lost, and its
  callback run, before \<open>enter(Online)\<close> clears the work event.\<close>

definition enter_connect :: "nat \<Rightarrow> World \<Rightarrow> World" where
  "enter_connect i w = upd i (\<lambda>c. c\<lparr>cl_state := Connect, cl_timer := None\<rparr>) w"

definition connect_done :: "BleSettings \<Rightarrow> bool \<Rightarrow> bool \<Rightarrow> nat \<Rightarrow> World \<Rightarrow> World" where
  "connect_done cfg ok lost i w =
    (if ok then
       enter_online i (upd i (\<lambda>c. c\<lparr>cl_queue := queue_push EvConnected (cl_queue c),
                                    cl_link := \<not> lost, cl_work := (cl_work c \<or> lost)\<rparr>) w)
     else enter_backoff cfg i
       (upd i (\<lambda>c. c\<lparr>cl_peripheral := False, cl_work := (cl_work c \<or> lost)\<rparr>) w))"

section \<open>Event handlers\<close>

definition on_slot_event :: "BleSettings \<Rightarrow> bool \<Rightarrow> nat \<Rightarrow> World \<Rightarrow> World" where
  "on_slot_event cfg started i w =
    (if cl_state (w_client w i) = WaitSlot then enter_scan cfg started i w else w)"

definition on_stop_event :: "nat \<Rightarrow> World \<Rightarrow> World" where
  "on_stop_event i w =
    (let w = release_slot i (upd i teardown_peripheral w)
     in upd i (\<lambda>c. c\<lparr>cl_state := Stopping\<rparr>) w)"

definition on_work_event :: "BleSettings \<Rightarrow> nat \<Rightarrow> World \<Rightarrow> World" where
  "on_work_event cfg i w =
    (case cl_state (w_client w i) of
       Scan \<Rightarrow>
         let found = cl_match (w_client w i); w = upd i (\<lambda>c. c\<lparr>cl_match := False\<rparr>) w
         in if \<not> found then w
            else enter_connect i
              (upd i (\<lambda>c. (stop_scan (c\<lparr>cl_timer := None\<rparr>))\<lparr>cl_peripheral := True\<rparr>) w)
     | Online \<Rightarrow>
         enter_backoff cfg i
           (upd i (\<lambda>c. teardown_peripheral (c\<lparr>cl_queue := queue_push EvDisconnected (cl_queue c)\<rparr>)) w)
     | _ \<Rightarrow> w)"

definition on_timer_expired :: "BleSettings \<Rightarrow> bool \<Rightarrow> nat \<Rightarrow> World \<Rightarrow> World" where
  "on_timer_expired cfg probe i w =
    (case cl_state (w_client w i) of
       WaitAdapter \<Rightarrow> enter_wait_adapter cfg probe i w
     | Scan \<Rightarrow> enter_backoff cfg i (upd i stop_scan w)
     | Backoff \<Rightarrow> if cl_adapter (w_client w i) then enter_wait_slot i w
                  else enter_wait_adapter cfg probe i w
     | _ \<Rightarrow> w)"

text \<open>\<open>send\<close>, called by the handler at any time; \<open>written\<close> says whether the library writes without an
  exception.\<close>

definition ble_send :: "bool \<Rightarrow> nat \<Rightarrow> World \<Rightarrow> bool \<times> World" where
  "ble_send written i w =
    (let c = w_client w i
     in if \<not> cl_peripheral c \<or> \<not> cl_link c then (False, w)
        else if written then (True, w)
        else (False, upd i (\<lambda>c. c\<lparr>cl_work := True\<rparr>) w))"

lemma ble_send_world [simp]:
  "snd (ble_send written i w) =
    (if cl_peripheral (w_client w i) \<and> cl_link (w_client w i) \<and> \<not> written
     then upd i (\<lambda>c. c\<lparr>cl_work := True\<rparr>) w else w)"
  by (simp add: ble_send_def Let_def)

section \<open>Steps\<close>

datatype ble_label =
    TimerFires nat bool | SlotEvent nat bool | WorkEvent nat | ConnectDone nat bool bool | StopEvent nat
  | Signalled nat | ScanFound nat string string | LinkLost nat | Sends nat bool | Notified nat bytes

text \<open>The loop of \<open>run\<close> takes events of its descriptors while it is neither inside a blocking
  connect nor stopping; consuming an event clears its flag before its handler runs.\<close>

definition in_loop :: "BleClient \<Rightarrow> bool" where
  "in_loop c \<longleftrightarrow> cl_state c \<noteq> Connect \<and> cl_state c \<noteq> Stopping"

fun ble_apply :: "(nat \<Rightarrow> BleSettings) \<Rightarrow> ble_label \<Rightarrow> World \<Rightarrow> World option" where
  "ble_apply cfg (TimerFires i probe) w =
     (if in_loop (w_client w i) then Some (on_timer_expired (cfg i) probe i w) else None)"
| "ble_apply cfg (SlotEvent i started) w =
     (if in_loop (w_client w i) \<and> cl_slot (w_client w i)
      then Some (on_slot_event (cfg i) started i (upd i (\<lambda>c. c\<lparr>cl_slot := False\<rparr>) w)) else None)"
| "ble_apply cfg (WorkEvent i) w =
     (if in_loop (w_client w i) \<and> cl_work (w_client w i)
      then Some (on_work_event (cfg i) i (upd i (\<lambda>c. c\<lparr>cl_work := False\<rparr>) w)) else None)"
| "ble_apply cfg (ConnectDone i ok lost) w =
     (if cl_state (w_client w i) = Connect then Some (connect_done (cfg i) ok lost i w) else None)"
| "ble_apply cfg (StopEvent i) w =
     (if in_loop (w_client w i) then Some (on_stop_event i w) else None)"
| "ble_apply cfg (Signalled i) w =
     (if i \<in> set (w_inflight w)
      then Some (upd i (\<lambda>c. c\<lparr>cl_slot := True\<rparr>) (w\<lparr>w_inflight := remove1 i (w_inflight w)\<rparr>)) else None)"
| "ble_apply cfg (ScanFound i addr ident) w =
     (if cl_scanning (w_client w i)
      then Some (if \<not> cl_match (w_client w i) \<and>
             (ids_match addr (ble_address (cfg i)) \<or> ids_match ident (ble_address (cfg i)))
           then upd i (\<lambda>c. c\<lparr>cl_match := True, cl_work := True\<rparr>) w else w) else None)"
| "ble_apply cfg (LinkLost i) w =
     (if cl_link (w_client w i) then Some (upd i (\<lambda>c. c\<lparr>cl_link := False, cl_work := True\<rparr>) w) else None)"
| "ble_apply cfg (Sends i written) w = Some (snd (ble_send written i w))"
| "ble_apply cfg (Notified i payload) w =
     (if cl_link (w_client w i) \<or> cl_state (w_client w i) = Connect
      then Some (upd i (\<lambda>c. c\<lparr>cl_queue := queue_push (EvNotifyFrame payload) (cl_queue c)\<rparr>) w) else None)"

inductive ble_reachable :: "(nat \<Rightarrow> BleSettings) \<Rightarrow> World \<Rightarrow> bool" for cfg where
  start: "ble_reachable cfg world_init"
| step: "ble_reachable cfg w \<Longrightarrow> ble_apply cfg l w = Some w' \<Longrightarrow> ble_reachable cfg w'"

section \<open>The slot and the clients agree\<close>

text \<open>What holds of each client: in \<open>Scan\<close> and \<open>Connect\<close> it holds the slot, and it holds the
  slot in no other state than those and \<open>WaitSlot\<close>; it waits in line exactly when it is in
  \<open>WaitSlot\<close> without the slot; a wake-up is on its way exactly when it holds the slot and has
  not seen that yet.\<close>

definition client_ok :: "ScanCoordinator \<Rightarrow> nat list \<Rightarrow> nat \<Rightarrow> BleClient \<Rightarrow> bool" where
  "client_ok co fl i c \<longleftrightarrow>
     (cl_state c \<in> {Scan, Connect} \<longrightarrow> co_holder co = Some i) \<and>
     (co_holder co = Some i \<longrightarrow> cl_state c \<in> {WaitSlot, Scan, Connect}) \<and>
     (i \<in> set (co_waiters co) \<longleftrightarrow> cl_state c = WaitSlot \<and> co_holder co \<noteq> Some i) \<and>
     (cl_state c \<noteq> Stopping \<longrightarrow>
        (cl_slot c \<or> i \<in> set fl \<longleftrightarrow> co_holder co = Some i \<and> cl_state c = WaitSlot)) \<and>
     \<not> (cl_slot c \<and> i \<in> set fl)"

definition world_ok :: "World \<Rightarrow> bool" where
  "world_ok w \<longleftrightarrow> co_ok (w_co w) \<and> distinct (w_inflight w) \<and>
     (\<forall>i. client_ok (w_co w) (w_inflight w) i (w_client w i))"

lemma world_init_ok: "world_ok world_init"
  by (simp add: world_ok_def world_init_def client_ok_def client_init_def coordinator_init_def
      co_ok_def co_line_def)

text \<open>Only these fields matter.\<close>

lemma client_ok_cong:
  "cl_state c = cl_state c' \<Longrightarrow> cl_slot c = cl_slot c' \<Longrightarrow> client_ok co fl i c = client_ok co fl i c'"
  by (simp add: client_ok_def)

lemma world_ok_upd:
  assumes "world_ok w" "cl_state (f (w_client w i)) = cl_state (w_client w i)"
    "cl_slot (f (w_client w i)) = cl_slot (w_client w i)"
  shows "world_ok (upd i f w)"
  using assms client_ok_cong [of "f (w_client w i)" "w_client w i"] by (auto simp: world_ok_def)

text \<open>A client that leaves \<open>Scan\<close>, \<open>Connect\<close> or its place in line, in one go with its release.\<close>

lemma client_left:
  assumes "client_ok co fl i c" "st \<in> {Online, Backoff, Stopping}"
    and "cl_state c \<noteq> WaitSlot \<and> cl_state c \<noteq> Stopping \<or> st = Stopping"
    and "co_holder co' \<noteq> Some i" "i \<notin> set (co_waiters co')"
    and "\<not> (cl_slot c \<and> i \<in> set fl) \<Longrightarrow> \<not> (cl_slot c \<and> i \<in> set fl')" "i \<in> set fl' \<longleftrightarrow> i \<in> set fl"
  shows "client_ok co' fl' i (c\<lparr>cl_state := st\<rparr>)"
proof -
  have "\<not> (cl_slot c \<and> i \<in> set fl)" using assms(1) by (simp add: client_ok_def)
  moreover have "st \<noteq> Stopping \<Longrightarrow> \<not> cl_slot c \<and> i \<notin> set fl"
    using assms(1,3) by (simp add: client_ok_def)
  ultimately show ?thesis
    using assms(2,4-7) by (auto simp: client_ok_def)
qed

lemma other_client:
  assumes "client_ok co fl j c" "co_holder co' = Some j \<longleftrightarrow> co_holder co = Some j"
    "j \<in> set (co_waiters co') \<longleftrightarrow> j \<in> set (co_waiters co)" "j \<in> set fl' \<longleftrightarrow> j \<in> set fl"
  shows "client_ok co' fl' j c"
  using assms by (simp add: client_ok_def)

lemma world_okI:
  assumes "co_ok (w_co w)" "distinct (w_inflight w)"
    "client_ok (w_co w) (w_inflight w) i (w_client w i)"
    "\<And>j. j \<noteq> i \<Longrightarrow> client_ok (w_co w) (w_inflight w) j (w_client w j)"
  shows "world_ok w"
  unfolding world_ok_def using assms by metis

lemma world_ok_release:
  assumes "world_ok w" "st \<in> {Online, Backoff, Stopping}"
    and "cl_state (w_client w i) \<noteq> WaitSlot \<and> cl_state (w_client w i) \<noteq> Stopping \<or> st = Stopping"
  shows "world_ok (release_slot i (upd i (\<lambda>c. c\<lparr>cl_state := st\<rparr>) w))"
proof -
  let ?co = "w_co w" and ?r = "release i (w_co w)"
  have co: "co_ok ?co" "co_ok (fst ?r)" using assms(1) co.ok_rel by (auto simp: world_ok_def)
  have fl: "distinct (w_inflight w)" using assms(1) by (simp add: world_ok_def)
  have ok: "client_ok ?co (w_inflight w) j (w_client w j)" for j using assms(1) by (simp add: world_ok_def)
  note left = client_left [OF ok assms(2,3)]
  show ?thesis
  proof (cases "co_holder ?co = Some i")
    case False
    then have r: "?r = (?co\<lparr>co_waiters := remove1 i (co_waiters ?co)\<rparr>, None)" by (simp add: release_def)
    have d: "distinct (co_waiters ?co)" using co(1) by (auto simp: co_ok_def co_line_def split: option.splits)
    show ?thesis
      unfolding release_slot_def grant_inflight_def
      by (rule world_okI [of _ i]) (use co(2) fl d False in
          \<open>simp_all add: r left other_client [OF ok]\<close>)
  next
    case True
    show ?thesis
    proof (cases "co_waiters ?co")
      case Nil
      then have r: "?r = (?co\<lparr>co_holder := None\<rparr>, None)" using True by (simp add: release_def Let_def)
      show ?thesis
        unfolding release_slot_def grant_inflight_def
        by (rule world_okI [of _ i]) (use co(2) fl True Nil in
            \<open>simp_all add: r left other_client [OF ok]\<close>)
    next
      case (Cons k ws)
      then have r: "?r = (?co\<lparr>co_waiters := ws, co_holder := Some k\<rparr>, Some k)"
        using True by (simp add: release_def Let_def)
      have d: "distinct (k # ws)" "i \<noteq> k" "i \<notin> set ws"
        using co(1) True Cons by (auto simp: co_ok_def co_line_def)
      have k: "k \<notin> set (w_inflight w)" "cl_state (w_client w k) = WaitSlot" "\<not> cl_slot (w_client w k)"
        using ok [of k] True Cons d by (auto simp: client_ok_def)
      then have "client_ok (?co\<lparr>co_waiters := ws, co_holder := Some k\<rparr>) (w_inflight w @ [k]) k (w_client w k)"
        using d by (simp add: client_ok_def)
      moreover have "client_ok (?co\<lparr>co_waiters := ws, co_holder := Some k\<rparr>) (w_inflight w @ [k]) j (w_client w j)"
        if "j \<noteq> i" "j \<noteq> k" for j
        by (rule other_client [OF ok]) (use that True Cons in auto)
      ultimately have "client_ok (?co\<lparr>co_waiters := ws, co_holder := Some k\<rparr>) (w_inflight w @ [k]) j (w_client w j)"
        if "j \<noteq> i" for j using that by (cases "j = k") auto
      then show ?thesis
        unfolding release_slot_def grant_inflight_def
        by (intro world_okI [of _ i]) (use co(2) fl d k in \<open>simp_all add: r left\<close>)
    qed
  qed
qed

lemma world_ok_request:
  assumes "world_ok w" "cl_state (w_client w i) \<in> {WaitAdapter, Backoff}"
  shows "world_ok (enter_wait_slot i w)"
proof -
  let ?co = "w_co w" and ?r = "request i (w_co w)"
  have co: "co_ok ?co" "co_ok (fst ?r)" using assms(1) co.ok_req by (auto simp: world_ok_def)
  have fl: "distinct (w_inflight w)" using assms(1) by (simp add: world_ok_def)
  have ok: "client_ok ?co (w_inflight w) j (w_client w j)" for j using assms(1) by (simp add: world_ok_def)
  have n: "co_holder ?co \<noteq> Some i" "i \<notin> set (co_waiters ?co)" "i \<notin> set (w_inflight w)" "\<not> cl_slot (w_client w i)"
    using ok [of i] assms(2) by (auto simp: client_ok_def)
  show ?thesis
  proof (cases "co_holder ?co = None")
    case True
    then have r: "?r = (?co\<lparr>co_holder := Some i\<rparr>, Some i)" by (simp add: request_def)
    show ?thesis
      unfolding enter_wait_slot_def request_slot_def grant_inflight_def
      by (rule world_okI [of _ i]) (use co(2) fl n True in
          \<open>simp_all add: r other_client [OF ok] client_ok_def [of _ _ i]\<close>)
  next
    case False
    then have r: "?r = (?co\<lparr>co_waiters := co_waiters ?co @ [i]\<rparr>, None)"
      using n by (auto simp: request_def)
    show ?thesis
      unfolding enter_wait_slot_def request_slot_def grant_inflight_def
      by (rule world_okI [of _ i]) (use co(2) fl n False in
          \<open>simp_all add: r other_client [OF ok] client_ok_def [of _ _ i]\<close>)
  qed
qed

section \<open>Every step keeps it\<close>

lemma upd_release: "upd i g (release_slot i w) = release_slot i (upd i g w)"
  by (simp add: release_slot_def grant_inflight_def)

lemma upd_upd: "upd i g (upd i f w) = upd i (\<lambda>c. g (f c)) w"
  by simp

lemma state_simps [simp]:
  "cl_state (teardown_peripheral c) = cl_state c" "cl_slot (teardown_peripheral c) = cl_slot c"
  "cl_state (stop_scan c) = cl_state c" "cl_slot (stop_scan c) = cl_slot c"
  "cl_queue (teardown_peripheral c) = cl_queue c" "cl_queue (stop_scan c) = cl_queue c"
  by (simp_all add: teardown_peripheral_def stop_scan_def Let_def)

lemma enter_backoff_ok:
  assumes "world_ok w" "cl_state (w_client w i) \<noteq> WaitSlot" "cl_state (w_client w i) \<noteq> Stopping"
  shows "world_ok (enter_backoff cfg i w)"
  unfolding enter_backoff_def Let_def
  by (rule world_ok_upd) (use world_ok_release [OF assms(1), of Backoff i] assms in simp_all)

lemma enter_online_ok:
  assumes "world_ok w" "cl_state (w_client w i) \<noteq> WaitSlot" "cl_state (w_client w i) \<noteq> Stopping"
  shows "world_ok (enter_online i w)"
  unfolding enter_online_def Let_def
  by (rule world_ok_upd) (use world_ok_release [OF assms(1), of Online i] assms in simp_all)

lemma enter_wait_adapter_ok:
  assumes "world_ok w" "cl_state (w_client w i) \<in> {WaitAdapter, Backoff}"
  shows "world_ok (enter_wait_adapter cfg probe i w)"
proof -
  have "client_ok (w_co w) (w_inflight w) i (w_client w i)" using assms(1) by (simp add: world_ok_def)
  with assms(2) have "client_ok (w_co w) (w_inflight w) i ((w_client w i)\<lparr>cl_state := WaitAdapter\<rparr>)"
    by (auto simp: client_ok_def)
  moreover define w1 where "w1 = upd i (\<lambda>c. c\<lparr>cl_state := WaitAdapter\<rparr>) w"
  ultimately have w1: "world_ok w1" "cl_state (w_client w1 i) = WaitAdapter"
    using assms(1) by (simp_all add: world_ok_def)
  have "world_ok (upd i (\<lambda>c. c\<lparr>cl_adapter := True, cl_adapter_warned := False\<rparr>) w1)"
    "world_ok (upd i (\<lambda>c. c\<lparr>cl_adapter_warned := True, cl_timer := Some (sint (ble_adapter_poll_ms cfg))\<rparr>) w1)"
    by (rule world_ok_upd [OF w1(1)]; simp)+
  moreover from world_ok_request [OF this(1)] w1(2)
  have "world_ok (enter_wait_slot i (upd i (\<lambda>c. c\<lparr>cl_adapter := True, cl_adapter_warned := False\<rparr>) w1))"
    by simp
  ultimately show ?thesis
    unfolding enter_wait_adapter_def Let_def w1_def [symmetric] by (simp split: if_split)
qed

lemma granted_scan_ok:
  assumes "world_ok w" "cl_state (w_client w i) = WaitSlot" "cl_slot (w_client w i)"
    "cl_state c = Scan" "\<not> cl_slot c"
  shows "world_ok (upd i (\<lambda>_. c) w)"
proof -
  have "client_ok (w_co w) (w_inflight w) i c"
    using assms(2-5) assms(1) by (auto simp: world_ok_def client_ok_def dest: spec [of _ i])
  then show ?thesis using assms(1) by (simp add: world_ok_def)
qed

lemma slot_event_ok:
  assumes "world_ok w" "in_loop (w_client w i)" "cl_slot (w_client w i)"
  shows "world_ok (on_slot_event cfg started i (upd i (\<lambda>c. c\<lparr>cl_slot := False\<rparr>) w))"
proof -
  have st: "cl_state (w_client w i) = WaitSlot"
    using assms by (auto simp: world_ok_def client_ok_def in_loop_def dest: spec [of _ i])
  let ?c0 = "(w_client w i)\<lparr>cl_slot := False, cl_state := Scan, cl_work := False\<rparr>"
  obtain ok c where sc: "start_scan started ?c0 = (ok, c)" by (cases "start_scan started ?c0")
  then have c: "cl_state c = Scan" "\<not> cl_slot c"
    by (auto simp: start_scan_def Let_def split: if_splits)
  have w: "world_ok (upd i (\<lambda>_. c) w)" by (rule granted_scan_ok [OF assms(1) st assms(3) c])
  have eq: "on_slot_event cfg started i (upd i (\<lambda>c. c\<lparr>cl_slot := False\<rparr>) w) =
      (if ok then upd i (\<lambda>c. c\<lparr>cl_timer := Some (sint (ble_scan_timeout_ms cfg))\<rparr>) (upd i (\<lambda>_. c) w)
       else enter_backoff cfg i (upd i (\<lambda>_. c) w))"
    using sc by (simp add: on_slot_event_def enter_scan_def st)
  show ?thesis
    unfolding eq
    using c enter_backoff_ok [OF w, of i cfg]
      world_ok_upd [OF w, of "\<lambda>c. c\<lparr>cl_timer := Some (sint (ble_scan_timeout_ms cfg))\<rparr>" i]
    by simp
qed

lemma work_event_ok:
  assumes "world_ok w"
  shows "world_ok (on_work_event cfg i w)"
proof (cases "cl_state (w_client w i)")
  case Scan
  let ?w = "upd i (\<lambda>c. (stop_scan (c\<lparr>cl_match := False, cl_timer := None\<rparr>))\<lparr>cl_peripheral := True\<rparr>) w"
  have "world_ok (upd i (\<lambda>c. c\<lparr>cl_match := False\<rparr>) w)" using assms by (intro world_ok_upd) simp_all
  moreover have "world_ok (enter_connect i ?w)"
  proof -
    have "client_ok (w_co w) (w_inflight w) i
        ((stop_scan ((w_client w i)\<lparr>cl_match := False, cl_timer := None\<rparr>))
          \<lparr>cl_peripheral := True, cl_state := Connect, cl_timer := None\<rparr>)"
      using assms Scan by (auto simp: world_ok_def client_ok_def dest: spec [of _ i])
    then show ?thesis using assms by (simp add: world_ok_def enter_connect_def)
  qed
  ultimately show ?thesis using Scan by (simp add: on_work_event_def Let_def)
next
  case Online
  then show ?thesis
    unfolding on_work_event_def
    by simp (rule enter_backoff_ok, rule world_ok_upd [OF assms], simp_all)
qed (use assms in \<open>simp_all add: on_work_event_def\<close>)

lemma timer_ok:
  assumes "world_ok w"
  shows "world_ok (on_timer_expired cfg probe i w)"
proof (cases "cl_state (w_client w i)")
  case WaitAdapter
  then show ?thesis using enter_wait_adapter_ok [OF assms] by (simp add: on_timer_expired_def)
next
  case Scan
  then show ?thesis
    unfolding on_timer_expired_def
    by simp (rule enter_backoff_ok, rule world_ok_upd [OF assms], simp_all)
next
  case Backoff
  then show ?thesis using enter_wait_adapter_ok [OF assms] world_ok_request [OF assms]
    by (simp add: on_timer_expired_def)
qed (use assms in \<open>simp_all add: on_timer_expired_def\<close>)

lemma stop_ok:
  assumes "world_ok w"
  shows "world_ok (on_stop_event i w)"
proof -
  have "world_ok (upd i teardown_peripheral w)" using assms by (intro world_ok_upd) simp_all
  from world_ok_release [OF this, of Stopping i] show ?thesis
    unfolding on_stop_event_def Let_def upd_release by simp
qed

lemma signalled_ok:
  assumes "world_ok w" "i \<in> set (w_inflight w)"
  shows "world_ok (upd i (\<lambda>c. c\<lparr>cl_slot := True\<rparr>) (w\<lparr>w_inflight := remove1 i (w_inflight w)\<rparr>))"
proof -
  have d: "distinct (w_inflight w)" and ok: "client_ok (w_co w) (w_inflight w) j (w_client w j)" for j
    using assms(1) by (simp_all add: world_ok_def)
  show ?thesis
  proof (rule world_okI [of _ i])
    show "client_ok (w_co (upd i (\<lambda>c. c\<lparr>cl_slot := True\<rparr>) (w\<lparr>w_inflight := remove1 i (w_inflight w)\<rparr>)))
      (w_inflight (upd i (\<lambda>c. c\<lparr>cl_slot := True\<rparr>) (w\<lparr>w_inflight := remove1 i (w_inflight w)\<rparr>))) i
      (w_client (upd i (\<lambda>c. c\<lparr>cl_slot := True\<rparr>) (w\<lparr>w_inflight := remove1 i (w_inflight w)\<rparr>)) i)"
      using ok [of i] assms(2) d by (auto simp: client_ok_def)
  qed (use assms(1) d in \<open>auto simp: world_ok_def intro!: other_client [OF ok]\<close>)
qed

lemma ble_apply_ok:
  assumes "world_ok w" "ble_apply cfg l w = Some w'"
  shows "world_ok w'"
proof (cases l)
  case (ConnectDone i ok lost)
  have w: "world_ok (upd i (\<lambda>c. c\<lparr>cl_queue := queue_push EvConnected (cl_queue c),
        cl_link := \<not> lost, cl_work := (cl_work c \<or> lost)\<rparr>) w)"
    "world_ok (upd i (\<lambda>c. c\<lparr>cl_peripheral := False, cl_work := (cl_work c \<or> lost)\<rparr>) w)"
    using assms(1) by (intro world_ok_upd; simp)+
  then show ?thesis
    using assms(2) ConnectDone enter_online_ok [OF w(1), of i] enter_backoff_ok [OF w(2), of i]
    by (auto simp: connect_done_def split: if_splits)
next
  case (WorkEvent i)
  have "world_ok (upd i (\<lambda>c. c\<lparr>cl_work := False\<rparr>) w)" using assms(1) by (intro world_ok_upd) simp_all
  from work_event_ok [OF this] show ?thesis using assms(2) WorkEvent by (auto split: if_splits)
next
  case (ScanFound i addr ident)
  then show ?thesis using assms by (auto split: if_splits intro!: world_ok_upd)
next
  case (LinkLost i)
  then show ?thesis using assms by (auto split: if_splits intro!: world_ok_upd)
next
  case (Sends i written)
  then show ?thesis using assms by (auto split: if_splits intro!: world_ok_upd)
next
  case (Notified i payload)
  then show ?thesis using assms by (auto split: if_splits intro!: world_ok_upd)
qed (use assms slot_event_ok timer_ok stop_ok signalled_ok in \<open>auto split: if_splits\<close>)

lemma ble_reachable_ok: "ble_reachable cfg w \<Longrightarrow> world_ok w"
  by (induction rule: ble_reachable.induct) (auto intro: world_init_ok ble_apply_ok)

section \<open>Link events\<close>

text \<open>What the handler sees of a queue of events.\<close>

fun event_of :: "(bytes \<Rightarrow> clocks) \<Rightarrow> BmsEvent \<Rightarrow> handler_event" where
  "event_of ck EvConnected = LinkUp"
| "event_of ck EvDisconnected = LinkDown"
| "event_of ck (EvNotifyFrame payload) = Received (ck payload) payload"

lemma pump_run: "pump ops iv ck q h = handler_run ops iv (map (event_of ck) q) h"
proof (induction q arbitrary: h)
  case Nil
  show ?case by (subst pump.simps) (simp add: queue_try_pop_def)
next
  case (Cons ev q)
  then show ?case by (subst pump.simps) (cases ev; simp add: queue_try_pop_def)
qed

lemma link_after_append: "link_after (xs @ ys) b = link_after ys (link_after xs b)"
  by (induction xs b rule: link_after.induct) simp_all

abbreviation queue_link :: "BmsEvent list \<Rightarrow> bool" where
  "queue_link q \<equiv> link_after (map (event_of undefined) q) False"

lemma link_after_ck: "link_after (map (event_of ck) q) b = link_after (map (event_of ck') q) b"
proof (induction q arbitrary: b)
  case (Cons ev q)
  then show ?case by (cases ev) simp_all
qed simp

definition queue_ok :: "BleClient \<Rightarrow> bool" where
  "queue_ok c \<longleftrightarrow> cl_state c = Stopping \<or> (queue_link (cl_queue c) \<longleftrightarrow> cl_state c = Online)"

text \<open>The queues of the other clients do not change, and the own one follows the state.\<close>

lemma enter_client [simp]:
  "w_client (release_slot i w) = w_client w"
  "w_client (request_slot i w) = w_client w"
  by (simp_all add: release_slot_def request_slot_def grant_inflight_def)

lemma queue_ok_apply:
  assumes "\<And>j. queue_ok (w_client w j)" "ble_apply cfg l w = Some w'"
  shows "queue_ok (w_client w' k)"
proof -
  have "queue_ok (w_client w k)" by (rule assms(1))
  then show ?thesis
    using assms(2)
    by (cases l)
       (auto simp: queue_ok_def on_timer_expired_def on_slot_event_def on_work_event_def on_stop_event_def
         connect_done_def enter_wait_adapter_def enter_wait_slot_def enter_online_def enter_backoff_def
         enter_scan_def enter_connect_def start_scan_def queue_push_def link_after_append Let_def in_loop_def
         split: if_splits ClientState.splits prod.splits)
qed

lemma queue_ok_reachable: "ble_reachable cfg w \<Longrightarrow> queue_ok (w_client w k)"
proof (induction arbitrary: k rule: ble_reachable.induct)
  case start
  show ?case by (simp add: queue_ok_def world_init_def client_init_def)
next
  case (step w l w')
  show ?case by (rule queue_ok_apply [OF step.IH step.hyps(2)])
qed

section \<open>Runs\<close>

fun ble_run :: "(nat \<Rightarrow> BleSettings) \<Rightarrow> ble_label list \<Rightarrow> World \<Rightarrow> World option" where
  "ble_run cfg [] w = Some w"
| "ble_run cfg (l # ls) w = do { w' \<leftarrow> ble_apply cfg l w; ble_run cfg ls w' }"

lemma ble_run_reachable: "ble_reachable cfg w \<Longrightarrow> ble_run cfg ls w = Some w' \<Longrightarrow> ble_reachable cfg w'"
  by (induction ls arbitrary: w) (auto split: Option.bind_splits intro: ble_reachable.step)

lemmas step_defs =
  on_timer_expired_def on_slot_event_def on_work_event_def on_stop_event_def connect_done_def
  enter_wait_adapter_def enter_wait_slot_def enter_online_def enter_backoff_def enter_scan_def
  enter_connect_def start_scan_def stop_scan_def teardown_peripheral_def in_loop_def Let_def

lemmas coordinator_defs =
  request_slot_def release_slot_def grant_inflight_def request_def release_def coordinator_init_def

lemmas init_defs = world_init_def client_init_def

text \<open>A running scan belongs to a client that has its adapter and is in \<open>Scan\<close>, or was stopped.\<close>

definition scan_owner :: "BleClient \<Rightarrow> bool" where
  "scan_owner c \<longleftrightarrow> (cl_scanning c \<longrightarrow> cl_adapter c \<and> cl_state c \<in> {Scan, Stopping})"

lemma scan_owner_apply:
  assumes "\<And>j. scan_owner (w_client w j)" "ble_apply cfg l w = Some w'"
  shows "scan_owner (w_client w' k)"
proof -
  have "scan_owner (w_client w k)" by (rule assms(1))
  then show ?thesis
    using assms(2)
    by (cases l)
       (auto simp: scan_owner_def step_defs split: if_splits ClientState.splits prod.splits)
qed

lemma scan_owner_reachable: "ble_reachable cfg w \<Longrightarrow> scan_owner (w_client w k)"
proof (induction arbitrary: k rule: ble_reachable.induct)
  case start
  show ?case by (simp add: scan_owner_def world_init_def client_init_def)
next
  case (step w l w')
  show ?case by (rule scan_owner_apply [OF step.IH step.hyps(2)])
qed

text \<open>A client whose link is gone and whose work event is clear hears nothing any more.\<close>

definition deaf :: "nat \<Rightarrow> World \<Rightarrow> bool" where
  "deaf i w \<longleftrightarrow> cl_state (w_client w i) = Online \<and> \<not> cl_link (w_client w i) \<and>
     \<not> cl_work (w_client w i) \<and> \<not> cl_scanning (w_client w i)"

lemma deaf_apply:
  assumes "deaf i w" "ble_apply cfg l w = Some w'" "l \<noteq> StopEvent i"
  shows "deaf i w'"
  using assms
  by (cases l)
     (auto simp: deaf_def step_defs split: if_splits ClientState.splits prod.splits)

lemma deaf_run:
  "deaf i w \<Longrightarrow> ble_run cfg ls w = Some w' \<Longrightarrow> StopEvent i \<notin> set ls \<Longrightarrow> deaf i w'"
  by (induction ls arbitrary: w) (auto split: Option.bind_splits intro: deaf_apply)

section \<open>Sample runs\<close>

text \<open>Client 0 finds the adapter, gets the slot and scans; then it finds its device.\<close>

definition to_scan :: "nat \<Rightarrow> ble_label list" where
  "to_scan i = [TimerFires i True, Signalled i, SlotEvent i True]"

definition to_connect :: "(nat \<Rightarrow> BleSettings) \<Rightarrow> nat \<Rightarrow> ble_label list" where
  "to_connect cfg i = to_scan i @ [ScanFound i (ble_address (cfg i)) [], WorkEvent i]"

lemma run_to_scan: "\<exists>w. ble_run cfg (to_scan 0) world_init = Some w \<and> cl_state (w_client w 0) = Scan"
  by (simp add: to_scan_def step_defs coordinator_defs init_defs)

section \<open>Properties\<close>

definition sample_ble :: "nat \<Rightarrow> BleSettings" where
  "sample_ble i = \<lparr>ble_address = ''C8:47'', ble_service_uuid = ''ffe0'', ble_char_write_uuid = ''ffe1'',
     ble_char_notify_uuid = ''ffe1'', ble_scan_timeout_ms = 10000, ble_adapter_poll_ms = 2000,
     ble_reconnect_ms = 5000\<rparr>"

definition sample_intervals :: intervals where
  "sample_intervals = \<lparr>history_interval = 5000, state_update_interval = 500\<rparr>"

definition sample_clocks :: clocks where
  "sample_clocks = \<lparr>ck_now = 0, ck_wall = 0, ck_stamp = 0\<rparr>"

text \<open>C7: However the events of all clients interleave, at most one client is busy with the radio at
  any time: a client is busy while it is in \<open>Scan\<close> or \<open>Connect\<close>, or while a scan it started is still
  running and it was not stopped.  A running scan belongs to a client in \<open>Scan\<close> or to a stopped
  one: only a stop leaves a scan behind (it does, see \<open>stop_leaves_scan_running\<close>), and such a
  scan of a stopped client may overlap the busy one.  The library's \<open>scan_stop\<close> is taken to end
  the scan.\<close>

theorem scan_connect_exclusive:
  assumes "ble_reachable cfg w"
  shows "{i. cl_state (w_client w i) \<in> {Scan, Connect}} \<subseteq> set_option (co_holder (w_co w)) \<and>
    {i. cl_scanning (w_client w i) \<and> cl_state (w_client w i) \<noteq> Stopping} \<subseteq> set_option (co_holder (w_co w)) \<and>
    {i. cl_scanning (w_client w i)} \<subseteq> {i. cl_state (w_client w i) \<in> {Scan, Stopping}} \<and>
    card {i. cl_state (w_client w i) \<in> {Scan, Connect} \<or> cl_scanning (w_client w i) \<and> cl_state (w_client w i) \<noteq> Stopping} \<le> 1"
proof -
  have ok: "client_ok (w_co w) (w_inflight w) i (w_client w i)" for i
    using ble_reachable_ok [OF assms] by (simp add: world_ok_def)
  have sc: "cl_scanning (w_client w i) \<Longrightarrow> cl_state (w_client w i) \<in> {Scan, Stopping}" for i
    using scan_owner_reachable [OF assms, of i] by (simp add: scan_owner_def)
  let ?busy = "{i. cl_state (w_client w i) \<in> {Scan, Connect} \<or> cl_scanning (w_client w i) \<and> cl_state (w_client w i) \<noteq> Stopping}"
  have sub: "?busy \<subseteq> set_option (co_holder (w_co w))" using ok sc by (fastforce simp: client_ok_def)
  have "card (set_option (co_holder (w_co w))) \<le> 1" by (cases "co_holder (w_co w)") simp_all
  then have "card ?busy \<le> 1" using card_mono [OF _ sub] by simp
  then show ?thesis using sub sc by auto
qed

lemma scan_connect_exclusive_witness:
  "\<exists>w. ble_run sample_ble (to_scan 0) world_init = Some w \<and> cl_state (w_client w 1) \<noteq> Scan \<and>
     \<not> cl_scanning (w_client w 1) \<and> cl_scanning (w_client w 0)"
proof -
  obtain w where w: "ble_run sample_ble (to_scan 0) world_init = Some w" "cl_state (w_client w 0) = Scan"
    "cl_scanning (w_client w 0)" "cl_state (w_client w 1) \<noteq> Stopping"
    by (simp add: to_scan_def step_defs coordinator_defs init_defs)
  have "ble_reachable sample_ble w" by (rule ble_run_reachable [OF ble_reachable.start w(1)])
  from scan_connect_exclusive [OF this]
  have "0 \<in> set_option (co_holder (w_co w))"
    "cl_state (w_client w 1) = Scan \<Longrightarrow> 1 \<in> set_option (co_holder (w_co w))"
    "cl_scanning (w_client w 1) \<Longrightarrow> 1 \<in> set_option (co_holder (w_co w))"
    using w by auto
  then show ?thesis using w by auto
qed

text \<open>C6: The slot never leaks and nobody waits for nothing: its holder is scanning, connecting or
  about to be woken, and a client that waits for it is either the holder with its wake-up on
  the way, or stands in line behind a holder.\<close>

theorem slot_never_leaks:
  assumes "ble_reachable cfg w"
  shows "(case co_holder (w_co w) of None \<Rightarrow> co_waiters (w_co w) = []
     | Some i \<Rightarrow> cl_state (w_client w i) \<in> {Scan, Connect} \<or>
         cl_state (w_client w i) = WaitSlot \<and> (cl_slot (w_client w i) \<or> i \<in> set (w_inflight w))) \<and>
    (\<forall>i. cl_state (w_client w i) = WaitSlot \<longrightarrow>
       co_holder (w_co w) = Some i \<or> co_holder (w_co w) \<noteq> None \<and> i \<in> set (co_waiters (w_co w)))"
proof -
  have co: "co_ok (w_co w)" and ok: "client_ok (w_co w) (w_inflight w) i (w_client w i)" for i
    using ble_reachable_ok [OF assms] by (simp_all add: world_ok_def)
  have "co_holder (w_co w) = Some i \<or> co_holder (w_co w) \<noteq> None \<and> i \<in> set (co_waiters (w_co w))"
    if "cl_state (w_client w i) = WaitSlot" for i
    using ok [of i] co that by (auto simp: client_ok_def co_ok_def)
  moreover have "case co_holder (w_co w) of None \<Rightarrow> co_waiters (w_co w) = []
     | Some i \<Rightarrow> cl_state (w_client w i) \<in> {Scan, Connect} \<or>
         cl_state (w_client w i) = WaitSlot \<and> (cl_slot (w_client w i) \<or> i \<in> set (w_inflight w))"
  proof (cases "co_holder (w_co w)")
    case (Some i)
    then show ?thesis using ok [of i] by (auto simp: client_ok_def)
  qed (use co in \<open>simp add: co_ok_def\<close>)
  ultimately show ?thesis by blast
qed

lemma slot_never_leaks_witness:
  "\<exists>w. ble_run sample_ble [TimerFires 0 True, TimerFires 1 True] world_init = Some w \<and>
     cl_state (w_client w 1) = WaitSlot \<and> 1 \<in> set (co_waiters (w_co w))"
proof -
  obtain w where w: "ble_run sample_ble [TimerFires 0 True, TimerFires 1 True] world_init = Some w"
    "cl_state (w_client w 1) = WaitSlot" "co_holder (w_co w) = Some 0"
    by (simp add: step_defs coordinator_defs init_defs)
  have "ble_reachable sample_ble w" by (rule ble_run_reachable [OF ble_reachable.start w(1)])
  from slot_never_leaks [OF this] w show ?thesis by force
qed

text \<open>The shared state follows the link: once the dispatcher has emptied the event queue of a
  client that is not stopping, its battery counts as connected exactly when the client is
  online, whatever frames were received in between.\<close>

theorem shared_state_follows_link:
  assumes "ble_reachable cfg w" "cl_state (w_client w i) \<noteq> Stopping"
  shows "ss_connected (h_state (pump ops iv ck (cl_queue (w_client w i)) (handler_init p))) \<longleftrightarrow>
    cl_state (w_client w i) = Online"
proof -
  have "queue_link (cl_queue (w_client w i)) \<longleftrightarrow> cl_state (w_client w i) = Online"
    using queue_ok_reachable [OF assms(1), of i] assms(2) by (simp add: queue_ok_def)
  then show ?thesis
    by (simp add: pump_run connected_run link_after_ck [of ck _ _ undefined])
       (simp add: handler_init_def shared_init_def)
qed

lemma shared_state_follows_link_witness:
  "\<exists>w. ble_run sample_ble (to_connect sample_ble 0 @ [ConnectDone 0 True False]) world_init = Some w \<and>
     ss_connected (h_state (pump jk_ops sample_intervals (\<lambda>_. sample_clocks) (cl_queue (w_client w 0)) (handler_init assembler_init)))"
proof -
  obtain w where w: "ble_run sample_ble (to_connect sample_ble 0 @ [ConnectDone 0 True False]) world_init = Some w"
    "cl_state (w_client w 0) = Online"
    by (simp add: to_connect_def to_scan_def step_defs coordinator_defs init_defs ids_match_def)
  have "ble_reachable sample_ble w" by (rule ble_run_reachable [OF ble_reachable.start w(1)])
  from shared_state_follows_link [OF this, of 0] w show ?thesis by auto
qed

text \<open>C40: A link that is lost between the end of the connect and \<open>enter(Online)\<close> is never noticed:
  \<open>enter(Online)\<close> clears the work event the callback had signalled, and from then on no event
  but a stop takes the client out of \<open>Online\<close>, although its link is down.\<close>

theorem lost_disconnect_is_forever:
  "\<exists>w. ble_reachable cfg w \<and> cl_state (w_client w 0) = Online \<and> \<not> cl_link (w_client w 0) \<and>
     (\<forall>ls. case ble_run cfg (filter (\<lambda>l. l \<noteq> StopEvent 0) ls) w of None \<Rightarrow> True
       | Some w' \<Rightarrow> cl_state (w_client w' 0) = Online \<and> \<not> cl_link (w_client w' 0))"
proof -
  obtain w where w: "ble_run cfg (to_connect cfg 0 @ [ConnectDone 0 True True]) world_init = Some w" "deaf 0 w"
    by (simp add: to_connect_def to_scan_def step_defs coordinator_defs init_defs ids_match_def deaf_def)
  have "ble_reachable cfg w" by (rule ble_run_reachable [OF ble_reachable.start w(1)])
  moreover have "case ble_run cfg (filter (\<lambda>l. l \<noteq> StopEvent 0) ls) w of None \<Rightarrow> True
       | Some w' \<Rightarrow> cl_state (w_client w' 0) = Online \<and> \<not> cl_link (w_client w' 0)" for ls
    using deaf_run [OF w(2), of cfg "filter (\<lambda>l. l \<noteq> StopEvent 0) ls"]
    by (auto simp: deaf_def split: option.split)
  ultimately show ?thesis using w(2) by (auto simp: deaf_def)
qed

text \<open>A client that is stopped while it scans gives the slot away without ending its scan, so
  another client can then scan at the same time.\<close>

theorem stop_leaves_scan_running:
  "\<exists>w. ble_reachable cfg w \<and> cl_state (w_client w 0) = Stopping \<and> cl_scanning (w_client w 0) \<and>
     cl_state (w_client w 1) = Scan \<and> cl_scanning (w_client w 1)"
proof -
  obtain w where w: "ble_run cfg (to_scan 0 @ [TimerFires 1 True, StopEvent 0, Signalled 1, SlotEvent 1 True])
      world_init = Some w" "cl_state (w_client w 0) = Stopping" "cl_scanning (w_client w 0)"
    "cl_state (w_client w 1) = Scan" "cl_scanning (w_client w 1)"
    by (simp add: to_scan_def step_defs coordinator_defs init_defs)
  moreover have "ble_reachable cfg w" by (rule ble_run_reachable [OF ble_reachable.start w(1)])
  ultimately show ?thesis by blast
qed

end
