(* ===== verification/Dispatcher.thy ===== *)
theory Dispatcher
  imports Os_Primitives
begin

text \<open>
  src/dispatcher.cpp: the event loop of the main thread.  A handler (\<open>std::function\<close>) is a name
  of some type; what running it does to the program's state is an argument of the loop, and
  that state contains the dispatcher, since handlers watch and unwatch descriptors.  The sets of
  ready descriptors that \<open>epoll_wait\<close> returns are the input of the loop.  A system call that
  fails throws; the result \<open>None\<close> is an exception that ends the process.
\<close>

section \<open>Watching descriptors\<close>

record 'h Dispatcher =
  dp_handlers :: "int \<rightharpoonup> 'h"
  dp_epoll :: "int set"
  dp_stopping :: bool
  dp_wake :: Event
  dp_timers :: "Timer list"

definition dispatcher_init :: "int \<Rightarrow> 'h Dispatcher" where
  "dispatcher_init wake_fd = \<lparr>dp_handlers = Map.empty, dp_epoll = {}, dp_stopping = False,
     dp_wake = event_init wake_fd, dp_timers = []\<rparr>"

text \<open>\<open>emplace\<close> keeps a handler that is already there; \<open>EPOLL_CTL_ADD\<close> fails for a descriptor
  that is registered, or when \<open>ok\<close> says so.\<close>

definition watch :: "bool \<Rightarrow> int \<Rightarrow> 'h \<Rightarrow> 'h Dispatcher \<Rightarrow> 'h Dispatcher option" where
  "watch ok fd h d =
    (let d = (if dp_handlers d fd = None then d\<lparr>dp_handlers := (dp_handlers d)(fd \<mapsto> h)\<rparr> else d)
     in if \<not> ok \<or> fd \<in> dp_epoll d then None
        else Some (d\<lparr>dp_epoll := insert fd (dp_epoll d)\<rparr>))"

definition unwatch :: "int \<Rightarrow> 'h Dispatcher \<Rightarrow> 'h Dispatcher" where
  "unwatch fd d = d\<lparr>dp_handlers := (dp_handlers d)(fd := None), dp_epoll := dp_epoll d - {fd}\<rparr>"

text \<open>\<open>fd\<close> is the descriptor of the new timer; the wrapper handler is named by the caller.\<close>

definition add_timer :: "bool \<Rightarrow> int \<Rightarrow> int \<Rightarrow> 'h \<Rightarrow> 'h Dispatcher \<Rightarrow> 'h Dispatcher option" where
  "add_timer ok fd period_ms h d =
    (let t = timer_arm_periodic period_ms (timer_init fd)
     in map_option (\<lambda>d. d\<lparr>dp_timers := dp_timers d @ [t]\<rparr>) (watch ok fd h d))"

definition dispatcher_stop :: "'h Dispatcher \<Rightarrow> 'h Dispatcher" where
  "dispatcher_stop d = d\<lparr>dp_stopping := True, dp_wake := event_signal (dp_wake d)\<rparr>"

section \<open>The loop\<close>

text \<open>A ready descriptor: the signalfd with the number of pending signals, the wake event, or
  another descriptor.\<close>

datatype ready = SignalFd nat | WakeFd | Fd int

text \<open>The state of the program around a dispatcher, and the effect of a handler on it.\<close>

record ('s, 'h) program =
  pr_get :: "'s \<Rightarrow> 'h Dispatcher"
  pr_put :: "'h Dispatcher \<Rightarrow> 's \<Rightarrow> 's"
  pr_exec :: "'h \<Rightarrow> 's \<Rightarrow> 's option"

definition handle_ready :: "('s, 'h) program \<Rightarrow> ready \<Rightarrow> 's \<Rightarrow> 's option" where
  "handle_ready p r s =
    (case r of
       SignalFd k \<Rightarrow> Some (if k > 0 then pr_put p ((pr_get p s)\<lparr>dp_stopping := True\<rparr>) s else s)
     | WakeFd \<Rightarrow> Some (pr_put p ((pr_get p s)\<lparr>dp_wake := event_consume (dp_wake (pr_get p s))\<rparr>) s)
     | Fd fd \<Rightarrow> (case dp_handlers (pr_get p s) fd of None \<Rightarrow> Some s | Some h \<Rightarrow> pr_exec p h s))"

fun run_batch :: "('s, 'h) program \<Rightarrow> ready list \<Rightarrow> 's \<Rightarrow> 's option" where
  "run_batch p [] s = Some s"
| "run_batch p (r # rs) s = (case handle_ready p r s of None \<Rightarrow> None | Some s \<Rightarrow> run_batch p rs s)"

text \<open>\<open>run\<close>; a batch that is interrupted (\<open>EINTR\<close>) is empty.  The result says whether the loop has
  returned.\<close>

fun dispatcher_run :: "('s, 'h) program \<Rightarrow> ready list list \<Rightarrow> 's \<Rightarrow> (bool \<times> 's) option" where
  "dispatcher_run p [] s = Some (dp_stopping (pr_get p s), s)"
| "dispatcher_run p (b # bs) s =
     (if dp_stopping (pr_get p s) then Some (True, s)
      else case run_batch p b s of None \<Rightarrow> None | Some s \<Rightarrow> dispatcher_run p bs s)"

section \<open>Registered descriptors have their handler\<close>

definition dispatcher_ok :: "'h Dispatcher \<Rightarrow> bool" where
  "dispatcher_ok d \<longleftrightarrow> dom (dp_handlers d) = dp_epoll d"

lemma dispatcher_init_ok: "dispatcher_ok (dispatcher_init fd)"
  by (simp add: dispatcher_ok_def dispatcher_init_def)

lemma watch_ok:
  assumes "dispatcher_ok d" "watch ok fd h d = Some d'"
  shows "dispatcher_ok d'" "dp_handlers d' = (dp_handlers d)(fd \<mapsto> h)" "fd \<notin> dp_epoll d"
    "dp_epoll d' = insert fd (dp_epoll d)" "dp_stopping d' = dp_stopping d"
proof -
  have fd: "fd \<notin> dp_epoll d" using assms(2) by (auto simp: watch_def Let_def split: if_splits)
  then have "dp_handlers d fd = None" using assms(1) by (auto simp: dispatcher_ok_def)
  then have d: "d' = d\<lparr>dp_handlers := (dp_handlers d)(fd \<mapsto> h), dp_epoll := insert fd (dp_epoll d)\<rparr>"
    using assms(2) by (auto simp: watch_def Let_def split: if_splits)
  then show "dispatcher_ok d'" "dp_handlers d' = (dp_handlers d)(fd \<mapsto> h)" "fd \<notin> dp_epoll d"
    "dp_epoll d' = insert fd (dp_epoll d)" "dp_stopping d' = dp_stopping d"
    using assms(1) fd by (simp_all add: dispatcher_ok_def)
qed

lemma watch_fresh: "dispatcher_ok d \<Longrightarrow> fd \<notin> dp_epoll d \<Longrightarrow> watch True fd h d \<noteq> None"
  by (simp add: watch_def Let_def)

lemma unwatch_ok:
  assumes "dispatcher_ok d"
  shows "dispatcher_ok (unwatch fd d)" "dp_handlers (unwatch fd d) fd = None"
    "fd' \<noteq> fd \<Longrightarrow> dp_handlers (unwatch fd d) fd' = dp_handlers d fd'"
    "dp_epoll (unwatch fd d) = dp_epoll d - {fd}"
  using assms by (auto simp: unwatch_def dispatcher_ok_def)

text \<open>What the accessors of a program must satisfy, and what the loop keeps.\<close>

locale dispatched =
  fixes p :: "('s, 'h) program" and inv :: "'s \<Rightarrow> bool"
  assumes get_put: "pr_get p (pr_put p d s) = d"
    and inv_ok: "inv s \<Longrightarrow> dispatcher_ok (pr_get p s)"
    and inv_put: "inv s \<Longrightarrow> dp_handlers d = dp_handlers (pr_get p s) \<Longrightarrow>
      dp_epoll d = dp_epoll (pr_get p s) \<Longrightarrow> inv (pr_put p d s)"
    and inv_exec: "inv s \<Longrightarrow> h \<in> ran (dp_handlers (pr_get p s)) \<Longrightarrow> pr_exec p h s = Some s' \<Longrightarrow> inv s'"
    and exec_stops: "inv s \<Longrightarrow> h \<in> ran (dp_handlers (pr_get p s)) \<Longrightarrow> pr_exec p h s = Some s' \<Longrightarrow>
      dp_stopping (pr_get p s) \<Longrightarrow> dp_stopping (pr_get p s')"
begin

lemma inv_ready: "inv s \<Longrightarrow> handle_ready p r s = Some s' \<Longrightarrow> inv s'"
  by (auto simp: handle_ready_def intro: inv_put inv_exec ranI split: ready.splits option.splits if_splits)

lemma inv_batch: "inv s \<Longrightarrow> run_batch p b s = Some s' \<Longrightarrow> inv s'"
  by (induction b arbitrary: s) (auto intro: inv_ready split: option.splits)

lemma inv_run: "inv s \<Longrightarrow> dispatcher_run p bs s = Some (r, s') \<Longrightarrow> inv s'"
  by (induction bs arbitrary: s) (auto dest: inv_batch split: option.splits if_splits)

lemma stops_ready:
  "inv s \<Longrightarrow> dp_stopping (pr_get p s) \<Longrightarrow> handle_ready p r s = Some s' \<Longrightarrow> dp_stopping (pr_get p s')"
  by (auto simp: handle_ready_def get_put intro: exec_stops ranI split: ready.splits option.splits if_splits)

lemma stops_batch:
  "inv s \<Longrightarrow> dp_stopping (pr_get p s) \<Longrightarrow> run_batch p b s = Some s' \<Longrightarrow> dp_stopping (pr_get p s')"
  by (induction b arbitrary: s) (auto dest: stops_ready inv_ready split: option.splits)

text \<open>A batch with a signal in it is the last one.\<close>

lemma signal_stops:
  assumes "inv s" "SignalFd (Suc k) \<in> set b" "run_batch p b s = Some s'"
  shows "dp_stopping (pr_get p s')"
  using assms
proof (induction b arbitrary: s)
  case (Cons r b)
  obtain t where t: "handle_ready p r s = Some t" "run_batch p b t = Some s'"
    using Cons.prems(3) by (auto split: option.splits)
  have "inv t" by (rule inv_ready [OF Cons.prems(1) t(1)])
  show ?case
  proof (cases "r = SignalFd (Suc k)")
    case True
    then have "dp_stopping (pr_get p t)" using t(1) by (auto simp: handle_ready_def get_put)
    then show ?thesis using stops_batch \<open>inv t\<close> t(2) by blast
  qed (use Cons \<open>inv t\<close> t in auto)
qed simp

lemma run_stopped: "dp_stopping (pr_get p s) \<Longrightarrow> dispatcher_run p bs s = Some (True, s)"
  by (cases bs) simp_all

lemma run_append:
  "dispatcher_run p (as @ bs) s = (case dispatcher_run p as s of None \<Rightarrow> None
     | Some (stopped, t) \<Rightarrow> if stopped then Some (True, t) else dispatcher_run p bs t)"
  by (induction as arbitrary: s) (auto simp: run_stopped split: option.split)

lemma run_after_signal:
  assumes "inv s" "SignalFd (Suc k) \<in> set b" "dispatcher_run p (as @ [b]) s = Some (r, s')"
  shows "r \<and> dispatcher_run p (as @ b # bs) s = Some (True, s')"
proof -
  from assms(3) obtain stopped t where t: "dispatcher_run p as s = Some (stopped, t)"
    by (auto simp: run_append split: option.splits)
  show ?thesis
  proof (cases "stopped \<or> dp_stopping (pr_get p t)")
    case True
    then show ?thesis using assms(3) t by (auto simp: run_append run_stopped split: if_splits)
  next
    case False
    then obtain u where u: "run_batch p b t = Some u"
      using assms(3) t by (auto simp: run_append split: option.splits)
    have "dp_stopping (pr_get p u)" by (rule signal_stops [OF inv_run [OF assms(1) t] assms(2) u])
    then show ?thesis using assms(3) t u False by (auto simp: run_append run_stopped)
  qed
qed

end

end
