(* ===== verification/Uart_Transport.thy ===== *)
theory Uart_Transport
  imports Bms_Handler Dispatcher
begin

text \<open>
  src/uart_transport.cpp: the serial link of a TTL battery and of the inverter, on the
  dispatcher.  The world of one transport is its state, the dispatcher, the descriptors the
  thread of the dispatcher holds, and what the sink was told, oldest first.  What the kernel answers during
  the k-th call is \<open>uw_kernel k\<close>; \<open>open\<close> gives the lowest descriptor that is free, as POSIX
  says, where \<open>k_foreign\<close> are those other threads hold at that moment.  The dispatcher may be shared:
  \<open>wrap\<close> names the two handlers of this transport among all handlers.  The settings of the
  line are in \<open>Serial_Line\<close>.
\<close>

section \<open>Opening the port\<close>

datatype speed =
  B0 | B1200 | B2400 | B4800 | B9600 | B19200 | B38400 | B57600 | B115200 | B230400 | B460800 | B921600

definition baud_to_speed :: "int \<Rightarrow> speed" where
  "baud_to_speed baud =
    (if baud = 1200 then B1200
     else if baud = 2400 then B2400
     else if baud = 4800 then B4800
     else if baud = 9600 then B9600
     else if baud = 19200 then B19200
     else if baud = 38400 then B38400
     else if baud = 57600 then B57600
     else if baud = 115200 then B115200
     else if baud = 230400 then B230400
     else if baud = 460800 then B460800
     else if baud = 921600 then B921600
     else B0)"

datatype read_result = Got bytes | ReadAgain | ReadFailed

record Kernel =
  k_foreign :: "int list"
  k_open :: bool
  k_tcgetattr :: bool
  k_tcsetattr :: bool
  k_epoll_add :: bool
  k_reads :: "read_result list"
  k_expired :: bool

definition lowest_free :: "int set \<Rightarrow> int" where
  "lowest_free fds = hd (filter (\<lambda>i. i \<notin> fds) (map int [0..<Suc (card fds)]))"

text \<open>The result is the descriptor or \<open>-1\<close>, and the descriptors of the thread.\<close>

definition serial_open :: "Kernel \<Rightarrow> int \<Rightarrow> int set \<Rightarrow> int \<times> int set" where
  "serial_open k baud fds =
    (if \<not> k_open k then (-1, fds)
     else
       let fd = lowest_free (fds \<union> set (k_foreign k)); fds = insert fd fds; speed = baud_to_speed baud
       in if speed = B0 then (-1, fds - {fd})
          else if \<not> k_tcgetattr k then (-1, fds - {fd})
          else if \<not> k_tcsetattr k then (-1, fds - {fd})
          else (fd, fds))"

section \<open>The transport\<close>

datatype UartHandler = OnReadable | OnReopen

datatype UartEvent = SinkConnected | SinkDisconnected | SinkBytes bytes

record UartTransport =
  ut_device :: string
  ut_baud :: int
  ut_reconnect_ms :: int
  ut_attached :: bool
  ut_fd :: int
  ut_reopen_timer :: Timer

record 'h UartWorld =
  uw_t :: UartTransport
  uw_disp :: "'h Dispatcher"
  uw_open :: "int set"
  uw_events :: "UartEvent list"
  uw_kernel :: "nat \<Rightarrow> Kernel"
  uw_calls :: nat

definition uart_init :: "string \<Rightarrow> int \<Rightarrow> int \<Rightarrow> int \<Rightarrow> UartTransport" where
  "uart_init device baud reconnect_ms timer_fd =
     \<lparr>ut_device = device, ut_baud = baud, ut_reconnect_ms = reconnect_ms, ut_attached = False,
      ut_fd = -1, ut_reopen_timer = timer_init timer_fd\<rparr>"

abbreviation upd_t :: "(UartTransport \<Rightarrow> UartTransport) \<Rightarrow> 'h UartWorld \<Rightarrow> 'h UartWorld" where
  "upd_t f w \<equiv> w\<lparr>uw_t := f (uw_t w)\<rparr>"

definition tell :: "UartEvent \<Rightarrow> 'h UartWorld \<Rightarrow> 'h UartWorld" where
  "tell e w = w\<lparr>uw_events := uw_events w @ [e]\<rparr>"

definition arm_reopen :: "'h UartWorld \<Rightarrow> 'h UartWorld" where
  "arm_reopen w = upd_t (\<lambda>t. t\<lparr>ut_reopen_timer := timer_arm (ut_reconnect_ms t) (ut_reopen_timer t)\<rparr>) w"

definition try_open :: "(UartHandler \<Rightarrow> 'h) \<Rightarrow> Kernel \<Rightarrow> 'h UartWorld \<Rightarrow> 'h UartWorld option" where
  "try_open wrap k w =
    (let (fd, fds) = serial_open k (ut_baud (uw_t w)) (uw_open w);
         w = upd_t (\<lambda>t. t\<lparr>ut_fd := fd\<rparr>) (w\<lparr>uw_open := fds\<rparr>)
     in if fd < 0 then Some (arm_reopen w)
        else case watch (k_epoll_add k) fd (wrap OnReadable) (uw_disp w) of
            None \<Rightarrow> None
          | Some d \<Rightarrow> Some (tell SinkConnected (w\<lparr>uw_disp := d\<rparr>)))"

definition close_fd :: "'h UartWorld \<Rightarrow> 'h UartWorld" where
  "close_fd w =
    (let fd = ut_fd (uw_t w)
     in if fd < 0 then w
        else
          let w = (if ut_attached (uw_t w) then w\<lparr>uw_disp := unwatch fd (uw_disp w)\<rparr> else w)
          in upd_t (\<lambda>t. t\<lparr>ut_fd := -1\<rparr>) (w\<lparr>uw_open := uw_open w - {fd}\<rparr>))"

text \<open>The read loop: whether it ended with an error, and the world after it.\<close>

fun read_loop :: "read_result list \<Rightarrow> 'h UartWorld \<Rightarrow> bool \<times> 'h UartWorld" where
  "read_loop (Got bs # rs) w = (if bs = [] then (False, w) else read_loop rs (tell (SinkBytes bs) w))"
| "read_loop (ReadFailed # rs) w = (True, w)"
| "read_loop _ w = (False, w)"

definition on_readable :: "Kernel \<Rightarrow> 'h UartWorld \<Rightarrow> 'h UartWorld" where
  "on_readable k w =
    (let (failed, w) = read_loop (k_reads k) w
     in if failed then arm_reopen (tell SinkDisconnected (close_fd w)) else w)"

definition on_reopen_tick :: "(UartHandler \<Rightarrow> 'h) \<Rightarrow> Kernel \<Rightarrow> 'h UartWorld \<Rightarrow> 'h UartWorld option" where
  "on_reopen_tick wrap k w = (if ut_fd (uw_t w) \<ge> 0 then Some w else try_open wrap k w)"

definition uart_start :: "(UartHandler \<Rightarrow> 'h) \<Rightarrow> 'h UartWorld \<Rightarrow> 'h UartWorld option" where
  "uart_start wrap w =
    (let k = uw_kernel w (uw_calls w);
         w = upd_t (\<lambda>t. t\<lparr>ut_attached := True\<rparr>) (w\<lparr>uw_calls := Suc (uw_calls w)\<rparr>)
     in case watch (k_epoll_add k) (tm_fd (ut_reopen_timer (uw_t w))) (wrap OnReopen) (uw_disp w) of
          None \<Rightarrow> None
        | Some d \<Rightarrow> try_open wrap k (w\<lparr>uw_disp := d\<rparr>))"

definition uart_stop :: "'h UartWorld \<Rightarrow> 'h UartWorld" where
  "uart_stop w =
    (let fd = tm_fd (ut_reopen_timer (uw_t w));
         w = (if ut_attached (uw_t w) \<and> fd \<ge> 0 then w\<lparr>uw_disp := unwatch fd (uw_disp w)\<rparr> else w)
     in upd_t (\<lambda>t. t\<lparr>ut_attached := False\<rparr>) (close_fd w))"

text \<open>The two handlers; the timer's clears an expiry first.  \<open>uart_program\<close> is a transport with a dispatcher to itself.\<close>

definition uart_exec :: "(UartHandler \<Rightarrow> 'h) \<Rightarrow> UartHandler \<Rightarrow> 'h UartWorld \<Rightarrow> 'h UartWorld option" where
  "uart_exec wrap h w =
    (let k = uw_kernel w (uw_calls w); w = w\<lparr>uw_calls := Suc (uw_calls w)\<rparr>
     in case h of
          OnReadable \<Rightarrow> Some (on_readable k w)
        | OnReopen \<Rightarrow> on_reopen_tick wrap k
            (if k_expired k then upd_t (\<lambda>t. t\<lparr>ut_reopen_timer := timer_expire (ut_reopen_timer t)\<rparr>) w else w))"

definition uart_program :: "(UartHandler UartWorld, UartHandler) program" where
  "uart_program = \<lparr>pr_get = uw_disp, pr_put = (\<lambda>d w. w\<lparr>uw_disp := d\<rparr>), pr_exec = uart_exec id\<rparr>"

section \<open>send\<close>

datatype write_result = Wrote nat | WriteAgain | WriteFailed

text \<open>The write loop: \<open>None\<close> while the answers of the kernel are used up before it returns; else the result
  and the bytes that were written.  The kernel writes no more than it was given.\<close>

fun write_loop :: "write_result list \<Rightarrow> bytes \<Rightarrow> nat \<Rightarrow> (bool \<times> bytes) option" where
  "write_loop rs data written =
    (if \<not> written < length data then Some (True, take written data)
     else case rs of
       [] \<Rightarrow> None
     | Wrote n # rs \<Rightarrow>
         if n > 0 then write_loop rs data (written + min n (length data - written))
         else Some (False, take written data)
     | WriteAgain # rs \<Rightarrow> write_loop rs data written
     | WriteFailed # rs \<Rightarrow> Some (False, take written data))"

declare write_loop.simps [simp del]

definition uart_send :: "UartTransport \<Rightarrow> write_result list \<Rightarrow> bytes \<Rightarrow> (bool \<times> bytes) option" where
  "uart_send t rs data = (if ut_fd t < 0 then Some (False, []) else write_loop rs data 0)"

section \<open>Descriptors\<close>

lemma lowest_free:
  assumes "finite fds"
  shows "0 \<le> lowest_free fds" "lowest_free fds \<notin> fds"
proof -
  let ?xs = "filter (\<lambda>i. i \<notin> fds) (map int [0..<Suc (card fds)])"
  have "?xs \<noteq> []"
  proof
    assume "?xs = []"
    then have "int ` {0..<Suc (card fds)} \<subseteq> fds"
      by (auto simp: filter_empty_conv image_subset_iff simp del: upt_Suc)
    then have "card (int ` {0..<Suc (card fds)}) \<le> card fds" by (rule card_mono [OF assms])
    then show False by (simp add: card_image)
  qed
  then have "hd ?xs \<in> set ?xs" by (rule hd_in_set)
  then show "0 \<le> lowest_free fds" "lowest_free fds \<notin> fds"
    by (auto simp: lowest_free_def simp del: upt_Suc)
qed

lemma serial_open_cases:
  assumes "finite fds"
  obtains (failed) "serial_open k baud fds = (-1, fds)"
    | (opened) fd where "0 \<le> fd" "fd \<notin> fds" "serial_open k baud fds = (fd, insert fd fds)"
        "k_open k" "baud_to_speed baud \<noteq> B0" "k_tcgetattr k" "k_tcsetattr k"
proof -
  have f: "0 \<le> lowest_free (fds \<union> set (k_foreign k))" "lowest_free (fds \<union> set (k_foreign k)) \<notin> fds"
    using lowest_free [of "fds \<union> set (k_foreign k)"] assms by auto
  show ?thesis
  proof (cases "k_open k \<and> baud_to_speed baud \<noteq> B0 \<and> k_tcgetattr k \<and> k_tcsetattr k")
    case True
    then show ?thesis by (intro opened [OF f]) (simp_all add: serial_open_def Let_def)
  next
    case False
    then show ?thesis using f(2) by (intro failed) (auto simp: serial_open_def Let_def)
  qed
qed

section \<open>The invariant\<close>

text \<open>What the sink has seen is a sequence of connections with bytes only inside them; the result is
  whether the last one is still up.\<close>

fun link_trace :: "bool \<Rightarrow> UartEvent list \<Rightarrow> bool option" where
  "link_trace up [] = Some up"
| "link_trace up (SinkConnected # es) = (if up then None else link_trace True es)"
| "link_trace up (SinkDisconnected # es) = (if up then link_trace False es else None)"
| "link_trace up (SinkBytes bs # es) = (if up then link_trace True es else None)"

lemma link_trace_append:
  "link_trace up (es @ fs) = (case link_trace up es of None \<Rightarrow> None | Some u \<Rightarrow> link_trace u fs)"
  by (induction up es rule: link_trace.induct) auto

abbreviation reopen_fd :: "'h UartWorld \<Rightarrow> int" where
  "reopen_fd w \<equiv> tm_fd (ut_reopen_timer (uw_t w))"

text \<open>The descriptors the thread holds besides the port.\<close>

definition rest_fds :: "'h UartWorld \<Rightarrow> int set" where
  "rest_fds w = uw_open w - {ut_fd (uw_t w)}"

text \<open>A started transport: its two handlers are registered exactly where they belong, its port is one
  of the open descriptors, and the sink has been told of it.\<close>

definition uart_core :: "(UartHandler \<Rightarrow> 'h) \<Rightarrow> 'h UartWorld \<Rightarrow> bool" where
  "uart_core wrap w \<longleftrightarrow> wrap OnReadable \<noteq> wrap OnReopen \<and>
     dispatcher_ok (uw_disp w) \<and> finite (uw_open w) \<and> dp_epoll (uw_disp w) \<subseteq> uw_open w \<and> -1 \<notin> uw_open w \<and>
     ut_attached (uw_t w) \<and> 0 \<le> reopen_fd w \<and> -1 \<le> ut_fd (uw_t w) \<and>
     (\<forall>x. dp_handlers (uw_disp w) x = Some (wrap OnReopen) \<longleftrightarrow> x = reopen_fd w) \<and>
     (\<forall>x. dp_handlers (uw_disp w) x = Some (wrap OnReadable) \<longleftrightarrow> x = ut_fd (uw_t w) \<and> 0 \<le> ut_fd (uw_t w)) \<and>
     link_trace False (uw_events w) = Some (0 \<le> ut_fd (uw_t w))"

definition uart_inv :: "(UartHandler \<Rightarrow> 'h) \<Rightarrow> 'h UartWorld \<Rightarrow> bool" where
  "uart_inv wrap w \<longleftrightarrow> uart_core wrap w \<and>
     (ut_fd (uw_t w) < 0 \<and> 0 \<le> ut_reconnect_ms (uw_t w) \<longrightarrow> tm_left (ut_reopen_timer (uw_t w)) \<noteq> None)"

text \<open>What a call of a transport leaves as it was: the handlers of others, and the descriptors
  besides its port.\<close>

definition uart_frame :: "(UartHandler \<Rightarrow> 'h) \<Rightarrow> 'h UartWorld \<Rightarrow> 'h UartWorld \<Rightarrow> bool" where
  "uart_frame wrap w w' \<longleftrightarrow>
     (\<forall>x h. h \<notin> range wrap \<longrightarrow> (dp_handlers (uw_disp w') x = Some h \<longleftrightarrow> dp_handlers (uw_disp w) x = Some h)) \<and>
     rest_fds w' = rest_fds w \<and> dp_stopping (uw_disp w') = dp_stopping (uw_disp w) \<and>
     reopen_fd w' = reopen_fd w \<and> uw_kernel w' = uw_kernel w \<and>
     ut_device (uw_t w') = ut_device (uw_t w) \<and> ut_baud (uw_t w') = ut_baud (uw_t w) \<and>
     ut_reconnect_ms (uw_t w') = ut_reconnect_ms (uw_t w) \<and>
     (\<exists>es. uw_events w' = uw_events w @ es)"

lemma uart_frame_refl: "uart_frame wrap w w"
  by (simp add: uart_frame_def)

lemma uart_frame_trans: "uart_frame wrap w v \<Longrightarrow> uart_frame wrap v u \<Longrightarrow> uart_frame wrap w u"
  by (auto simp: uart_frame_def)

lemma frame_fields:
  assumes "uart_frame wrap w w'"
  shows "rest_fds w' = rest_fds w" "dp_stopping (uw_disp w') = dp_stopping (uw_disp w)"
    "reopen_fd w' = reopen_fd w" "uw_kernel w' = uw_kernel w" "\<exists>es. uw_events w' = uw_events w @ es"
    "h \<notin> range wrap \<Longrightarrow> dp_handlers (uw_disp w') x = Some h \<longleftrightarrow> dp_handlers (uw_disp w) x = Some h"
    "ut_reconnect_ms (uw_t w') = ut_reconnect_ms (uw_t w)"
  using assms unfolding uart_frame_def by blast+

lemma core_handlers:
  assumes "uart_core wrap w"
  shows "dp_handlers (uw_disp w) (reopen_fd w) = Some (wrap OnReopen)"
    "0 \<le> ut_fd (uw_t w) \<Longrightarrow> dp_handlers (uw_disp w) (ut_fd (uw_t w)) = Some (wrap OnReadable)"
    "0 \<le> ut_fd (uw_t w) \<Longrightarrow> reopen_fd w \<noteq> ut_fd (uw_t w)"
proof -
  show r: "dp_handlers (uw_disp w) (reopen_fd w) = Some (wrap OnReopen)" using assms by (simp add: uart_core_def)
  show p: "dp_handlers (uw_disp w) (ut_fd (uw_t w)) = Some (wrap OnReadable)" if "0 \<le> ut_fd (uw_t w)"
    using assms that by (simp add: uart_core_def)
  have "wrap OnReadable \<noteq> wrap OnReopen" using assms by (simp add: uart_core_def)
  then show "0 \<le> ut_fd (uw_t w) \<Longrightarrow> reopen_fd w \<noteq> ut_fd (uw_t w)" using r p by auto
qed

lemma core_watched:
  assumes "uart_core wrap w"
  shows "reopen_fd w \<in> dp_epoll (uw_disp w)" "0 \<le> ut_fd (uw_t w) \<Longrightarrow> ut_fd (uw_t w) \<in> dp_epoll (uw_disp w)"
proof -
  have "dom (dp_handlers (uw_disp w)) = dp_epoll (uw_disp w)"
    using assms by (simp add: uart_core_def dispatcher_ok_def)
  then show "reopen_fd w \<in> dp_epoll (uw_disp w)" "0 \<le> ut_fd (uw_t w) \<Longrightarrow> ut_fd (uw_t w) \<in> dp_epoll (uw_disp w)"
    using core_handlers(1,2) [OF assms] by auto
qed

lemma core_open:
  assumes "uart_core wrap w"
  shows "reopen_fd w \<in> uw_open w" "0 \<le> ut_fd (uw_t w) \<Longrightarrow> ut_fd (uw_t w) \<in> uw_open w"
  using core_watched [OF assms] assms by (auto simp: uart_core_def)

lemma read_loop_fields:
  assumes "read_loop rs w = (failed, w')"
  shows "uw_t w' = uw_t w" "uw_disp w' = uw_disp w" "uw_open w' = uw_open w" "uw_calls w' = uw_calls w"
    "uw_kernel w' = uw_kernel w" "\<exists>es. uw_events w' = uw_events w @ es"
    "link_trace False (uw_events w) = Some True \<Longrightarrow> link_trace False (uw_events w') = Some True"
  using assms
  by (induction rs w rule: read_loop.induct) (auto simp: tell_def link_trace_append split: if_splits)

lemma armed:
  "0 \<le> tm_fd t \<Longrightarrow> 0 \<le> d \<Longrightarrow> tm_left (timer_arm d t) \<noteq> None"
  "tm_fd (timer_arm d t) = tm_fd t"
  by (simp add: timer_arm_eq) (simp add: timer_arm_def timerfd_settime_def Let_def split: prod.splits)

lemma arm_reopen_inv: "uart_core wrap w \<Longrightarrow> uart_inv wrap (arm_reopen w)"
  using armed(1) [of "ut_reopen_timer (uw_t w)" "ut_reconnect_ms (uw_t w)"]
  by (auto simp: uart_inv_def uart_core_def arm_reopen_def armed(2))

lemma arm_reopen_frame: "uart_frame wrap w (arm_reopen w)"
  by (simp add: uart_frame_def arm_reopen_def rest_fds_def armed(2))

lemma try_open_cases:
  assumes "uart_core wrap w" "ut_fd (uw_t w) < 0" "try_open wrap k w = Some w'"
  obtains (failed) "w' = arm_reopen w"
    | (opened) fd d where "0 \<le> fd" "fd \<notin> uw_open w" "watch (k_epoll_add k) fd (wrap OnReadable) (uw_disp w) = Some d"
        "w' = tell SinkConnected (w\<lparr>uw_open := insert fd (uw_open w), uw_t := (uw_t w)\<lparr>ut_fd := fd\<rparr>, uw_disp := d\<rparr>)"
proof -
  have m1: "ut_fd (uw_t w) = -1" and fin: "finite (uw_open w)" using assms(1,2) by (auto simp: uart_core_def)
  show ?thesis
  proof (cases rule: serial_open_cases [OF fin, of k "ut_baud (uw_t w)"])
    case 1
    have "upd_t (\<lambda>t. t\<lparr>ut_fd := -1\<rparr>) w = w" using m1 by simp
    with assms(3) 1 have "w' = arm_reopen w" by (simp add: try_open_def)
    then show ?thesis by (rule failed)
  next
    case (2 fd)
    then obtain d where "watch (k_epoll_add k) fd (wrap OnReadable) (uw_disp w) = Some d"
      using assms(3) by (auto simp: try_open_def split: option.splits)
    then show ?thesis using 2 assms(3) opened [of fd d] by (simp add: try_open_def)
  qed
qed

lemma try_open_inv:
  assumes inv: "uart_core wrap w" and t: "ut_fd (uw_t w) < 0" and w': "try_open wrap k w = Some w'"
  shows "uart_inv wrap w'" "uart_frame wrap w w'"
proof -
  have "uart_inv wrap w' \<and> uart_frame wrap w w'"
    using inv t w'
  proof (cases rule: try_open_cases)
    case failed
    then show ?thesis using arm_reopen_inv [OF inv] arm_reopen_frame by simp
  next
    case (opened fd d)
    have ok: "dispatcher_ok (uw_disp w)" and r: "reopen_fd w \<noteq> fd" "wrap OnReadable \<noteq> wrap OnReopen"
      and e: "dp_handlers (uw_disp w) fd = None"
      using inv opened(2) core_open(1) [OF inv] by (auto simp: uart_core_def dispatcher_ok_def)
    note wd = watch_ok [OF ok opened(3)]
    have m1: "ut_fd (uw_t w) = -1" using inv t by (simp add: uart_core_def)
    have "uart_inv wrap w'"
      using inv t opened(1,2) wd(1,4) r
      by (auto simp: opened(4) uart_inv_def uart_core_def wd(2) tell_def link_trace_append)
    moreover have "rest_fds w' = rest_fds w"
      using opened(2) inv m1 by (auto simp: opened(4) rest_fds_def tell_def uart_core_def)
    ultimately show ?thesis
      using e wd(5) by (auto simp: uart_frame_def opened(4) wd(2) tell_def)
  qed
  then show "uart_inv wrap w'" "uart_frame wrap w w'" by simp_all
qed

lemma close_fd_inv:
  assumes "uart_core wrap w" "0 \<le> ut_fd (uw_t w)"
  shows "uart_core wrap (tell SinkDisconnected (close_fd w))" "uart_frame wrap w (tell SinkDisconnected (close_fd w))"
proof -
  let ?fd = "ut_fd (uw_t w)"
  have ok: "dispatcher_ok (uw_disp w)" using assms by (simp add: uart_core_def)
  note h = core_handlers(2) [OF assms] and r = core_handlers(3) [OF assms]
  have w': "close_fd w = upd_t (\<lambda>t. t\<lparr>ut_fd := -1\<rparr>)
      (w\<lparr>uw_disp := unwatch ?fd (uw_disp w), uw_open := uw_open w - {?fd}\<rparr>)"
    using assms by (simp add: close_fd_def uart_core_def Let_def)
  note ud = unwatch_ok [OF ok, of ?fd]
  show "uart_core wrap (tell SinkDisconnected (close_fd w))"
    using assms r ud(1,4)
    by (auto simp: w' uart_core_def tell_def link_trace_append unwatch_def)
  show "uart_frame wrap w (tell SinkDisconnected (close_fd w))"
  proof -
    have "dp_handlers (uw_disp w) ?fd \<noteq> Some h'" if "h' \<notin> range wrap" for h' using h that by auto
    moreover have "-1 \<notin> uw_open w" using assms by (simp add: uart_core_def)
    ultimately show ?thesis by (auto simp: w' uart_frame_def rest_fds_def tell_def unwatch_def)
  qed
qed

lemma read_loop_core:
  assumes "uart_core wrap w" "0 \<le> ut_fd (uw_t w)" "read_loop rs w = (failed, w')"
  shows "uart_core wrap w'" "ut_fd (uw_t w') = ut_fd (uw_t w)" "uart_frame wrap w w'"
  using assms read_loop_fields [OF assms(3)] by (simp_all add: uart_core_def uart_frame_def rest_fds_def)

lemma on_readable_inv:
  assumes "uart_inv wrap w" "0 \<le> ut_fd (uw_t w)"
  shows "uart_inv wrap (on_readable k w)" "uart_frame wrap w (on_readable k w)"
proof -
  obtain failed w' where l: "read_loop (k_reads k) w = (failed, w')" by fastforce
  have c: "uart_core wrap w" using assms(1) by (simp add: uart_inv_def)
  note r = read_loop_core [OF c assms(2) l]
  have "uart_inv wrap (on_readable k w) \<and> uart_frame wrap w (on_readable k w)"
  proof (cases failed)
    case True
    have d: "0 \<le> ut_fd (uw_t w')" using r(2) assms(2) by simp
    note cl = close_fd_inv [OF r(1) d]
    show ?thesis
      using True arm_reopen_inv [OF cl(1)] uart_frame_trans [OF uart_frame_trans [OF r(3) cl(2)] arm_reopen_frame]
      by (simp add: on_readable_def l)
  qed (use r assms(2) in \<open>simp add: on_readable_def l uart_inv_def\<close>)
  then show "uart_inv wrap (on_readable k w)" "uart_frame wrap w (on_readable k w)" by simp_all
qed

lemma uart_inv_calls [simp]:
  "uart_inv wrap (w\<lparr>uw_calls := n\<rparr>) = uart_inv wrap w" "uart_core wrap (w\<lparr>uw_calls := n\<rparr>) = uart_core wrap w"
  "uart_frame wrap (w\<lparr>uw_calls := n\<rparr>) v = uart_frame wrap w v"
  by (simp_all add: uart_inv_def uart_core_def uart_frame_def rest_fds_def)

lemma expire_core:
  assumes "uart_core wrap w"
  defines "v \<equiv> upd_t (\<lambda>t. t\<lparr>ut_reopen_timer := timer_expire (ut_reopen_timer t)\<rparr>) w"
  shows "uart_core wrap v" "uart_frame wrap w v"
  using assms(1) by (simp_all add: v_def uart_core_def uart_frame_def rest_fds_def timer_expire_def)

lemma on_reopen_inv:
  assumes "uart_core wrap w" "on_reopen_tick wrap k w = Some w'"
  shows "uart_inv wrap w'" "uart_frame wrap w w'"
  using assms try_open_inv [OF assms(1), of k w'] uart_frame_refl [of wrap w]
  by (auto simp: on_reopen_tick_def uart_inv_def split: if_splits)

lemma uart_exec_inv:
  assumes "uart_inv wrap w" "h = OnReadable \<longrightarrow> 0 \<le> ut_fd (uw_t w)" "uart_exec wrap h w = Some w'"
  shows "uart_inv wrap w'" "uart_frame wrap w w'"
proof -
  let ?w = "w\<lparr>uw_calls := Suc (uw_calls w)\<rparr>"
  have inv: "uart_inv wrap ?w" "uart_core wrap ?w" using assms(1) by (simp_all add: uart_inv_def)
  have "uart_inv wrap w' \<and> uart_frame wrap ?w w'"
  proof (cases h)
    case OnReadable
    then show ?thesis using assms(2,3) on_readable_inv [OF inv(1)] by (auto simp: uart_exec_def Let_def)
  next
    case OnReopen
    note e = expire_core [OF inv(2)]
    show ?thesis
      using assms(3) OnReopen on_reopen_inv [OF inv(2)] on_reopen_inv [OF e(1)] uart_frame_trans [OF e(2)]
      by (auto simp: uart_exec_def Let_def split: if_splits)
  qed
  then show "uart_inv wrap w'" "uart_frame wrap w w'" by simp_all
qed

lemma registered_open:
  "uart_inv wrap w \<Longrightarrow> dp_handlers (uw_disp w) x = Some (wrap OnReadable) \<Longrightarrow> 0 \<le> ut_fd (uw_t w)"
  by (simp add: uart_inv_def uart_core_def)

section \<open>The transport on the dispatcher\<close>

lemma watch_stopping: "watch ok fd h d = Some d' \<Longrightarrow> dp_stopping d' = dp_stopping d"
  by (auto simp: watch_def Let_def split: if_splits)

lemma try_open_stopping: "try_open wrap k w = Some w' \<Longrightarrow> dp_stopping (uw_disp w') = dp_stopping (uw_disp w)"
  by (auto simp: try_open_def arm_reopen_def tell_def Let_def dest: watch_stopping
      split: prod.splits if_splits option.splits)

lemma close_stopping: "dp_stopping (uw_disp (close_fd w)) = dp_stopping (uw_disp w)"
  by (simp add: close_fd_def unwatch_def Let_def)

lemma on_readable_stopping: "dp_stopping (uw_disp (on_readable k w)) = dp_stopping (uw_disp w)"
proof -
  obtain failed w' where l: "read_loop (k_reads k) w = (failed, w')" by fastforce
  then show ?thesis using read_loop_fields(2) [OF l]
    by (simp add: on_readable_def l arm_reopen_def close_stopping tell_def)
qed

lemma uart_exec_stopping:
  assumes "uart_exec wrap h w = Some w'"
  shows "dp_stopping (uw_disp w') = dp_stopping (uw_disp w)"
proof (cases h)
  case OnReadable
  with assms have "w' = on_readable (uw_kernel w (uw_calls w)) (w\<lparr>uw_calls := Suc (uw_calls w)\<rparr>)"
    by (simp add: uart_exec_def Let_def)
  then show ?thesis by (simp add: on_readable_stopping)
next
  case OnReopen
  with assms show ?thesis
    by (auto simp: uart_exec_def on_reopen_tick_def Let_def dest: try_open_stopping split: if_splits)
qed

lemma uart_inv_disp:
  assumes "uart_inv wrap w" "dp_handlers d = dp_handlers (uw_disp w)" "dp_epoll d = dp_epoll (uw_disp w)"
  shows "uart_inv wrap (w\<lparr>uw_disp := d\<rparr>)"
proof -
  have "dispatcher_ok (uw_disp w)" using assms(1) by (simp add: uart_inv_def uart_core_def)
  then have "dispatcher_ok d" using assms(2,3) by (simp only: dispatcher_ok_def)
  then show ?thesis using assms by (simp add: uart_inv_def uart_core_def)
qed

text \<open>A transport with a dispatcher to itself; \<open>rest\<close> are the other descriptors.\<close>

definition uart_alone :: "int set \<Rightarrow> UartHandler UartWorld \<Rightarrow> bool" where
  "uart_alone rest w \<longleftrightarrow> uart_inv id w \<and> rest_fds w = rest"

interpretation uart: dispatched uart_program "uart_alone rest" for rest
proof unfold_locales
  show "dispatcher_ok (pr_get uart_program s)" if "uart_alone rest s" for s
    using that by (simp add: uart_program_def uart_alone_def uart_inv_def uart_core_def)
  show "uart_alone rest s'" if a: "uart_alone rest s" "h \<in> ran (dp_handlers (pr_get uart_program s))"
      "pr_exec uart_program h s = Some s'" for s h s'
  proof -
    have s: "uart_inv id s" "rest_fds s = rest" using a(1) by (simp_all add: uart_alone_def)
    obtain x where "dp_handlers (uw_disp s) x = Some (id h)"
      using a(2) by (force simp: uart_program_def ran_def)
    then have "h = OnReadable \<longrightarrow> 0 \<le> ut_fd (uw_t s)"
      using registered_open [OF s(1)] by blast
    note e = uart_exec_inv [OF s(1) this]
    have "uart_exec id h s = Some s'" using a(3) by (simp add: uart_program_def)
    from e [OF this] s(2) show ?thesis by (simp add: uart_alone_def frame_fields(1))
  qed
  show "uart_alone rest (pr_put uart_program d s)"
    if "uart_alone rest s" "dp_handlers d = dp_handlers (pr_get uart_program s)"
      "dp_epoll d = dp_epoll (pr_get uart_program s)" for s d
    using that uart_inv_disp [of id s d] by (simp add: uart_program_def uart_alone_def rest_fds_def)
qed (simp_all add: uart_program_def uart_exec_stopping)

section \<open>Starting and stopping\<close>

text \<open>Before \<open>start\<close>: the port is not open, the reopen timer has its descriptor, and the dispatcher
  watches nothing for this transport.\<close>

definition uart_fresh :: "(UartHandler \<Rightarrow> 'h) \<Rightarrow> 'h UartWorld \<Rightarrow> bool" where
  "uart_fresh wrap w \<longleftrightarrow> wrap OnReadable \<noteq> wrap OnReopen \<and>
     dispatcher_ok (uw_disp w) \<and> finite (uw_open w) \<and> dp_epoll (uw_disp w) \<subseteq> uw_open w \<and> -1 \<notin> uw_open w \<and>
     reopen_fd w \<in> uw_open w \<and> 0 \<le> reopen_fd w \<and> ut_fd (uw_t w) = -1 \<and> uw_events w = [] \<and>
     (\<forall>h. wrap h \<notin> ran (dp_handlers (uw_disp w)))"

lemma start_inv:
  assumes f: "uart_fresh wrap w" and s: "uart_start wrap w = Some w'"
  shows "uart_inv wrap w'" "uart_frame wrap w w'"
proof -
  let ?k = "uw_kernel w (uw_calls w)"
  let ?w = "upd_t (\<lambda>t. t\<lparr>ut_attached := True\<rparr>) (w\<lparr>uw_calls := Suc (uw_calls w)\<rparr>)"
  obtain d where d: "watch (k_epoll_add ?k) (reopen_fd w) (wrap OnReopen) (uw_disp w) = Some d"
    "try_open wrap ?k (?w\<lparr>uw_disp := d\<rparr>) = Some w'"
    using s by (auto simp: uart_start_def Let_def split: option.splits)
  have "dispatcher_ok (uw_disp w)" using f by (simp add: uart_fresh_def)
  note wd = watch_ok [OF this d(1)]
  have none: "dp_handlers (uw_disp w) x \<noteq> Some (wrap h)" for x h
    using f by (auto simp: uart_fresh_def ran_def)
  have c: "uart_core wrap (?w\<lparr>uw_disp := d\<rparr>)"
    using f wd none by (auto simp: uart_fresh_def uart_core_def)
  have "dp_handlers (uw_disp w) (reopen_fd w) = None"
    using wd(3) f by (auto simp: uart_fresh_def dispatcher_ok_def)
  then have "uart_frame wrap w (?w\<lparr>uw_disp := d\<rparr>)"
    using wd(2,5) by (auto simp: uart_frame_def rest_fds_def)
  then show "uart_inv wrap w'" "uart_frame wrap w w'"
    using try_open_inv [OF c _ d(2)] f uart_frame_trans by (auto simp: uart_fresh_def)
qed

lemma start_alone:
  assumes "uart_fresh id w" "uart_start id w = Some w'"
  shows "uart_alone (uw_open w) w'"
  using start_inv [OF assms] assms(1) by (simp add: uart_alone_def uart_frame_def uart_fresh_def rest_fds_def)

lemma stop_releases:
  assumes "uart_inv wrap w"
  shows "uw_open (uart_stop w) = rest_fds w" "ut_fd (uw_t (uart_stop w)) = -1" "\<not> ut_attached (uw_t (uart_stop w))"
    "dp_handlers (uw_disp (uart_stop w)) x \<noteq> Some (wrap h)"
    "h' \<notin> range wrap \<Longrightarrow> dp_handlers (uw_disp (uart_stop w)) x = Some h' \<longleftrightarrow> dp_handlers (uw_disp w) x = Some h'"
proof -
  have c: "uart_core wrap w" using assms by (simp add: uart_inv_def)
  let ?fd = "ut_fd (uw_t w)"
  have fd: "?fd < 0 \<Longrightarrow> ?fd = -1" "-1 \<notin> uw_open w"
    using c by (auto simp: uart_core_def)
  have "uw_open (uart_stop w) = rest_fds w \<and> ut_fd (uw_t (uart_stop w)) = -1 \<and> \<not> ut_attached (uw_t (uart_stop w)) \<and>
      dp_handlers (uw_disp (uart_stop w)) =
        (dp_handlers (uw_disp w)) (reopen_fd w := None, ?fd := if 0 \<le> ?fd then None else dp_handlers (uw_disp w) ?fd)"
  proof (cases "?fd < 0")
    case True
    then have "dp_handlers (uw_disp w) ?fd = None \<or> reopen_fd w \<noteq> ?fd" using c by (auto simp: uart_core_def)
    then show ?thesis using True c fd
      by (auto simp: uart_stop_def close_fd_def uart_core_def rest_fds_def unwatch_def Let_def)
  next
    case False
    then show ?thesis using c
      by (auto simp: uart_stop_def close_fd_def uart_core_def rest_fds_def unwatch_def Let_def)
  qed
  note s = this
  show "uw_open (uart_stop w) = rest_fds w" "ut_fd (uw_t (uart_stop w)) = -1" "\<not> ut_attached (uw_t (uart_stop w))"
    using s by simp_all
  show "dp_handlers (uw_disp (uart_stop w)) x \<noteq> Some (wrap h)"
    using s c by (cases h) (auto simp: uart_core_def)
  show "dp_handlers (uw_disp (uart_stop w)) x = Some h' \<longleftrightarrow> dp_handlers (uw_disp w) x = Some h'" if n: "h' \<notin> range wrap"
  proof -
    have "dp_handlers (uw_disp w) (reopen_fd w) \<noteq> Some h'" "0 \<le> ?fd \<Longrightarrow> dp_handlers (uw_disp w) ?fd \<noteq> Some h'"
      using core_handlers(1,2) [OF c] n by auto
    then show ?thesis using s by auto
  qed
qed

text \<open>The kernel answers to everything.\<close>

definition device_back :: "'h UartWorld \<Rightarrow> bool" where
  "device_back w \<longleftrightarrow> (let k = uw_kernel w (uw_calls w) in
     k_open k \<and> k_tcgetattr k \<and> k_tcsetattr k \<and> k_epoll_add k)"

lemma reopen_connects:
  assumes "uart_inv wrap w" "ut_fd (uw_t w) < 0" "device_back w" "baud_to_speed (ut_baud (uw_t w)) \<noteq> B0"
  shows "\<exists>w'. uart_exec wrap OnReopen w = Some w' \<and> 0 \<le> ut_fd (uw_t w') \<and> last (uw_events w') = SinkConnected"
proof -
  let ?k = "uw_kernel w (uw_calls w)"
  let ?fd = "lowest_free (uw_open w \<union> set (k_foreign ?k))"
  have ok: "dispatcher_ok (uw_disp w)" "dp_epoll (uw_disp w) \<subseteq> uw_open w" "finite (uw_open w)"
    using assms(1) by (simp_all add: uart_inv_def uart_core_def)
  have fd: "0 \<le> ?fd" "?fd \<notin> uw_open w" using lowest_free [of "uw_open w \<union> set (k_foreign ?k)"] ok(3) by auto
  then obtain d where d: "watch True ?fd (wrap OnReadable) (uw_disp w) = Some d" using watch_fresh [OF ok(1)] ok(2) by blast
  have s: "serial_open ?k (ut_baud (uw_t w)) (uw_open w) = (?fd, insert ?fd (uw_open w))"
    using assms(3,4) by (simp add: serial_open_def device_back_def Let_def)
  show ?thesis
    using assms(2,3) s d fd(1)
    by (auto simp: uart_exec_def on_reopen_tick_def try_open_def device_back_def tell_def timer_expire_def Let_def)
qed

section \<open>The sink\<close>

text \<open>The calls of the sink as events of a BMS handler; \<open>ck\<close> are the clock readings of a call.\<close>

primrec handler_event_of :: "(bytes \<Rightarrow> clocks) \<Rightarrow> UartEvent \<Rightarrow> handler_event" where
  "handler_event_of ck SinkConnected = LinkUp"
| "handler_event_of ck SinkDisconnected = LinkDown"
| "handler_event_of ck (SinkBytes bs) = Received (ck bs) bs"

lemma link_trace_after:
  "link_trace up es = Some b \<Longrightarrow> link_after (map (handler_event_of ck) es) up = b"
  by (induction up es rule: link_trace.induct) (auto split: if_splits)

section \<open>write\<close>

lemma write_loop_result:
  "write_loop rs data k = Some (ok, out) \<Longrightarrow> k \<le> length data \<Longrightarrow>
   \<exists>n \<le> length data. out = take n data \<and> (ok \<longleftrightarrow> n = length data)"
proof (induction rs data k rule: write_loop.induct)
  case (1 rs data k)
  show ?case
  proof (cases "k < length data")
    case True
    show ?thesis
    proof (cases rs)
      case (Cons r rs')
      then show ?thesis using 1 True
        by (subst (asm) (3) write_loop.simps) (cases r; auto split: if_splits intro: exI [of _ k])
    qed (use 1(3) True in \<open>simp add: write_loop.simps\<close>)
  qed (use 1(3,4) in \<open>auto simp: write_loop.simps\<close>)
qed

text \<open>How many bytes the answers stand for at least.\<close>

fun progress :: "write_result list \<Rightarrow> nat" where
  "progress [] = 0"
| "progress (Wrote n # rs) = (if n > 0 then Suc (progress rs) else 0)"
| "progress (WriteAgain # rs) = progress rs"
| "progress (WriteFailed # rs) = 0"

lemma write_loop_returns:
  "length data - k \<le> progress rs \<Longrightarrow> \<exists>r. write_loop rs data k = Some r"
proof (induction rs data k rule: write_loop.induct)
  case (1 rs data k)
  show ?case
  proof (cases "k < length data")
    case True
    show ?thesis
    proof (cases rs)
      case (Cons r rs')
      then show ?thesis using 1 True
        by (subst write_loop.simps) (cases r; auto split: if_splits)
    qed (use 1(3) True in simp)
  next
    case False
    then have "write_loop rs data k = Some (True, take k data)" using write_loop.simps [of rs data k] by simp
    then show ?thesis by (rule exI)
  qed
qed

section \<open>A sample port\<close>

definition sample_kernel :: Kernel where
  "sample_kernel = \<lparr>k_foreign = [], k_open = True, k_tcgetattr = True, k_tcsetattr = True, k_epoll_add = True,
     k_reads = [Got [1, 2], ReadFailed], k_expired = True\<rparr>"

definition sample_port :: "int \<Rightarrow> bool \<Rightarrow> UartHandler UartWorld" where
  "sample_port reconnect present =
     \<lparr>uw_t = uart_init ''/dev/ttyUSB0'' 9600 reconnect 4, uw_disp = dispatcher_init 3, uw_open = {0, 1, 2, 3, 4},
      uw_events = [], uw_kernel = (\<lambda>_. sample_kernel\<lparr>k_open := present\<rparr>), uw_calls = 0\<rparr>"

lemma sample_port_fresh: "uart_fresh id (sample_port reconnect present)"
  by (simp add: dispatcher_ok_def uart_fresh_def sample_port_def uart_init_def timer_init_def dispatcher_init_def)

section \<open>Properties\<close>

text \<open>However the dispatcher runs a started transport, its sink sees connections that
  open and close in turn, with received bytes only inside them, so that a battery behind it
  counts as connected exactly while the port is open; and the transport holds one descriptor
  while the port is open and none otherwise.\<close>

theorem uart_link_bracketed:
  assumes "uart_fresh id w" "uart_start id w = Some w0"
    and "dispatcher_run uart_program batches w0 = Some (stopped, w')"
  shows "link_trace False (uw_events w') = Some (0 \<le> ut_fd (uw_t w')) \<and>
    (ss_connected (h_state (handler_run ops iv (map (handler_event_of ck) (uw_events w')) (handler_init p))) \<longleftrightarrow>
      0 \<le> ut_fd (uw_t w')) \<and>
    uw_open w' = (if 0 \<le> ut_fd (uw_t w') then insert (ut_fd (uw_t w')) (uw_open w) else uw_open w)"
proof -
  have alone: "uart_alone (uw_open w) w'" by (rule uart.inv_run [OF start_alone [OF assms(1,2)] assms(3)])
  then have inv: "link_trace False (uw_events w') = Some (0 \<le> ut_fd (uw_t w'))"
    and c: "uart_core id w'" and r: "rest_fds w' = uw_open w"
    by (simp_all add: uart_alone_def uart_inv_def uart_core_def)
  have "uw_open w' = (if 0 \<le> ut_fd (uw_t w') then insert (ut_fd (uw_t w')) (uw_open w) else uw_open w)"
  proof (cases "0 \<le> ut_fd (uw_t w')")
    case True
    then show ?thesis using core_open(2) [OF c] r by (auto simp: rest_fds_def)
  next
    case False
    then have "ut_fd (uw_t w') = -1" "-1 \<notin> uw_open w'" using c by (auto simp: uart_core_def)
    then show ?thesis using False r by (simp add: rest_fds_def)
  qed
  moreover have "ss_connected (h_state (handler_init p)) = False" by (simp add: handler_init_def shared_init_def)
  ultimately show ?thesis
    using inv link_trace_after [OF inv, of ck] by (simp add: connected_run)
qed

lemma sample_run:
  "\<exists>w0 w'. uart_start id (sample_port 5000 True) = Some w0 \<and>
     dispatcher_run uart_program [[Fd 5], [SignalFd 1]] w0 = Some (True, w') \<and>
     ut_fd (uw_t w') = -1 \<and> ut_reconnect_ms (uw_t w') = 5000 \<and>
     uw_events w' = [SinkConnected, SinkBytes [1, 2], SinkDisconnected]"
proof -
  have l: "lowest_free {0, 1, 2, 3, 4} = 5" by (simp add: lowest_free_def upt_rec)
  show ?thesis
    by (simp add: uart_start_def sample_port_def uart_init_def timer_init_def dispatcher_init_def watch_def
        try_open_def serial_open_def l sample_kernel_def baud_to_speed_def tell_def uart_program_def
        handle_ready_def uart_exec_def on_readable_def close_fd_def unwatch_def arm_reopen_def Let_def)
qed

lemma uart_link_bracketed_witness:
  "\<exists>w0 w'. uart_start id (sample_port 5000 True) = Some w0 \<and>
     dispatcher_run uart_program [[Fd 5], [SignalFd 1]] w0 = Some (True, w') \<and>
     uw_events w' = [SinkConnected, SinkBytes [1, 2], SinkDisconnected] \<and> uw_open w' = {0, 1, 2, 3, 4}"
proof -
  obtain w0 w' where w: "uart_start id (sample_port 5000 True) = Some w0"
    "dispatcher_run uart_program [[Fd 5], [SignalFd 1]] w0 = Some (True, w')" "ut_fd (uw_t w') = -1"
    "uw_events w' = [SinkConnected, SinkBytes [1, 2], SinkDisconnected]"
    using sample_run by blast
  from uart_link_bracketed [OF sample_port_fresh w(1,2), THEN conjunct2, THEN conjunct2] w(3)
  have "uw_open w' = {0, 1, 2, 3, 4}" by (simp add: sample_port_def)
  then show ?thesis using w by blast
qed

text \<open>The transport never gets stuck: after every run of the dispatcher either the port is open and
  watched, or the reopen timer is watched, it is armed if the backoff is not negative, and its next
  expiry at which the device can be opened connects again.\<close>

theorem uart_never_stuck:
  assumes "uart_fresh id w" "uart_start id w = Some w0"
    and "dispatcher_run uart_program batches w0 = Some (stopped, w')"
  shows "if 0 \<le> ut_fd (uw_t w') then dp_handlers (uw_disp w') (ut_fd (uw_t w')) = Some OnReadable \<and>
        ut_fd (uw_t w') \<in> dp_epoll (uw_disp w')
    else (ut_reconnect_ms (uw_t w') < 0 \<or> tm_left (ut_reopen_timer (uw_t w')) \<noteq> None) \<and>
      reopen_fd w' \<in> dp_epoll (uw_disp w') \<and>
      dp_handlers (uw_disp w') (reopen_fd w') = Some OnReopen \<and>
      (\<not> device_back w' \<or> baud_to_speed (ut_baud (uw_t w')) = B0 \<or>
       (\<exists>w''. uart_exec id OnReopen w' = Some w'' \<and> 0 \<le> ut_fd (uw_t w'') \<and> last (uw_events w'') = SinkConnected))"
proof -
  have "uart_alone (uw_open w) w'" by (rule uart.inv_run [OF start_alone [OF assms(1,2)] assms(3)])
  then have inv: "uart_inv id w'" by (simp add: uart_alone_def)
  then have c: "uart_core id w'" by (simp add: uart_inv_def)
  show ?thesis
  proof (cases "0 \<le> ut_fd (uw_t w')")
    case True
    then show ?thesis using core_handlers(2) [OF c] core_watched(2) [OF c] by simp
  next
    case False
    then have "\<not> device_back w' \<or> baud_to_speed (ut_baud (uw_t w')) = B0 \<or>
       (\<exists>w''. uart_exec id OnReopen w' = Some w'' \<and> 0 \<le> ut_fd (uw_t w'') \<and> last (uw_events w'') = SinkConnected)"
      using reopen_connects [OF inv] not_le by blast
    then show ?thesis using False inv core_handlers(1) [OF c] core_watched(1) [OF c]
      by (auto simp: uart_inv_def)
  qed
qed

lemma uart_never_stuck_witness:
  "\<exists>w0 w'. uart_start id (sample_port 5000 True) = Some w0 \<and>
     dispatcher_run uart_program [[Fd 5], [SignalFd 1]] w0 = Some (True, w') \<and>
     tm_left (ut_reopen_timer (uw_t w')) \<noteq> None"
proof -
  obtain w0 w' where w: "uart_start id (sample_port 5000 True) = Some w0"
    "dispatcher_run uart_program [[Fd 5], [SignalFd 1]] w0 = Some (True, w')" "ut_fd (uw_t w') = -1"
    "ut_reconnect_ms (uw_t w') = 5000"
    using sample_run by blast
  from uart_never_stuck [OF sample_port_fresh w(1,2)] w show ?thesis by auto
qed

text \<open>What \<open>send\<close> gives to the kernel is always a beginning of the data, all of it exactly when it
  returns true; it returns as soon as the kernel has taken a byte as often as there are bytes,
  or has failed.\<close>

theorem send_writes_prefix:
  "(case uart_send t rs data of None \<Rightarrow> progress rs < length data
    | Some (ok, out) \<Rightarrow> out = take (length out) data \<and> (ok \<longleftrightarrow> 0 \<le> ut_fd t \<and> out = data))"
proof (cases "ut_fd t < 0")
  case False
  show ?thesis
  proof (cases "write_loop rs data 0")
    case None
    then show ?thesis using write_loop_returns [of data 0 rs] False by (force simp: uart_send_def)
  next
    case (Some r)
    obtain ok out where r: "r = (ok, out)" by fastforce
    obtain n where "n \<le> length data" "out = take n data" "ok \<longleftrightarrow> n = length data"
      using write_loop_result [of rs data 0 ok out] Some r by auto
    then show ?thesis using False Some r by (auto simp: uart_send_def)
  qed
qed (simp add: uart_send_def)

end
