(* ===== verification/Inverter_Link.thy ===== *)
theory Inverter_Link
  imports Inverter Uart_Transport
begin

text \<open>
  src/inverter.cpp, the rest of the class: the inverter owns a serial transport and is its sink.  The
  calls of the sink during a run of the dispatcher are the events of \<open>Uart_Transport\<close>; here they
  are handed to the inverter, whose receive buffer lives as long as the program does.
\<close>

section \<open>The inverter and its transport\<close>

definition kReopenBackoffMs :: int where "kReopenBackoffMs = 5000"

record InverterObj =
  iv_slots :: "Slot list"
  iv_rx_buf :: bytes
  iv_transport :: UartTransport

text \<open>The constructor; \<open>timer_fd\<close> is the descriptor of the reopen timer of the transport.\<close>

definition inverter_new :: "string \<Rightarrow> int \<Rightarrow> int \<Rightarrow> BatteryObj list \<Rightarrow> InverterObj" where
  "inverter_new device baud timer_fd batteries =
     \<lparr>iv_slots = build_address_map batteries, iv_rx_buf = [],
      iv_transport = uart_init device baud kReopenBackoffMs timer_fd\<rparr>"

definition send_response :: "InverterObj \<Rightarrow> write_result list \<Rightarrow> bytes \<Rightarrow> (bool \<times> bytes) option" where
  "send_response iv rs data = uart_send (iv_transport iv) rs data"

text \<open>One call of the sink: a new or a lost connection is only logged, the buffer stays.\<close>

definition inverter_event ::
    "(nat \<Rightarrow> BatteryObj list) \<Rightarrow> (nat \<Rightarrow> int) \<Rightarrow> UartEvent \<Rightarrow> InverterObj \<times> inv_run \<Rightarrow> (InverterObj \<times> inv_run) option" where
  "inverter_event bs clock e s =
    (case e of
       SinkConnected \<Rightarrow> Some s
     | SinkDisconnected \<Rightarrow> Some s
     | SinkBytes data \<Rightarrow>
         map_option (\<lambda>(rx, st). ((fst s)\<lparr>iv_rx_buf := rx\<rparr>, st))
           (inverter_on_bytes bs (iv_slots (fst s)) clock data (iv_rx_buf (fst s)) (snd s)))"

fun inverter_events ::
    "(nat \<Rightarrow> BatteryObj list) \<Rightarrow> (nat \<Rightarrow> int) \<Rightarrow> UartEvent list \<Rightarrow> InverterObj \<times> inv_run \<Rightarrow> (InverterObj \<times> inv_run) option" where
  "inverter_events bs clock [] s = Some s"
| "inverter_events bs clock (e # es) s =
     (case inverter_event bs clock e s of None \<Rightarrow> None | Some s \<Rightarrow> inverter_events bs clock es s)"

text \<open>The bytes the sink was given, over all connections.\<close>

fun received :: "UartEvent list \<Rightarrow> bytes" where
  "received [] = []"
| "received (SinkBytes data # es) = data @ received es"
| "received (_ # es) = received es"

section \<open>Chunks\<close>

text \<open>The transport reads into a buffer of 512 bytes, and the kernel gives no more than it is asked
  for.\<close>

definition kReadBuf :: nat where "kReadBuf = 512"

definition reads_ok :: "(nat \<Rightarrow> Kernel) \<Rightarrow> bool" where
  "reads_ok answers \<longleftrightarrow> (\<forall>k d. Got d \<in> set (k_reads (answers k)) \<longrightarrow> length d \<le> kReadBuf)"

definition chunks_ok :: "UartEvent list \<Rightarrow> bool" where
  "chunks_ok es \<longleftrightarrow> (\<forall>d. SinkBytes d \<in> set es \<longrightarrow> length d \<le> kReadBuf)"

definition chunked :: "'h UartWorld \<Rightarrow> bool" where
  "chunked w \<longleftrightarrow> reads_ok (uw_kernel w) \<and> chunks_ok (uw_events w)"

lemma chunks_ok_simps [simp]:
  "chunks_ok []"
  "chunks_ok (es @ fs) \<longleftrightarrow> chunks_ok es \<and> chunks_ok fs"
  "chunks_ok (SinkBytes d # es) \<longleftrightarrow> length d \<le> kReadBuf \<and> chunks_ok es"
  "chunks_ok (SinkConnected # es) \<longleftrightarrow> chunks_ok es" "chunks_ok (SinkDisconnected # es) \<longleftrightarrow> chunks_ok es"
  by (auto simp: chunks_ok_def)

lemma chunked_upd [simp]:
  "chunked (w\<lparr>uw_t := t\<rparr>) = chunked w" "chunked (w\<lparr>uw_disp := d\<rparr>) = chunked w"
  "chunked (w\<lparr>uw_open := fds\<rparr>) = chunked w" "chunked (w\<lparr>uw_calls := n\<rparr>) = chunked w"
  by (simp_all add: chunked_def)

lemma tell_chunked: "chunked (tell e w) \<longleftrightarrow> chunked w \<and> chunks_ok [e]"
  by (auto simp: chunked_def tell_def)

lemma arm_chunked: "chunked (arm_reopen w) = chunked w"
  by (simp add: arm_reopen_def)

lemma close_chunked: "chunked (close_fd w) = chunked w"
  by (simp add: close_fd_def Let_def)

lemma read_loop_chunked:
  assumes "read_loop rs w = (failed, w')" "chunked w" "\<And>d. Got d \<in> set rs \<Longrightarrow> length d \<le> kReadBuf"
  shows "chunked w'"
  using assms by (induction rs w rule: read_loop.induct) (auto simp: tell_chunked split: if_splits)

lemma on_readable_chunked:
  assumes "chunked w" "reads_ok (\<lambda>_. k)"
  shows "chunked (on_readable k w)"
proof -
  obtain failed w' where l: "read_loop (k_reads k) w = (failed, w')" by fastforce
  have "chunked w'" using assms(2) by (intro read_loop_chunked [OF l assms(1)]) (simp add: reads_ok_def)
  then show ?thesis by (simp add: on_readable_def l arm_chunked tell_chunked close_chunked)
qed

lemma try_open_chunked: "chunked w \<Longrightarrow> try_open wrap k w = Some w' \<Longrightarrow> chunked w'"
  by (auto simp: try_open_def arm_chunked tell_chunked Let_def split: prod.splits if_splits option.splits)

lemma exec_chunked:
  assumes "chunked w" "uart_exec wrap h w = Some w'"
  shows "chunked w'"
proof (cases h)
  case OnReadable
  let ?w = "w\<lparr>uw_calls := Suc (uw_calls w)\<rparr>"
  have "chunked ?w" "reads_ok (\<lambda>_. uw_kernel w (uw_calls w))"
    using assms(1) by (simp_all add: chunked_def reads_ok_def)
  from on_readable_chunked [OF this] show ?thesis
    using assms(2) OnReadable by (simp add: uart_exec_def Let_def)
next
  case OnReopen
  then show ?thesis
    using assms by (auto simp: uart_exec_def on_reopen_tick_def Let_def dest: try_open_chunked [rotated] split: if_splits)
qed

interpretation chunked_uart: dispatched uart_program "\<lambda>w. uart_alone rest w \<and> chunked w" for rest
proof unfold_locales
  show "uart_alone rest s' \<and> chunked s'" if "uart_alone rest s \<and> chunked s"
      "h \<in> ran (dp_handlers (pr_get uart_program s))" "pr_exec uart_program h s = Some s'" for s h s'
    using that uart.inv_exec [of rest s h s'] exec_chunked [of s id h s'] by (simp add: uart_program_def)
  show "uart_alone rest (pr_put uart_program d s) \<and> chunked (pr_put uart_program d s)"
    if "uart_alone rest s \<and> chunked s" "dp_handlers d = dp_handlers (pr_get uart_program s)"
      "dp_epoll d = dp_epoll (pr_get uart_program s)" for s d
    using that uart.inv_put [of rest s d] by (simp add: uart_program_def)
qed (use uart.get_put uart.inv_ok uart.exec_stops in blast)+

lemma start_chunked:
  assumes "uw_events w = []" "reads_ok (uw_kernel w)" "uart_start wrap w = Some w'"
  shows "chunked w'"
proof -
  have "chunked w" using assms(1,2) by (simp add: chunked_def)
  then show ?thesis
    using assms(3) by (auto simp: uart_start_def Let_def dest: try_open_chunked [rotated] split: option.splits)
qed

section \<open>Requests in chunks\<close>

text \<open>The longest frame that an arbitrary division into reads cannot make too long for the receive buffer.\<close>

definition kMaxRequest :: nat where "kMaxRequest = kRxBufLimit - kReadBuf"

lemma on_bytes_cut:
  assumes "p @ data @ rest = stream_of jfs" "stream_ok kMaxRequest jfs" "length data \<le> kReadBuf"
  shows "inverter_on_bytes bs slots clock data (residue p) (fold (inverter_frame bs slots clock) (frames p) st) =
    Some (residue (p @ data), fold (inverter_frame bs slots clock) (frames (p @ data)) st)"
proof -
  note cut = scan_cut [OF assms(1,2), of data]
  have "length (residue p) + length data \<le> kRxBufLimit"
    using cut assms(3) by (simp add: kMaxRequest_def kMaxFrameLen_def kRxBufLimit_def kReadBuf_def)
  then show ?thesis
    using cut by (simp add: inverter_on_bytes_def process_buffer_eq Let_def kMaxRequest_def kMaxFrameLen_def kRxBufLimit_def)
qed

lemma events_cut:
  assumes "p @ received es = stream_of jfs" "stream_ok kMaxRequest jfs" "chunks_ok es"
  shows "inverter_events bs clock es
      (iv\<lparr>iv_rx_buf := residue p\<rparr>, fold (inverter_frame bs (iv_slots iv) clock) (frames p) st) =
    Some (iv\<lparr>iv_rx_buf := residue (stream_of jfs)\<rparr>,
      fold (inverter_frame bs (iv_slots iv) clock) (frames (stream_of jfs)) st)"
  using assms(1,3)
proof (induction es arbitrary: p)
  case (Cons e es)
  show ?case
  proof (cases e)
    case (SinkBytes d)
    then show ?thesis
      using Cons on_bytes_cut [of p d "received es" jfs bs "iv_slots iv" clock st] assms(2)
      by (simp add: inverter_event_def)
  qed (use Cons in \<open>simp_all add: inverter_event_def\<close>)
qed simp

section \<open>A sample line\<close>

text \<open>A port that delivers \<open>a\<close>, then an error; after the reopen timer it delivers \<open>b\<close>.\<close>

definition sample_line :: "bytes \<Rightarrow> bytes \<Rightarrow> UartHandler UartWorld" where
  "sample_line a b = (sample_port kReopenBackoffMs True)
     \<lparr>uw_kernel := (\<lambda>k. sample_kernel\<lparr>k_reads := (if k \<le> 1 then [Got a, ReadFailed] else [Got b, ReadAgain])\<rparr>)\<rparr>"

lemma sample_line_run:
  assumes "a \<noteq> []" "b \<noteq> []"
  shows "\<exists>w0 w'. uart_start id (sample_line a b) = Some w0 \<and>
    dispatcher_run uart_program [[Fd 5], [Fd 4], [Fd 5]] w0 = Some (False, w') \<and>
    uw_events w' = [SinkConnected, SinkBytes a, SinkDisconnected, SinkConnected, SinkBytes b]"
proof -
  have l: "lowest_free {0, 1, 2, 3, 4} = 5" by (simp add: lowest_free_def upt_rec)
  show ?thesis
    using assms
    by (simp add: uart_start_def sample_line_def sample_port_def uart_init_def timer_init_def dispatcher_init_def
        watch_def try_open_def serial_open_def l sample_kernel_def baud_to_speed_def tell_def uart_program_def
        handle_ready_def uart_exec_def on_readable_def on_reopen_tick_def close_fd_def unwatch_def
        arm_reopen_def kReopenBackoffMs_def timer_arm_eq timer_expire_def Let_def)
qed

section \<open>Properties\<close>

text \<open>C10: The whole way from the serial port to the answers: let the dispatcher run the transport of
  the inverter in any way, over any number of lost connections.  If the bytes that arrived are
  requests of at most 3584 bytes with noise between them, then however the reads have cut them, every
  request has been handed to \<open>respond\<close> once, in order, with the batteries and the clock at its own
  time; what was sent are its answers, in order (it gives none to an unknown address, to a battery without
  fresh data and settings and to an unknown command), and the receive buffer is empty again.
  Only if \<open>respond\<close> divides by zero for one of the requests the
  process has ended instead (\<open>None\<close>).\<close>

theorem requests_answered_on_the_line:
  assumes "iv = inverter_new device baud timer_fd batteries" "uw_t w = iv_transport iv"
    and "uart_fresh id w" "reads_ok (uw_kernel w)" "uart_start id w = Some w0"
    and "dispatcher_run uart_program batches w0 = Some (stopped, w')"
    and "received (uw_events w') = stream_of jfs" "stream_ok kMaxRequest jfs"
  shows "inverter_events bs clock (uw_events w') (iv, Some (0, [])) =
    Some (iv,
      if list_all (\<lambda>i. respond (bs i) (build_address_map batteries) (clock i) (snd (jfs ! i)) \<noteq> None) [0..<length jfs]
      then Some (length jfs, List.map_filter
        (\<lambda>i. the (respond (bs i) (build_address_map batteries) (clock i) (snd (jfs ! i)))) [0..<length jfs])
      else None)"
proof -
  have iv: "iv_slots iv = build_address_map batteries" "iv\<lparr>iv_rx_buf := []\<rparr> = iv"
    using assms(1) by (simp_all add: inverter_new_def)
  have "uw_events w = []" using assms(3) by (simp add: uart_fresh_def)
  then have "uart_alone (uw_open w) w0 \<and> chunked w0"
    using start_alone [OF assms(3,5)] start_chunked [OF _ assms(4,5)] by simp
  from chunked_uart.inv_run [OF this assms(6)] have "chunks_ok (uw_events w')" by (simp add: chunked_def)
  moreover have "list_all (\<lambda>(j, f). kSOI \<notin> set j) jfs"
    using assms(8) by (auto simp: stream_ok_def list_all_iff)
  then have "scan_frames (stream_of jfs) = (map snd jfs, [])"
    using scan_junk_and_frames [of jfs "[]"] by (simp add: stream_of_def list_all_iff)
  ultimately show ?thesis
    using events_cut [of "[]" "uw_events w'" jfs bs clock iv "Some (0, [])"] assms(7,8)
      frames_outcome [of bs "iv_slots iv" clock jfs] by (simp add: iv)
qed

lemma requests_answered_on_the_line_witness:
  "\<exists>w0 w' resp. uart_start id (sample_line (take 5 (build_pylontech sample_request)) (drop 5 (build_pylontech sample_request))) = Some w0 \<and>
     dispatcher_run uart_program [[Fd 5], [Fd 4], [Fd 5]] w0 = Some (False, w') \<and>
     (let iv = inverter_new ''/dev/ttyUSB0'' 9600 4 (sample_batteries 280000)
      in inverter_events (\<lambda>_. sample_batteries 280000) (\<lambda>_. 4000) (uw_events w') (iv, Some (0, [])) =
         Some (iv, Some (1, [resp])))"
proof -
  let ?b = "build_pylontech sample_request" and ?iv = "inverter_new ''/dev/ttyUSB0'' 9600 4 (sample_batteries 280000)"
  let ?w = "sample_line (take 5 ?b) (drop 5 ?b)" and ?jfs = "[([] :: bytes, sample_request)]"
  have len: "length ?b = 18" by (simp add: length_build_pylontech sample_request_def default_frame_def)
  obtain w0 w' where w: "uart_start id ?w = Some w0"
    "dispatcher_run uart_program [[Fd 5], [Fd 4], [Fd 5]] w0 = Some (False, w')"
    "uw_events w' = [SinkConnected, SinkBytes (take 5 ?b), SinkDisconnected, SinkConnected, SinkBytes (drop 5 ?b)]"
    using sample_line_run [of "take 5 ?b" "drop 5 ?b"] len by force
  have t: "uw_t ?w = iv_transport ?iv" by (simp add: sample_line_def sample_port_def inverter_new_def)
  have f: "uart_fresh id ?w"
    using sample_port_fresh [of kReopenBackoffMs True] by (simp add: uart_fresh_def sample_line_def)
  have r: "reads_ok (uw_kernel ?w)" by (auto simp: reads_ok_def sample_line_def kReadBuf_def len)
  have s: "received (uw_events w') = stream_of ?jfs" "stream_ok kMaxRequest ?jfs"
    by (simp_all add: w(3) stream_of_def stream_ok_def len kMaxRequest_def kRxBufLimit_def kReadBuf_def)
  obtain resp where a: "respond (sample_batteries 280000) sample_slots 4000 sample_request = Some (Some resp)"
    using sample_answer by blast
  from requests_answered_on_the_line [OF refl t f r w(1,2) s] w(1,2) a show ?thesis
    by (simp add: sample_map map_filter_simps Let_def)
qed

text \<open>The buffer is not emptied when the line comes back: after a connection that was lost in the middle of
  a request, the first whole request of the new one is thrown away with the old beginning, and the inverter
  gets no answer to it.\<close>

theorem request_after_reconnect_lost:
  assumes "build_pylontech g = p @ z" "p \<noteq> []" "z \<noteq> []"
    and "length p + length (build_pylontech f) \<le> kRxBufLimit"
  shows "inverter_events bs clock
      [SinkConnected, SinkBytes p, SinkDisconnected, SinkConnected, SinkBytes (build_pylontech f)]
      (iv\<lparr>iv_rx_buf := []\<rparr>, st) = Some (iv\<lparr>iv_rx_buf := []\<rparr>, st)"
proof -
  let ?h = "hex_text (frame_bytes f @ [hi8 (frame_chksum f), lo8 (frame_chksum f)])"
  let ?g = "hex_text (frame_bytes g @ [hi8 (frame_chksum g), lo8 (frame_chksum g)])"
  obtain t y where t: "p = kSOI # t" and y: "z = y @ [kEOI]" "t @ y = ?g"
    using assms(1-3) by (cases p; cases z rule: rev_cases) (auto simp: build_pylontech_eq)
  have "kEOI \<notin> set (t @ y)" unfolding y(2) by (rule hex_text_no_delim)
  then have eoi: "kEOI \<notin> set t" by simp
  have len: "length p \<le> kRxBufLimit" "length p < kMaxFrameLen"
    using assms(4) by (simp_all add: length_build_pylontech kMaxFrameLen_def kRxBufLimit_def)
  have "pending_ok p" using t eoi len(2) by (auto simp: pending_ok_def kSOI_def kEOI_def)
  then have first: "scan_frames p = ([], p)" by (rule pending_scan)
  have b: "p @ build_pylontech f = kSOI # (t @ kSOI # ?h) @ kEOI # []"
    by (simp add: t build_pylontech_eq)
  have "kEOI \<notin> set (t @ kSOI # ?h)" using eoi hex_text_no_delim(1) by (auto simp: kSOI_def kEOI_def)
  then have "scan_frames (p @ build_pylontech f) = ([], [])"
    unfolding b by (subst scan_soi_inside) simp_all
  then show ?thesis
    using first len(1) assms(4) by (simp add: inverter_event_def inverter_on_bytes_def process_buffer_eq Let_def)
qed

lemma request_after_reconnect_lost_witness:
  "inverter_events (\<lambda>_. sample_batteries 280000) (\<lambda>_. 4000)
      [SinkConnected, SinkBytes [kSOI], SinkDisconnected, SinkConnected, SinkBytes (build_pylontech sample_request)]
      (inverter_new ''/dev/ttyUSB0'' 9600 4 (sample_batteries 280000), Some (0, [])) =
    Some (inverter_new ''/dev/ttyUSB0'' 9600 4 (sample_batteries 280000), Some (0, []))"
proof -
  let ?iv = "inverter_new ''/dev/ttyUSB0'' 9600 4 (sample_batteries 280000)"
  obtain z where z: "build_pylontech default_frame = [kSOI] @ z" "z \<noteq> []" by (simp add: build_pylontech_eq)
  have "length [kSOI] + length (build_pylontech sample_request) \<le> kRxBufLimit"
    by (simp add: length_build_pylontech sample_request_def default_frame_def kRxBufLimit_def)
  from request_after_reconnect_lost [OF z(1) _ z(2) this, of "\<lambda>_. sample_batteries 280000" "\<lambda>_. 4000" ?iv "Some (0, [])"]
  show ?thesis by (simp add: inverter_new_def)
qed

end
