(* ===== verification/Main_Program.thy ===== *)
theory Main_Program
  imports Http Ble_Client Inverter_Link
begin

text \<open>
  src/main.cpp and src/logger.cpp: the command line, the configuration with its overrides, and
  how the parts are put together at the start.  \<open>getopt\<close> is the C library: its results, an option
  and its argument, are the input.  The environment variable and the answers of SQLite are
  parameters.
\<close>

section \<open>Logging\<close>

datatype log_level = LogErr | LogWarn | LogInfo | LogDebug | LogTrace

datatype log_sink = StdoutSink | FileSink string

definition level_of :: "int \<Rightarrow> log_level" where
  "level_of verbosity =
    (let verbosity = (if verbosity < 1 then 1 else verbosity);
         verbosity = (if verbosity > 5 then 5 else verbosity)
     in if verbosity = 1 then LogErr
        else if verbosity = 2 then LogWarn
        else if verbosity = 3 then LogInfo
        else if verbosity = 4 then LogDebug
        else if verbosity = 5 then LogTrace
        else LogInfo)"

definition init_logger :: "int \<Rightarrow> string \<Rightarrow> log_level \<times> log_sink list" where
  "init_logger verbosity log_file =
     (level_of verbosity, StdoutSink # (if log_file \<noteq> [] then [FileSink log_file] else []))"

section \<open>The command line\<close>

text \<open>The exit status, or the level and the path given.\<close>

datatype args_result = ExitWith bool | Args int string

fun parse_args :: "(char \<times> string) list \<Rightarrow> int \<Rightarrow> string \<Rightarrow> args_result" where
  "parse_args [] level db = Args level db"
| "parse_args ((opt, optarg) # rest) level db =
     (if opt = CHR ''D'' then
        let level = atoi optarg
        in if level < 1 \<or> level > 5 then ExitWith False else parse_args rest level db
      else if opt = CHR ''d'' then parse_args rest level optarg
      else ExitWith (opt = CHR ''h''))"

definition config_path :: "string option \<Rightarrow> string" where
  "config_path env = (case env of Some p \<Rightarrow> p | None \<Rightarrow> ''bms_bridge.conf'')"

text \<open>The configuration the program runs with; \<open>Inl\<close> is its exit status.\<close>

definition main_config ::
    "BatteryLink \<Rightarrow> (char \<times> string) list \<Rightarrow> cfg_rc \<Rightarrow> cfg_file \<Rightarrow> bool + AppConfig" where
  "main_config garbage args rc file =
    (case parse_args args (-1) [] of
       ExitWith ok \<Rightarrow> Inl ok
     | Args cli_log_level cli_db_path \<Rightarrow>
         case load_config garbage rc file AppConfig_default of
           Inl e \<Rightarrow> Inl False
         | Inr cfg \<Rightarrow>
             let cfg = (if cli_log_level > 0 then cfg\<lparr>ac_log_level := word_of_int cli_log_level\<rparr> else cfg);
                 cfg = (if cli_db_path \<noteq> [] then cfg\<lparr>ac_history := (ac_history cfg)\<lparr>db_path := cli_db_path\<rparr>\<rparr>
                        else cfg)
             in Inr cfg)"

section \<open>Putting the parts together\<close>

text \<open>The loop of \<open>ensure_battery_id\<close>; \<open>new_id k\<close> is what SQLite answers to the statements for the
  k-th battery.\<close>

fun ensure_all :: "(nat \<Rightarrow> RowIdEnv) \<Rightarrow> nat \<Rightarrow> string list \<Rightarrow> HistoryState \<Rightarrow> HistoryState" where
  "ensure_all new_id k [] h = h"
| "ensure_all new_id k (name # names) h =
     ensure_all new_id (Suc k) names (snd (ensure_battery_id (new_id k) name h))"

definition open_history :: "nat option \<Rightarrow> HistoryConfig \<Rightarrow> Database \<Rightarrow> HistoryState" where
  "open_history loaded c db =
     load_battery_cache loaded \<lparr>hs_ram_window = sint (ram_window_s c) * 1000, hs_ram = [], hs_cache = [], hs_db = db\<rparr>"

text \<open>How SQLite answers during the start, the wall clock, and the descriptor of the inverter's reopen timer.\<close>

record StartEnv =
  se_load_rows :: "nat option"
  se_new_id :: "nat \<Rightarrow> RowIdEnv"
  se_aggregate :: AggregateEnv
  se_now :: int
  se_timer_fd :: int

definition start_history :: "StartEnv \<Rightarrow> AppConfig \<Rightarrow> Database \<Rightarrow> HistoryState" where
  "start_history env cfg db =
    (let h = open_history (se_load_rows env) (ac_history cfg) db;
         h = ensure_all (se_new_id env) 0 (map bc_name (ac_batteries cfg)) h
     in h\<lparr>hs_db := aggregate_pending (se_aggregate env) (se_now env) (hs_db h)\<rparr>)"

record Bridge =
  br_log :: "log_level \<times> log_sink list"
  br_history :: HistoryState
  br_batteries :: "BatteryObj list"
  br_setups :: "BatterySetup option list"
  br_inverter :: InverterObj
  br_http :: HttpServer
  br_aggregate_period_ms :: int

definition start_bridge :: "StartEnv \<Rightarrow> AppConfig \<Rightarrow> Database \<Rightarrow> Bridge" where
  "start_bridge env cfg db =
    (let batteries = map (\<lambda>bc. \<lparr>b_cfg = bc, b_state = shared_init\<rparr>) (ac_batteries cfg)
     in \<lparr>br_log = init_logger (sint (ac_log_level cfg)) (ac_log_file cfg),
         br_history = start_history env cfg db,
         br_batteries = batteries,
         br_setups = map (\<lambda>b. battery_start (b_cfg b)) batteries,
         br_inverter = inverter_new (inv_uart_device (ac_inverter cfg)) (sint (inv_uart_baud (ac_inverter cfg)))
           (se_timer_fd env) batteries,
         br_http = \<lparr>sv_www_root = www_root (ac_http cfg), sv_ctxs = Map.empty\<rparr>,
         br_aggregate_period_ms = 3600000\<rparr>)"

abbreviation br_slots :: "Bridge \<Rightarrow> Slot list" where
  "br_slots b \<equiv> iv_slots (br_inverter b)"

lemma start_bridge_parts:
  "br_batteries (start_bridge env cfg db) = map (\<lambda>bc. \<lparr>b_cfg = bc, b_state = shared_init\<rparr>) (ac_batteries cfg)"
  "map b_cfg (br_batteries (start_bridge env cfg db)) = ac_batteries cfg"
  "br_setups (start_bridge env cfg db) = map battery_start (ac_batteries cfg)"
  "br_slots (start_bridge env cfg db) = build_address_map (br_batteries (start_bridge env cfg db))"
  "br_history (start_bridge env cfg db) = start_history env cfg db"
  by (simp_all add: start_bridge_def inverter_new_def Let_def comp_def)

section \<open>Batteries get their row\<close>

text \<open>Every row has an id that is not negative, as the ids of SQLite are.\<close>

definition ids_ok :: "HistoryState \<Rightarrow> bool" where
  "ids_ok h \<longleftrightarrow> list_all (\<lambda>b. 0 \<le> fst b) (db_batteries (hs_db h))"

lemma found_row:
  "find (\<lambda>b. snd b = name) rows = Some (i, n) \<Longrightarrow> \<forall>b \<in> set rows. 0 \<le> fst b \<Longrightarrow> 0 \<le> i"
  by (auto simp: find_Some_iff) (metis fst_conv nth_mem)

lemma ensure_one:
  assumes "ids_ok h" "re_select new_id" "re_insert new_id = Some i" "0 \<le> i"
  shows "\<exists>k. map_of (hs_cache (snd (ensure_battery_id new_id name h))) name = Some k"
    "ids_ok (snd (ensure_battery_id new_id name h))"
    "map_of (hs_cache h) n = Some k \<Longrightarrow> map_of (hs_cache (snd (ensure_battery_id new_id name h))) n = Some k"
  using assms
  by (auto simp: ensure_battery_id_def battery_row_id_def ids_ok_def Let_def list_all_iff
      split: option.splits dest: found_row)

lemma ensure_all_cached:
  assumes "ids_ok h" "\<And>j. re_select (new_id j) \<and> (\<exists>i. re_insert (new_id j) = Some i \<and> 0 \<le> i)"
  shows "n \<in> set names \<or> map_of (hs_cache h) n \<noteq> None \<Longrightarrow>
    \<exists>i. map_of (hs_cache (ensure_all new_id k names h)) n = Some i"
  using assms(1)
proof (induction names arbitrary: h k)
  case (Cons name names)
  obtain i where i: "re_select (new_id k)" "re_insert (new_id k) = Some i" "0 \<le> i" using assms(2) by blast
  let ?h = "snd (ensure_battery_id (new_id k) name h)"
  have "n \<in> set names \<or> map_of (hs_cache ?h) n \<noteq> None"
    using Cons.prems(1) ensure_one(1,3) [OF Cons.prems(2) i] by force
  then show ?case using Cons.IH [OF _ ensure_one(2) [OF Cons.prems(2) i]] by simp
qed simp

lemma battery_list_cached: "map_of (hs_cache h) n = Some i \<Longrightarrow> (i, n) \<in> set (battery_list h)"
  by (force simp: battery_list_def dest: map_of_SomeD)

section \<open>Sample sections\<close>

definition sample_ttl :: "int \<Rightarrow> cfg_sec" where
  "sample_ttl reconnect = sample_sec ''t''
     [(''type'', ''ttl''), (''address'', ''/dev/ttyUSB0''), (''protocol'', ''pylontech'')]
     [(''capacity'', 100), (''pylontech_address'', 1), (''uart_baud'', 9600), (''reconnect_ms'', reconnect)]"

definition sample_mismatch :: cfg_sec where
  "sample_mismatch = sample_sec ''m''
     [(''type'', ''bluetooth''), (''address'', ''C8:47''), (''protocol'', ''pylontech'')]
     [(''capacity'', 100), (''pylontech_address'', 1)]"

definition sample_start :: StartEnv where
  "sample_start = \<lparr>se_load_rows = None, se_new_id = (\<lambda>k. \<lparr>re_select = True, re_insert = Some (int k + 7)\<rparr>),
     se_aggregate = aggregates True, se_now = 0, se_timer_fd = 4\<rparr>"

lemmas load_defs = load_config_def sample_file_def sample_sec_def AppConfig_default_def sstr_def sint_of_def
  read_battery_def link_from_str_def bc_monitored_def

section \<open>Properties\<close>

text \<open>After the start every configured battery, reserves included, has a row and is listed with
  its id, before any sample of it was stored, provided SQLite executes the lookups and the inserts.\<close>

theorem startup_lists_batteries:
  assumes "list_all (\<lambda>b. 0 \<le> fst b) (db_batteries db)" "\<And>j. re_select (se_new_id env j) \<and> (\<exists>i. re_insert (se_new_id env j) = Some i \<and> 0 \<le> i)"
    and "b \<in> set (br_batteries (start_bridge env cfg db))"
  shows "\<exists>i. (i, bc_name (b_cfg b)) \<in> set (battery_list (br_history (start_bridge env cfg db)))"
proof -
  let ?h = "open_history (se_load_rows env) (ac_history cfg) db" and ?names = "map bc_name (ac_batteries cfg)"
  have "ids_ok ?h" using assms(1) by (simp add: ids_ok_def open_history_def load_battery_cache_def)
  moreover have "bc_name (b_cfg b) \<in> set ?names" using assms(3) by (auto simp: start_bridge_def Let_def)
  ultimately obtain i where "map_of (hs_cache (ensure_all (se_new_id env) 0 ?names ?h)) (bc_name (b_cfg b)) = Some i"
    using ensure_all_cached [where new_id = "se_new_id env" and h = ?h and names = ?names and k = 0, OF _ assms(2)]
    by blast
  then have "map_of (hs_cache (start_history env cfg db)) (bc_name (b_cfg b)) = Some i"
    by (simp add: start_history_def Let_def)
  then show ?thesis using battery_list_cached by (force simp: start_bridge_def Let_def)
qed

lemma startup_lists_batteries_witness:
  "let cfg = AppConfig_default\<lparr>ac_batteries := [sample_config ''r'' Reserve 100 ''a'']\<rparr>;
       db = \<lparr>db_batteries = [(1, ''a'')], db_samples = [], db_cells = [], db_daily = []\<rparr>
   in \<exists>i. (i, ''r'') \<in> set (battery_list (br_history (start_bridge sample_start cfg db)))"
proof -
  let ?cfg = "AppConfig_default\<lparr>ac_batteries := [sample_config ''r'' Reserve 100 ''a'']\<rparr>"
  let ?db = "\<lparr>db_batteries = [(1, ''a'')], db_samples = [], db_cells = [], db_daily = []\<rparr>"
  let ?b = "\<lparr>b_cfg = sample_config ''r'' Reserve 100 ''a'', b_state = shared_init\<rparr>"
  have m: "?b \<in> set (br_batteries (start_bridge sample_start ?cfg ?db))" by (simp add: start_bridge_def Let_def)
  have "re_select (se_new_id sample_start j) \<and> (\<exists>i. re_insert (se_new_id sample_start j) = Some i \<and> 0 \<le> i)" for j
    by (simp add: sample_start_def)
  from startup_lists_batteries [OF _ this m] show ?thesis by (simp add: sample_config_def Let_def)
qed

text \<open>A Bluetooth battery with the Pylontech protocol passes every check of the configuration and
  counts as monitored, but it gets no transport, and the inverter side never answers a
  request in its name.\<close>

theorem unsupported_pair_accepted:
  "\<exists>cfg bs. load_config garbage CFG_SUCCESS (sample_file [sample_mismatch]) AppConfig_default = Inr cfg \<and>
     bs = br_batteries (start_bridge env cfg db) \<and> map bc_monitored (map b_cfg bs) = [True] \<and>
     br_setups (start_bridge env cfg db) = [None] \<and>
     (\<forall>now f. respond bs (br_slots (start_bridge env cfg db)) now f = Some None)"
proof -
  obtain cfg where cfg: "load_config garbage CFG_SUCCESS (sample_file [sample_mismatch]) AppConfig_default = Inr cfg"
    "map bc_monitored (ac_batteries cfg) = [True]" "map battery_start (ac_batteries cfg) = [None]"
    by (simp add: load_defs sample_mismatch_def battery_start_def Let_def)
  let ?bs = "br_batteries (start_bridge env cfg db)" and ?slots = "br_slots (start_bridge env cfg db)"
  have b: "?bs = map (\<lambda>bc. \<lparr>b_cfg = bc, b_state = shared_init\<rparr>) (ac_batteries cfg)"
    by (rule start_bridge_parts)
  have st: "b_state (?bs ! j) = shared_init" if "j < length ?bs" for j using that by (simp add: b)
  have silent: "respond ?bs ?slots now f = Some None" for now f
  proof (cases "addressed ?slots f")
    case True
    have slots: "?slots = build_address_map ?bs" by (rule start_bridge_parts)
    then have s: "slot_at ?slots f \<in> set (build_address_map ?bs)" using True slot_at_map by simp
    have "(case sl_mirror (slot_at ?slots f) of Some k \<Rightarrow> k | None \<Rightarrow> sl_battery (slot_at ?slots f)) < length ?bs"
    proof (cases "sl_mirror (slot_at ?slots f)")
      case None
      then show ?thesis using slot_in_block(1) [OF s] by simp
    next
      case (Some k)
      then have "mirror_of ?bs (?bs ! sl_battery (slot_at ?slots f)) = Some k"
        using slot_in_block(3) [OF s] by simp
      then show ?thesis using mirror_of_Some(1) Some by simp
    qed
    from st [OF this] have "\<not> ready ?bs (slot_at ?slots f) now"
      by (simp add: ready_def is_fresh_def shared_init_def)
    then show ?thesis by (simp add: respond_silent)
  qed (simp add: respond_silent)
  have "map bc_monitored (map b_cfg ?bs) = [True]" by (simp only: start_bridge_parts(2) cfg(2))
  moreover have "br_setups (start_bridge env cfg db) = [None]" by (simp only: start_bridge_parts(3) cfg(3))
  ultimately have "map bc_monitored (map b_cfg ?bs) = [True] \<and> br_setups (start_bridge env cfg db) = [None] \<and>
      (\<forall>now f. respond ?bs ?slots now f = Some None)"
    using silent by simp
  then show ?thesis using cfg(1) by (intro exI [of _ cfg] exI [of _ ?bs]) simp
qed

text \<open>A negative \<open>reconnect_ms\<close> passes every check of the configuration; the transport of such a battery arms its
  reopen timer with it, which the kernel rejects, so a port that is missing at the start
  leaves the battery with no open port and no timer: it is never tried again.\<close>

theorem negative_backoff_never_reopens:
  "\<exists>cfg plan. load_config garbage CFG_SUCCESS (sample_file [sample_ttl (-1)]) AppConfig_default = Inr cfg \<and>
     map battery_start (ac_batteries cfg) = [Some plan] \<and>
     bs_transport plan = Uart ''/dev/ttyUSB0'' 9600 (-1) \<and>
     (\<exists>w. uart_start id (sample_port (sint (uart_reopen (bs_transport plan))) False) = Some w \<and>
        ut_fd (uw_t w) = -1 \<and> tm_left (ut_reopen_timer (uw_t w)) = None \<and> uw_events w = [])"
proof -
  obtain cfg plan where cfg: "load_config garbage CFG_SUCCESS (sample_file [sample_ttl (-1)]) AppConfig_default = Inr cfg"
    "map battery_start (ac_batteries cfg) = [Some plan]" "bs_transport plan = Uart ''/dev/ttyUSB0'' 9600 (-1)"
    by (simp add: load_defs sample_ttl_def battery_start_def Let_def)
  have "timer_arm (-1) (timer_init 4) = timer_init 4" by (simp add: timer_arm_eq timer_init_def)
  then have "\<exists>w. uart_start id (sample_port (-1) False) = Some w \<and>
      ut_fd (uw_t w) = -1 \<and> tm_left (ut_reopen_timer (uw_t w)) = None \<and> uw_events w = []"
    by (simp add: uart_start_def sample_port_def uart_init_def dispatcher_init_def watch_def
        try_open_def serial_open_def arm_reopen_def sample_kernel_def timer_init_def Let_def)
  then show ?thesis using cfg by auto
qed

end
