(* ===== verification/Main_Loop.thy ===== *)
theory Main_Loop
  imports Main_Program
begin

text \<open>
  src/main.cpp from the construction of the dispatcher on, with src/battery.cpp: all transports,
  queues and timers of the program on the one dispatcher of the main thread, which holds one table
  of descriptors.  Port \<open>b\<close> is the serial transport of battery \<open>b\<close>, and the port whose number is the number of
  batteries is the one of the inverter.  What a transport tells its sink during a call is handed
  to the sink after the call; the sinks only write to the port, so this is the same.  The
  environment gives the clock readings, the events that are in the queue of a Bluetooth battery when it is
  emptied, and the answers of the kernel and of SQLite.
\<close>

section \<open>The main thread\<close>

datatype MainHandler =
    PortHandler nat UartHandler | PumpHandler nat | PollHandler nat | SettingsHandler nat | AggregateHandler

text \<open>A battery that was not started has no handler; else the handler with the protocol of the battery.\<close>

datatype Driver = NoDriver | JkDriver "JkFrameAssembler BmsHandler" | PylontechDriver "PylontechMaster BmsHandler"

record Port =
  po_t :: UartTransport
  po_events :: "UartEvent list"
  po_kernel :: "nat \<Rightarrow> Kernel"
  po_calls :: nat

record MainThread =
  mt_disp :: "MainHandler Dispatcher"
  mt_open :: "int set"
  mt_ports :: "nat \<rightharpoonup> Port"
  mt_queues :: "nat \<rightharpoonup> int"
  mt_cfgs :: "BatteryConfig list"
  mt_drivers :: "Driver list"
  mt_inverter :: "InverterObj \<times> inv_run"
  mt_history :: HistoryState
  mt_calls :: nat

record MainEnv =
  me_foreign :: "nat \<Rightarrow> int list"
  me_epoll_add :: "nat \<Rightarrow> bool"
  me_kernel :: "nat \<Rightarrow> nat \<Rightarrow> Kernel"
  me_clocks :: "nat \<Rightarrow> bytes \<Rightarrow> clocks"
  me_inverter_clock :: "nat \<Rightarrow> int"
  me_wall :: "nat \<Rightarrow> int"
  me_queue :: "nat \<Rightarrow> nat \<Rightarrow> BmsEvent list"
  me_append :: "nat \<Rightarrow> nat \<Rightarrow> AppendEnv"
  me_aggregate :: "nat \<Rightarrow> AggregateEnv"

section \<open>Sinks\<close>

fun driver_state :: "Driver \<Rightarrow> SharedState" where
  "driver_state NoDriver = shared_init"
| "driver_state (JkDriver h) = h_state h"
| "driver_state (PylontechDriver h) = h_state h"

fun driver_history :: "Driver \<Rightarrow> history_entry list" where
  "driver_history NoDriver = []"
| "driver_history (JkDriver h) = h_history h"
| "driver_history (PylontechDriver h) = h_history h"

fun driver_run :: "intervals \<Rightarrow> handler_event list \<Rightarrow> Driver \<Rightarrow> Driver" where
  "driver_run iv evs NoDriver = NoDriver"
| "driver_run iv evs (JkDriver h) = JkDriver (handler_run jk_ops iv evs h)"
| "driver_run iv evs (PylontechDriver h) = PylontechDriver (handler_run master_ops iv evs h)"

definition intervals_of :: "BatteryConfig \<Rightarrow> intervals" where
  "intervals_of c = \<lparr>history_interval = sint (bc_bms_poll_period_ms c),
     state_update_interval = sint (bc_bms_state_update_interval_ms c)\<rparr>"

text \<open>The samples a handler gave to the history; the k-th has the answers \<open>envs k\<close>.\<close>

fun append_entries ::
    "(nat \<Rightarrow> AppendEnv) \<Rightarrow> int \<Rightarrow> string \<Rightarrow> nat \<Rightarrow> history_entry list \<Rightarrow> HistoryState \<Rightarrow> HistoryState" where
  "append_entries envs now name k [] h = h"
| "append_entries envs now name k ((_, ts, cells, pack) # es) h =
     append_entries envs now name (Suc k) es (append_sample (envs k) now name ts cells pack h)"

definition battery_events :: "MainEnv \<Rightarrow> nat \<Rightarrow> handler_event list \<Rightarrow> MainThread \<Rightarrow> MainThread" where
  "battery_events env b evs s =
    (let c = mt_cfgs s ! b; d = mt_drivers s ! b;
         d' = driver_run (intervals_of c) evs d;
         new = drop (length (driver_history d)) (driver_history d')
     in s\<lparr>mt_drivers := (mt_drivers s)[b := d'],
          mt_history := append_entries (me_append env (mt_calls s)) (me_wall env (mt_calls s)) (bc_name c) 0 new
            (mt_history s)\<rparr>)"

text \<open>The batteries as the inverter sees them.\<close>

definition batteries :: "MainThread \<Rightarrow> BatteryObj list" where
  "batteries s = map2 (\<lambda>c d. \<lparr>b_cfg = c, b_state = driver_state d\<rparr>) (mt_cfgs s) (mt_drivers s)"

text \<open>\<open>None\<close> ends the process.\<close>

definition port_sink :: "MainEnv \<Rightarrow> nat \<Rightarrow> UartEvent list \<Rightarrow> MainThread \<Rightarrow> MainThread option" where
  "port_sink env i es s =
    (if i < length (mt_cfgs s)
     then Some (battery_events env i (map (handler_event_of (me_clocks env (mt_calls s))) es) s)
     else case inverter_events (\<lambda>_. batteries s) (me_inverter_clock env) es (mt_inverter s) of
         None \<Rightarrow> None
       | Some (iv, st) \<Rightarrow> if st = None then None else Some (s\<lparr>mt_inverter := (iv, st)\<rparr>))"

section \<open>Handlers\<close>

definition port_view :: "MainThread \<Rightarrow> Port \<Rightarrow> MainHandler UartWorld" where
  "port_view s p = \<lparr>uw_t = po_t p, uw_disp = mt_disp s, uw_open = mt_open s, uw_events = po_events p,
     uw_kernel = po_kernel p, uw_calls = po_calls p\<rparr>"

definition port_put :: "nat \<Rightarrow> MainHandler UartWorld \<Rightarrow> MainThread \<Rightarrow> MainThread" where
  "port_put i w s = s\<lparr>mt_disp := uw_disp w, mt_open := uw_open w,
     mt_ports := (mt_ports s)(i \<mapsto> \<lparr>po_t = uw_t w, po_events = uw_events w, po_kernel = uw_kernel w, po_calls = uw_calls w\<rparr>)\<rparr>"

text \<open>A call of a transport, and then of its sink.\<close>

definition port_call ::
    "MainEnv \<Rightarrow> nat \<Rightarrow> (MainHandler UartWorld \<Rightarrow> MainHandler UartWorld option) \<Rightarrow> MainThread \<Rightarrow> MainThread option" where
  "port_call env i f s =
    (case mt_ports s i of
       None \<Rightarrow> Some s
     | Some p \<Rightarrow>
         case f (port_view s p) of
           None \<Rightarrow> None
         | Some w \<Rightarrow> port_sink env i (drop (length (po_events p)) (uw_events w)) (port_put i w s))"

fun main_exec :: "MainEnv \<Rightarrow> MainHandler \<Rightarrow> MainThread \<Rightarrow> MainThread option" where
  "main_exec env h s =
    (let s = s\<lparr>mt_calls := Suc (mt_calls s)\<rparr>; n = mt_calls s
     in case h of
          PortHandler i uh \<Rightarrow> port_call env i (uart_exec (PortHandler i) uh) s
        | PumpHandler b \<Rightarrow> Some (battery_events env b (map (event_of (me_clocks env n)) (me_queue env n b)) s)
        | PollHandler b \<Rightarrow> Some (battery_events env b [PollTick] s)
        | SettingsHandler b \<Rightarrow> Some (battery_events env b [SettingsTick] s)
        | AggregateHandler \<Rightarrow> Some (s\<lparr>mt_history := (mt_history s)
            \<lparr>hs_db := aggregate_pending (me_aggregate env n) (me_wall env n) (hs_db (mt_history s))\<rparr>\<rparr>))"

declare main_exec.simps [simp del]

definition main_program :: "MainEnv \<Rightarrow> (MainThread, MainHandler) program" where
  "main_program env = \<lparr>pr_get = mt_disp, pr_put = (\<lambda>d s. s\<lparr>mt_disp := d\<rparr>), pr_exec = main_exec env\<rparr>"

section \<open>Starting\<close>

text \<open>A new descriptor is the lowest free one.\<close>

definition new_fd :: "MainEnv \<Rightarrow> MainThread \<Rightarrow> int \<times> MainThread" where
  "new_fd env s =
    (let fd = lowest_free (mt_open s \<union> set (me_foreign env (mt_calls s)))
     in (fd, s\<lparr>mt_open := insert fd (mt_open s), mt_calls := Suc (mt_calls s)\<rparr>))"

definition main_add_timer :: "MainEnv \<Rightarrow> int \<Rightarrow> MainHandler \<Rightarrow> MainThread \<Rightarrow> MainThread option" where
  "main_add_timer env period_ms h s =
    (let (fd, s) = new_fd env s
     in map_option (\<lambda>d. s\<lparr>mt_disp := d\<rparr>) (add_timer (me_epoll_add env (mt_calls s)) fd period_ms h (mt_disp s)))"

text \<open>The construction of a serial transport, whose reopen timer takes a descriptor, and its \<open>start\<close>.\<close>

definition start_port :: "MainEnv \<Rightarrow> nat \<Rightarrow> UartTransport \<Rightarrow> MainThread \<Rightarrow> MainThread option" where
  "start_port env i t s =
     port_call env i (uart_start (PortHandler i))
       (s\<lparr>mt_ports := (mt_ports s)(i \<mapsto> \<lparr>po_t = t, po_events = [], po_kernel = me_kernel env i, po_calls = 0\<rparr>)\<rparr>)"

definition set_driver :: "nat \<Rightarrow> Driver \<Rightarrow> MainThread \<Rightarrow> MainThread" where
  "set_driver b d s = s\<lparr>mt_drivers := (mt_drivers s)[b := d]\<rparr>"

definition start_battery :: "MainEnv \<Rightarrow> nat \<Rightarrow> MainThread \<Rightarrow> MainThread option" where
  "start_battery env b s =
    (case battery_start (mt_cfgs s ! b) of
       None \<Rightarrow> Some s
     | Some plan \<Rightarrow> do {
         s \<leftarrow> (case bs_transport plan of
             Uart device baud reconnect_ms \<Rightarrow>
               let (fd, s) = new_fd env s;
                   adr = (case bs_protocol plan of PylontechMasterProtocol a \<Rightarrow> a | JkProtocol \<Rightarrow> 0);
                   s = set_driver b (PylontechDriver (handler_init (master_init adr))) s
               in start_port env b (uart_init device (sint baud) (sint reconnect_ms) fd) s
           | Ble _ \<Rightarrow>
               let (fd, s) = new_fd env s;
                   s = set_driver b (JkDriver (handler_init assembler_init)) s
               in map_option (\<lambda>d. s\<lparr>mt_disp := d, mt_queues := (mt_queues s)(b \<mapsto> fd)\<rparr>)
                    (watch (me_epoll_add env (mt_calls s)) fd (PumpHandler b) (mt_disp s)));
         s \<leftarrow> main_add_timer env (bs_poll_timer plan) (PollHandler b) s;
         main_add_timer env (bs_settings_timer plan) (SettingsHandler b) s
       })"

fun start_batteries :: "MainEnv \<Rightarrow> nat list \<Rightarrow> MainThread \<Rightarrow> MainThread option" where
  "start_batteries env [] s = Some s"
| "start_batteries env (b # bs) s = (case start_battery env b s of None \<Rightarrow> None | Some s \<Rightarrow> start_batteries env bs s)"

text \<open>The thread before the first timer: the dispatcher was made, and nothing was started.\<close>

definition main_init :: "int \<Rightarrow> int set \<Rightarrow> AppConfig \<Rightarrow> HistoryState \<Rightarrow> MainThread" where
  "main_init wake_fd fds cfg h =
     \<lparr>mt_disp = dispatcher_init wake_fd, mt_open = fds, mt_ports = Map.empty, mt_queues = Map.empty, mt_cfgs = ac_batteries cfg,
      mt_drivers = replicate (length (ac_batteries cfg)) NoDriver,
      mt_inverter = (inverter_new [] 0 (-1) [], None), mt_history = h, mt_calls = 0\<rparr>"

definition start_inverter :: "MainEnv \<Rightarrow> InverterConfig \<Rightarrow> MainThread \<Rightarrow> MainThread option" where
  "start_inverter env c s =
    (let (fd, s) = new_fd env s;
         iv = inverter_new (inv_uart_device c) (sint (inv_uart_baud c)) fd (batteries s)
     in start_port env (length (mt_cfgs s)) (iv_transport iv) (s\<lparr>mt_inverter := (iv, Some (0, []))\<rparr>))"

definition main_start :: "MainEnv \<Rightarrow> int \<Rightarrow> int set \<Rightarrow> AppConfig \<Rightarrow> HistoryState \<Rightarrow> MainThread option" where
  "main_start env wake_fd fds cfg h = do {
     s \<leftarrow> main_add_timer env 3600000 AggregateHandler (main_init wake_fd fds cfg h);
     s \<leftarrow> start_batteries env [0..<length (ac_batteries cfg)] s;
     start_inverter env (ac_inverter cfg) s
   }"

section \<open>Stopping\<close>

text \<open>\<open>Battery::stop\<close>, and the destructor of the inverter.\<close>

definition stop_port :: "nat \<Rightarrow> MainThread \<Rightarrow> MainThread" where
  "stop_port i s = (case mt_ports s i of None \<Rightarrow> s | Some p \<Rightarrow> port_put i (uart_stop (port_view s p)) s)"

definition stop_battery :: "nat \<Rightarrow> MainThread \<Rightarrow> MainThread" where
  "stop_battery b s =
    (case mt_queues s b of
       Some fd \<Rightarrow> s\<lparr>mt_disp := unwatch fd (mt_disp s), mt_queues := (mt_queues s)(b := None)\<rparr>
     | None \<Rightarrow> stop_port b s)"

definition main_stop :: "MainThread \<Rightarrow> MainThread" where
  "main_stop s = stop_port (length (mt_cfgs s)) (fold stop_battery [0..<length (mt_cfgs s)] s)"

section \<open>The invariant of the main thread\<close>

text \<open>The ports outside \<open>I\<close> are as \<open>uart_inv\<close> says, each seen with the shared dispatcher and the shared table.\<close>

definition main_core :: "nat set \<Rightarrow> MainThread \<Rightarrow> bool" where
  "main_core I s \<longleftrightarrow> dispatcher_ok (mt_disp s) \<and> finite (mt_open s) \<and>
     dp_epoll (mt_disp s) \<subseteq> mt_open s \<and> -1 \<notin> mt_open s \<and> length (mt_drivers s) = length (mt_cfgs s) \<and>
     (\<forall>j p. j \<notin> I \<longrightarrow> mt_ports s j = Some p \<longrightarrow> uart_inv (PortHandler j) (port_view s p)) \<and>
     (\<forall>x j h. dp_handlers (mt_disp s) x = Some (PortHandler j h) \<longrightarrow> j \<in> I \<or> mt_ports s j \<noteq> None) \<and>
     (\<forall>x b. dp_handlers (mt_disp s) x = Some (PumpHandler b) \<longleftrightarrow> mt_queues s b = Some x) \<and>
     dom (mt_queues s) \<inter> dom (mt_ports s) = {}"

definition port_fds :: "MainThread \<Rightarrow> int set" where
  "port_fds s = {ut_fd (po_t p) |i p. mt_ports s i = Some p}"

lemma port_fds_ran: "port_fds s = (\<lambda>p. ut_fd (po_t p)) ` ran (mt_ports s)"
  by (auto simp: port_fds_def ran_def)

definition main_base :: "MainThread \<Rightarrow> int set" where
  "main_base s = mt_open s - port_fds s"

definition linked :: "nat set \<Rightarrow> MainThread \<Rightarrow> bool" where
  "linked I s \<longleftrightarrow> (\<forall>b p. b \<notin> I \<longrightarrow> b < length (mt_cfgs s) \<longrightarrow> mt_ports s b = Some p \<longrightarrow>
     (\<exists>h. mt_drivers s ! b = PylontechDriver h) \<and>
     (ss_connected (driver_state (mt_drivers s ! b)) \<longleftrightarrow> 0 \<le> ut_fd (po_t p)))"

definition main_inv :: "MainThread \<Rightarrow> bool" where
  "main_inv s \<longleftrightarrow> main_core {} s \<and> linked {} s"

lemma core_registered:
  assumes "main_core I s"
  shows "dp_handlers (mt_disp s) x = Some (PortHandler j h) \<Longrightarrow> j \<in> I \<or> (\<exists>p. mt_ports s j = Some p)"
    "dp_handlers (mt_disp s) x = Some (PumpHandler b) \<longleftrightarrow> mt_queues s b = Some x"
    "mt_queues s b = Some x \<Longrightarrow> mt_ports s b = None"
  using assms unfolding main_core_def by (blast, blast, blast)

text \<open>Another port's handlers are not touched.\<close>

lemma frame_handlers:
  assumes "uart_frame (PortHandler i) w w'"
  shows "j \<noteq> i \<Longrightarrow> dp_handlers (uw_disp w') x = Some (PortHandler j h) \<longleftrightarrow> dp_handlers (uw_disp w) x = Some (PortHandler j h)"
    "dp_handlers (uw_disp w') x = Some (PumpHandler b) \<longleftrightarrow> dp_handlers (uw_disp w) x = Some (PumpHandler b)"
  using frame_fields(6) [OF assms] by (auto simp: image_iff)

lemma other_port_inv:
  assumes "uart_inv (PortHandler j) (port_view s p)" "j \<noteq> i"
    and "uart_inv (PortHandler i) w'" "uart_frame (PortHandler i) (port_view s q) w'"
  shows "uart_inv (PortHandler j) (port_view (port_put i w' s) p)"
  using assms(1,3) frame_handlers(1) [OF assms(4,2)]
  by (simp add: uart_inv_def uart_core_def port_view_def port_put_def)

lemma port_put_core:
  assumes core: "main_core I s" and i: "mt_ports s i = Some p"
    and w: "uart_inv (PortHandler i) w" "uart_frame (PortHandler i) (port_view s p) w"
  shows "main_core (I - {i}) (port_put i w s)"
proof -
  let ?s = "port_put i w s"
  have own: "uart_inv (PortHandler i) (port_view ?s \<lparr>po_t = uw_t w, po_events = uw_events w, po_kernel = uw_kernel w, po_calls = uw_calls w\<rparr>)"
    using w(1) by (cases w) (simp add: port_put_def port_view_def)
  have ports: "uart_inv (PortHandler j) (port_view ?s q)" if "j \<notin> I - {i}" "mt_ports ?s j = Some q" for j q
  proof (cases "j = i")
    case True
    then show ?thesis using own that(2) by (simp add: port_put_def)
  next
    case False
    then have "uart_inv (PortHandler j) (port_view s q)"
      using core that by (simp add: main_core_def port_put_def)
    from other_port_inv [OF this False w] show ?thesis .
  qed
  have h: "j \<in> I - {i} \<or> mt_ports ?s j \<noteq> None"
    if "dp_handlers (mt_disp ?s) x = Some (PortHandler j h)" for x j h
  proof (cases "j = i")
    case False
    then have "dp_handlers (mt_disp s) x = Some (PortHandler j h)"
      using that frame_handlers(1) [OF w(2) False] by (simp add: port_put_def port_view_def)
    then have "j \<in> I \<or> mt_ports s j \<noteq> None" using core unfolding main_core_def by blast
    then show ?thesis using False by (simp add: port_put_def)
  qed (simp add: port_put_def)
  have pump: "dp_handlers (mt_disp ?s) x = Some (PumpHandler b) \<longleftrightarrow> mt_queues ?s b = Some x" for x b
    using core_registered(2) [OF core] frame_handlers(2) [OF w(2)] by (simp add: port_put_def port_view_def)
  have apart: "dom (mt_queues ?s) \<inter> dom (mt_ports ?s) = {}"
    using core i by (auto simp: main_core_def port_put_def)
  have "dispatcher_ok (mt_disp ?s) \<and> finite (mt_open ?s) \<and> dp_epoll (mt_disp ?s) \<subseteq> mt_open ?s \<and> -1 \<notin> mt_open ?s"
    using w(1) by (simp add: uart_inv_def uart_core_def port_put_def)
  moreover have "length (mt_drivers ?s) = length (mt_cfgs ?s)" using core by (simp add: main_core_def port_put_def)
  ultimately show ?thesis using ports h pump apart unfolding main_core_def by blast
qed

lemma port_put_base:
  assumes "mt_ports s i = Some p" "uart_frame (PortHandler i) (port_view s p) w"
  shows "main_base (port_put i w s) = main_base s"
proof -
  have r: "uw_open w - {ut_fd (uw_t w)} = mt_open s - {ut_fd (po_t p)}"
    using frame_fields(1) [OF assms(2)] by (simp add: rest_fds_def port_view_def)
  define others where "others = {ut_fd (po_t q) |j q. j \<noteq> i \<and> mt_ports s j = Some q}"
  have "port_fds s = insert (ut_fd (po_t p)) others" using assms(1) unfolding port_fds_def others_def by auto (metis option.inject)
  moreover have "port_fds (port_put i w s) = insert (ut_fd (uw_t w)) others"
    unfolding port_fds_def others_def port_put_def by (auto split: if_splits)
  ultimately show ?thesis using r by (auto simp: main_base_def port_put_def)
qed

section \<open>Sinks follow the link\<close>

lemma driver_run_link:
  "d \<noteq> NoDriver \<Longrightarrow> ss_connected (driver_state (driver_run iv evs d)) = link_after evs (ss_connected (driver_state d))"
  by (cases d) (simp_all add: connected_run)

lemma link_trace_steps: "link_trace up es = Some v \<Longrightarrow> link_after (map (handler_event_of ck) es) up = v"
  by (rule link_trace_after)

lemma append_entries_cfg [simp]: "length (mt_drivers (battery_events env b evs s)) = length (mt_drivers s)"
  by (simp add: battery_events_def Let_def)

lemma battery_events_fields [simp]:
  "mt_disp (battery_events env b evs s) = mt_disp s" "mt_open (battery_events env b evs s) = mt_open s"
  "mt_ports (battery_events env b evs s) = mt_ports s" "mt_cfgs (battery_events env b evs s) = mt_cfgs s"
  "mt_queues (battery_events env b evs s) = mt_queues s" "mt_inverter (battery_events env b evs s) = mt_inverter s"
  "mt_drivers (battery_events env b evs s) =
     (mt_drivers s)[b := driver_run (intervals_of (mt_cfgs s ! b)) evs (mt_drivers s ! b)]"
  by (simp_all add: battery_events_def Let_def)

text \<open>Only these components matter.\<close>

lemma main_core_cong:
  assumes "mt_disp s' = mt_disp s" "mt_open s' = mt_open s" "mt_ports s' = mt_ports s"
    and "length (mt_drivers s') = length (mt_drivers s)" "length (mt_cfgs s') = length (mt_cfgs s)"
    and "mt_queues s' = mt_queues s"
  shows "main_core I s' = main_core I s" "main_base s' = main_base s"
  using assms by (simp_all add: main_core_def main_base_def port_fds_def port_view_def)

lemma linked_state:
  assumes "linked I s" "i \<notin> I" "mt_ports s i = Some p" "i < length (mt_cfgs s)"
  shows "(\<exists>h. mt_drivers s ! i = PylontechDriver h) \<and>
      (ss_connected (driver_state (mt_drivers s ! i)) \<longleftrightarrow> 0 \<le> ut_fd (po_t p))"
  using assms unfolding linked_def by blast

lemma battery_events_linked:
  assumes "linked I s" "length (mt_drivers s) = length (mt_cfgs s)"
    and "mt_ports s b = None \<or> (\<forall>up. link_after evs up = up)"
  shows "linked I (battery_events env b evs s)"
  unfolding linked_def
proof (intro allI impI)
  fix c p
  assume "c \<notin> I" "c < length (mt_cfgs (battery_events env b evs s))" "mt_ports (battery_events env b evs s) c = Some p"
  then have c: "c \<notin> I" "c < length (mt_cfgs s)" "mt_ports s c = Some p" by simp_all
  from linked_state [OF assms(1) c(1,3,2)] obtain h where h: "mt_drivers s ! c = PylontechDriver h"
    "ss_connected (h_state h) \<longleftrightarrow> 0 \<le> ut_fd (po_t p)" by auto
  show "(\<exists>h. mt_drivers (battery_events env b evs s) ! c = PylontechDriver h) \<and>
     (ss_connected (driver_state (mt_drivers (battery_events env b evs s) ! c)) \<longleftrightarrow> 0 \<le> ut_fd (po_t p))"
  proof (cases "c = b")
    case True
    then show ?thesis using c h assms(2,3) by (auto simp: connected_run)
  qed (use h in simp)
qed

lemma port_sink_fields:
  assumes "port_sink env i es s = Some s'"
  shows "mt_disp s' = mt_disp s" "mt_open s' = mt_open s" "mt_ports s' = mt_ports s" "mt_cfgs s' = mt_cfgs s"
    "mt_queues s' = mt_queues s" "length (mt_drivers s') = length (mt_drivers s)"
  using assms by (auto simp: port_sink_def split: if_splits option.splits prod.splits)

text \<open>After a call of port \<open>i\<close> the sink has caught up with it.\<close>

lemma port_sink_linked:
  assumes lk: "linked I s" "length (mt_drivers s) = length (mt_cfgs s)"
    and sink: "port_sink env i es (port_put i w s) = Some s'"
    and d: "i < length (mt_cfgs s) \<Longrightarrow> (\<exists>h. mt_drivers s ! i = PylontechDriver h) \<and>
      (ss_connected (driver_state (mt_drivers s ! i)) \<longleftrightarrow> up)"
    and tr: "link_trace up es = Some (0 \<le> ut_fd (uw_t w))"
  shows "linked (I - {i}) s'"
proof (cases "i < length (mt_cfgs s)")
  case True
  let ?evs = "map (handler_event_of (me_clocks env (mt_calls s))) es"
  have s': "s' = battery_events env i ?evs (port_put i w s)"
    using sink True by (simp add: port_sink_def port_put_def)
  obtain h where h: "mt_drivers s ! i = PylontechDriver h" "ss_connected (h_state h) = up" using d [OF True] by auto
  have after: "link_after ?evs up = (0 \<le> ut_fd (uw_t w))" by (rule link_trace_after [OF tr])
  show ?thesis
    unfolding linked_def
  proof (intro allI impI)
    fix b p
    assume b: "b \<notin> I - {i}" "b < length (mt_cfgs s')" "mt_ports s' b = Some p"
    show "(\<exists>h. mt_drivers s' ! b = PylontechDriver h) \<and>
      (ss_connected (driver_state (mt_drivers s' ! b)) \<longleftrightarrow> 0 \<le> ut_fd (po_t p))"
    proof (cases "b = i")
      case True
      then show ?thesis using b h after lk(2) by (auto simp: s' port_put_def connected_run)
    next
      case False
      then show ?thesis using lk(1) b unfolding linked_def s' by (simp add: port_put_def)
    qed
  qed
next
  case False
  then have "mt_drivers s' = mt_drivers s" "mt_cfgs s' = mt_cfgs s" "mt_ports s' = mt_ports (port_put i w s)"
    using sink by (auto simp: port_sink_def port_put_def split: option.splits prod.splits if_splits)
  then show ?thesis using lk(1) False unfolding linked_def by (auto simp: port_put_def)
qed

section \<open>Every handler keeps the invariant\<close>

text \<open>The delays after which the ports try again.\<close>

definition port_backoffs :: "MainThread \<Rightarrow> nat \<Rightarrow> int option" where
  "port_backoffs s i = map_option (\<lambda>p. ut_reconnect_ms (po_t p)) (mt_ports s i)"

lemma port_backoffs_cong: "mt_ports s' = mt_ports s \<Longrightarrow> port_backoffs s' = port_backoffs s"
  by (simp add: port_backoffs_def fun_eq_iff)

lemma port_backoffs_upd [simp]:
  "port_backoffs (s\<lparr>mt_calls := n\<rparr>) = port_backoffs s" "port_backoffs (s\<lparr>mt_history := h\<rparr>) = port_backoffs s"
  "port_backoffs (s\<lparr>mt_disp := d\<rparr>) = port_backoffs s" "port_backoffs (s\<lparr>mt_inverter := v\<rparr>) = port_backoffs s"
  "port_backoffs (s\<lparr>mt_queues := q\<rparr>) = port_backoffs s"
  "port_backoffs (battery_events env b evs s) = port_backoffs s"
  by (simp_all add: port_backoffs_def fun_eq_iff)

definition kept :: "MainThread \<Rightarrow> MainThread \<Rightarrow> bool" where
  "kept s s' \<longleftrightarrow> port_backoffs s' = port_backoffs s \<and> main_base s' = main_base s \<and> mt_cfgs s' = mt_cfgs s \<and> dom (mt_ports s') = dom (mt_ports s) \<and>
     mt_queues s' = mt_queues s \<and> dp_stopping (mt_disp s') = dp_stopping (mt_disp s) \<and>
     (\<forall>x b. dp_handlers (mt_disp s') x = Some (PumpHandler b) \<longleftrightarrow> dp_handlers (mt_disp s) x = Some (PumpHandler b))"

text \<open>A call of a transport in the middle of everything else.\<close>

lemma port_call_inv:
  assumes core: "main_core I s" and lk: "linked I s" and p: "mt_ports s i = Some p"
    and f: "\<And>w. f (port_view s p) = Some w \<Longrightarrow> uart_inv (PortHandler i) w \<and> uart_frame (PortHandler i) (port_view s p) w"
    and up: "link_trace False (po_events p) = Some up"
    and d: "i < length (mt_cfgs s) \<Longrightarrow> (\<exists>h. mt_drivers s ! i = PylontechDriver h) \<and>
      (ss_connected (driver_state (mt_drivers s ! i)) \<longleftrightarrow> up)"
    and c: "port_call env i f s = Some s'"
  shows "main_core (I - {i}) s' \<and> linked (I - {i}) s' \<and> kept s s'"
proof -
  obtain w where w: "f (port_view s p) = Some w"
    and sink: "port_sink env i (drop (length (po_events p)) (uw_events w)) (port_put i w s) = Some s'"
    using c p by (auto simp: port_call_def split: option.splits)
  note u = f [OF w, THEN conjunct1] and fr = f [OF w, THEN conjunct2]
  obtain es where es: "uw_events w = po_events p @ es" using frame_fields(5) [OF fr] by (auto simp: port_view_def)
  then have "link_trace up es = Some (0 \<le> ut_fd (uw_t w))"
    using u up by (simp add: uart_inv_def uart_core_def link_trace_append)
  moreover have s2: "port_sink env i es (port_put i w s) = Some s'" using sink es by simp
  moreover have len: "length (mt_drivers s) = length (mt_cfgs s)" using core by (simp add: main_core_def)
  ultimately have "linked (I - {i}) s'" using port_sink_linked [OF lk len s2] d by blast
  moreover note sf = port_sink_fields [OF s2]
  have "main_core (I - {i}) s'"
    using main_core_cong(1) [OF sf(1-3)] port_put_core [OF core p u fr] sf(4-6) by simp
  moreover have "main_base s' = main_base s"
    using main_core_cong(2) [OF sf(1-3)] port_put_base [OF p fr] sf(4-6) by simp
  moreover have "dp_stopping (mt_disp s') = dp_stopping (mt_disp s)"
    using frame_fields(2) [OF fr] sf(1) by (simp add: port_put_def port_view_def)
  moreover have "dp_handlers (mt_disp s') x = Some (PumpHandler b) \<longleftrightarrow> dp_handlers (mt_disp s) x = Some (PumpHandler b)" for x b
    using frame_handlers(2) [OF fr] sf(1) by (simp add: port_put_def port_view_def)
  moreover have "port_backoffs s' = port_backoffs s"
    using frame_fields(7) [OF fr] sf(3) p by (simp add: fun_eq_iff port_backoffs_def port_put_def port_view_def)
  ultimately show ?thesis using sf p by (auto simp: kept_def port_put_def)
qed

lemma inv_calls [simp]:
  "main_core I (s\<lparr>mt_calls := n\<rparr>) = main_core I s" "main_base (s\<lparr>mt_calls := n\<rparr>) = main_base s"
  "linked I (s\<lparr>mt_calls := n\<rparr>) = linked I s" "kept (s\<lparr>mt_calls := n\<rparr>) s' = kept s s'"
  "kept s' (s\<lparr>mt_calls := n\<rparr>) = kept s' s" "port_view (s\<lparr>mt_calls := n\<rparr>) p = port_view s p"
  by (simp_all add: main_core_def main_base_def port_fds_def linked_def port_view_def kept_def)

lemma inv_history:
  "main_core I (s\<lparr>mt_history := h\<rparr>) = main_core I s" "linked I (s\<lparr>mt_history := h\<rparr>) = linked I s"
  "kept s' (s\<lparr>mt_history := h\<rparr>) = kept s' s"
  by (simp_all add: main_core_def linked_def port_view_def kept_def main_base_def port_fds_def)

lemma kept_refl: "kept s s" by (simp add: kept_def)

lemma main_exec_inv:
  assumes inv: "main_inv s" and h: "h \<in> ran (dp_handlers (mt_disp s))" and e: "main_exec env h s = Some s'"
  shows "main_inv s' \<and> kept s s'"
proof -
  let ?s = "s\<lparr>mt_calls := Suc (mt_calls s)\<rparr>"
  have core: "main_core {} ?s" and lk: "linked {} ?s" and len: "length (mt_drivers ?s) = length (mt_cfgs ?s)"
    using inv by (simp_all add: main_inv_def main_core_def)
  obtain x where x: "dp_handlers (mt_disp s) x = Some h" using h by (auto simp: ran_def)
  have quiet: "main_inv s' \<and> kept s s'" if "s' = battery_events env b evs ?s"
      "mt_ports s b = None \<or> (\<forall>up. link_after evs up = up)" for b evs
  proof -
    have "linked {} s'" using battery_events_linked [OF lk len, of b evs env] that by simp
    moreover have "main_core {} s'" "main_base s' = main_base s"
      using main_core_cong [of s' ?s] core that(1) by simp_all
    ultimately show ?thesis using that(1) by (simp add: main_inv_def kept_def)
  qed
  show ?thesis
  proof (cases h)
    case (PortHandler i uh)
    then have "mt_ports s i \<noteq> None" using inv x unfolding main_inv_def main_core_def by blast
    then obtain p where p: "mt_ports ?s i = Some p" by auto
    have u: "uart_inv (PortHandler i) (port_view ?s p)" using core p unfolding main_core_def by blast
    have o: "uh = OnReadable \<longrightarrow> 0 \<le> ut_fd (uw_t (port_view ?s p))"
      using registered_open [OF u] x PortHandler by (auto simp: port_view_def)
    have "link_trace False (po_events p) = Some (0 \<le> ut_fd (po_t p))"
      using u by (simp add: uart_inv_def uart_core_def port_view_def)
    moreover have "port_call env i (uart_exec (PortHandler i) uh) ?s = Some s'"
      using e PortHandler by (simp add: main_exec.simps Let_def)
    moreover have "uart_inv (PortHandler i) w \<and> uart_frame (PortHandler i) (port_view ?s p) w"
      if "uart_exec (PortHandler i) uh (port_view ?s p) = Some w" for w
      using uart_exec_inv [OF u o that] by blast
    moreover have "i < length (mt_cfgs ?s) \<Longrightarrow> (\<exists>h. mt_drivers ?s ! i = PylontechDriver h) \<and>
        (ss_connected (driver_state (mt_drivers ?s ! i)) \<longleftrightarrow> 0 \<le> ut_fd (po_t p))"
      using linked_state [OF lk _ p] by simp
    ultimately have "main_core ({} - {i}) s' \<and> linked ({} - {i}) s' \<and> kept ?s s'"
      by (intro port_call_inv [where f = "uart_exec (PortHandler i) uh", OF core lk p])
    then show ?thesis by (simp add: main_inv_def)
  next
    case (PumpHandler b)
    then have "mt_ports s b = None" using inv x core_registered(2,3) [of "{}" s] by (simp add: main_inv_def)
    then show ?thesis using e PumpHandler by (intro quiet) (auto simp: main_exec.simps Let_def)
  next
    case (PollHandler b)
    then show ?thesis using e by (intro quiet [of b "[PollTick]"]) (auto simp: main_exec.simps Let_def)
  next
    case (SettingsHandler b)
    then show ?thesis using e by (intro quiet [of b "[SettingsTick]"]) (auto simp: main_exec.simps Let_def)
  next
    case AggregateHandler
    then obtain hist where "s' = s\<lparr>mt_calls := Suc (mt_calls s), mt_history := hist\<rparr>"
      using e by (auto simp: main_exec.simps Let_def)
    then show ?thesis using inv by (simp add: main_inv_def inv_history kept_refl)
  qed
qed

lemma main_put_inv:
  assumes "main_inv s" "dp_handlers d = dp_handlers (mt_disp s)" "dp_epoll d = dp_epoll (mt_disp s)"
  shows "main_inv (s\<lparr>mt_disp := d\<rparr>)"
proof -
  have "dispatcher_ok d" using assms by (simp add: main_inv_def main_core_def dispatcher_ok_def)
  moreover have "uart_inv (PortHandler j) (port_view (s\<lparr>mt_disp := d\<rparr>) p)" if "mt_ports s j = Some p" for j p
  proof -
    have "uart_inv (PortHandler j) (port_view s p)" using assms(1) that by (simp add: main_inv_def main_core_def)
    from uart_inv_disp [OF this, of d] assms(2,3) show ?thesis by (simp add: port_view_def)
  qed
  ultimately show ?thesis using assms by (simp add: main_inv_def main_core_def linked_def)
qed

text \<open>What a run of the program keeps besides the invariant.\<close>

definition running :: "MainThread \<Rightarrow> MainThread \<Rightarrow> bool" where
  "running s0 s \<longleftrightarrow> main_inv s \<and> main_base s = main_base s0 \<and> mt_cfgs s = mt_cfgs s0 \<and>
     dom (mt_ports s) = dom (mt_ports s0) \<and> mt_queues s = mt_queues s0 \<and> port_backoffs s = port_backoffs s0"

interpretation main: dispatched "main_program env" "running s0" for env s0
proof unfold_locales
  show "dispatcher_ok (pr_get (main_program env) s)" if "running s0 s" for s
    using that by (simp add: main_program_def running_def main_inv_def main_core_def)
  show "running s0 s'" if "running s0 s" "h \<in> ran (dp_handlers (pr_get (main_program env) s))"
      "pr_exec (main_program env) h s = Some s'" for s h s'
    using that main_exec_inv [of s h env s'] by (simp add: main_program_def running_def kept_def)
  show "running s0 (pr_put (main_program env) d s)"
    if "running s0 s" "dp_handlers d = dp_handlers (pr_get (main_program env) s)"
      "dp_epoll d = dp_epoll (pr_get (main_program env) s)" for s d
    using that main_put_inv [of s d]
    by (simp add: main_program_def running_def main_base_def port_fds_def)
  show "dp_stopping (pr_get (main_program env) s')"
    if "running s0 s" "h \<in> ran (dp_handlers (pr_get (main_program env) s))" "pr_exec (main_program env) h s = Some s'"
      "dp_stopping (pr_get (main_program env) s)" for s h s'
    using that main_exec_inv [of s h env s'] by (simp add: main_program_def running_def kept_def)
qed (simp_all add: main_program_def)

end
