(* ===== verification/Main_Start.thy ===== *)
theory Main_Start
  imports Main_Loop
begin

text \<open>
  The main thread from its start to its end: the start-up of every battery and of the inverter,
  every run of the dispatcher and the shutdown keep the invariant of \<open>Main_Loop\<close>, and what follows from
  that for the serial links.
\<close>

section \<open>Starting keeps the invariant\<close>

lemma port_open_watched:
  assumes "main_core I s" "j \<notin> I" "mt_ports s j = Some p"
  shows "0 \<le> ut_fd (po_t p) \<Longrightarrow> ut_fd (po_t p) \<in> dp_epoll (mt_disp s)" "ut_fd (po_t p) < 0 \<Longrightarrow> ut_fd (po_t p) = -1"
    "reopen_fd (port_view s p) \<in> dp_epoll (mt_disp s)"
proof -
  have "uart_core (PortHandler j) (port_view s p)" using assms by (simp add: main_core_def uart_inv_def)
  then show "0 \<le> ut_fd (po_t p) \<Longrightarrow> ut_fd (po_t p) \<in> dp_epoll (mt_disp s)" "ut_fd (po_t p) < 0 \<Longrightarrow> ut_fd (po_t p) = -1"
    "reopen_fd (port_view s p) \<in> dp_epoll (mt_disp s)"
    using core_watched [of "PortHandler j" "port_view s p"] by (auto simp: port_view_def uart_core_def)
qed

lemma port_fds_sub: "main_core {} s \<Longrightarrow> port_fds s \<subseteq> insert (-1) (mt_open s)"
  using port_open_watched(1,2) [of "{}" s] unfolding port_fds_def main_core_def by (fastforce simp: not_le)

text \<open>A new descriptor is open, and it is nobody's.\<close>

lemma new_fd_inv:
  assumes inv: "main_inv s" and n: "new_fd env s = (fd, s')"
  shows "main_inv s'" "fd \<notin> mt_open s" "0 \<le> fd" "mt_open s' = insert fd (mt_open s)"
    "main_base s' = insert fd (main_base s)"
    "mt_queues s' = mt_queues s" "mt_disp s' = mt_disp s" "mt_ports s' = mt_ports s" "mt_drivers s' = mt_drivers s" "mt_cfgs s' = mt_cfgs s"
    "mt_inverter s' = mt_inverter s"
proof -
  have fin: "finite (mt_open s)" using inv by (simp add: main_inv_def main_core_def)
  have fd: "fd = lowest_free (mt_open s \<union> set (me_foreign env (mt_calls s)))"
    and s': "s' = s\<lparr>mt_open := insert fd (mt_open s), mt_calls := Suc (mt_calls s)\<rparr>"
    using n by (auto simp: new_fd_def Let_def)
  show free: "fd \<notin> mt_open s" "0 \<le> fd"
    using lowest_free [of "mt_open s \<union> set (me_foreign env (mt_calls s))"] fin fd by auto
  show "main_inv s'"
    using inv free by (auto simp: s' main_inv_def main_core_def linked_def uart_inv_def uart_core_def port_view_def)
  have "fd \<notin> port_fds s" using port_fds_sub [of s] inv free by (auto simp: main_inv_def)
  then show "main_base s' = insert fd (main_base s)" by (auto simp: s' main_base_def port_fds_def)
  show "mt_open s' = insert fd (mt_open s)" "mt_queues s' = mt_queues s" "mt_disp s' = mt_disp s"
    "mt_ports s' = mt_ports s" "mt_drivers s' = mt_drivers s" "mt_cfgs s' = mt_cfgs s" "mt_inverter s' = mt_inverter s"
    by (simp_all add: s')
qed

text \<open>A new handler that is not of a port; \<open>Q\<close> are the queues that are watched then.\<close>

lemma watch_inv:
  assumes inv: "main_inv s" and w: "watch ok fd h (mt_disp s) = Some d" and fd: "fd \<in> mt_open s"
    and h: "\<And>j uh. h \<noteq> PortHandler j uh"
    and q: "(\<forall>b. h \<noteq> PumpHandler b) \<and> Q = mt_queues s \<or>
      (\<exists>b. h = PumpHandler b \<and> mt_ports s b = None \<and> mt_queues s b = None \<and> Q = (mt_queues s)(b \<mapsto> fd))"
  shows "main_inv (s\<lparr>mt_disp := d, mt_queues := Q\<rparr>)"
proof -
  let ?s = "s\<lparr>mt_disp := d, mt_queues := Q\<rparr>"
  have core: "main_core {} s" and lk: "linked {} s" using inv by (simp_all add: main_inv_def)
  have ok: "dispatcher_ok (mt_disp s)" using core by (simp add: main_core_def)
  note wd = watch_ok [OF ok w]
  have none: "dp_handlers (mt_disp s) fd = None" using ok wd(3) by (auto simp: dispatcher_ok_def)
  have ports: "uart_inv (PortHandler j) (port_view ?s p)" if p: "mt_ports s j = Some p" for j p
  proof -
    have "uart_inv (PortHandler j) (port_view s p)" using core p by (simp add: main_core_def)
    moreover have "reopen_fd (port_view s p) \<noteq> fd" "0 \<le> ut_fd (po_t p) \<Longrightarrow> ut_fd (po_t p) \<noteq> fd"
      using port_open_watched [OF core _ p] wd(3) by auto
    ultimately show ?thesis using wd(1,2,4) fd h
      by (auto simp: uart_inv_def uart_core_def port_view_def)
  qed
  have "main_core {} ?s"
    unfolding main_core_def
  proof (intro conjI allI impI)
    fix x j g assume "dp_handlers (mt_disp ?s) x = Some (PortHandler j g)"
    then have "dp_handlers (mt_disp s) x = Some (PortHandler j g)" using wd(2) h by (auto split: if_splits)
    then show "j \<in> {} \<or> mt_ports ?s j \<noteq> None" using core_registered(1) [OF core, of x j g] by simp
  next
    fix x b
    show "dp_handlers (mt_disp ?s) x = Some (PumpHandler b) \<longleftrightarrow> mt_queues ?s b = Some x"
      using core_registered(2) [OF core, of fd b] core_registered(2) [OF core, of x b] q wd(2) none
      by (auto split: if_splits)
  next
    show "uart_inv (PortHandler j) (port_view ?s p)" if "mt_ports ?s j = Some p" for j p
      using ports that by simp
  next
    show "dom (mt_queues ?s) \<inter> dom (mt_ports ?s) = {}" using core_registered(3) [OF core] q by (fastforce split: if_splits)
  qed (use core wd fd in \<open>auto simp: main_core_def\<close>)
  then show "main_inv ?s" using lk by (simp add: main_inv_def linked_def)
qed

lemma main_add_timer_inv:
  assumes inv: "main_inv s" and a: "main_add_timer env ms h s = Some s'"
    and h: "\<And>j uh. h \<noteq> PortHandler j uh" "\<And>b. h \<noteq> PumpHandler b"
  shows "main_inv s'" "main_base s \<subseteq> main_base s'" "mt_ports s' = mt_ports s" "mt_cfgs s' = mt_cfgs s"
    "mt_queues s' = mt_queues s" "mt_drivers s' = mt_drivers s" "mt_inverter s' = mt_inverter s"
    "dp_stopping (mt_disp s') = dp_stopping (mt_disp s)"
proof -
  obtain fd s1 where n: "new_fd env s = (fd, s1)" by fastforce
  note f = new_fd_inv [OF inv n]
  obtain d where w: "watch (me_epoll_add env (mt_calls s1)) fd h (mt_disp s1) = Some d"
    and s': "s' = s1\<lparr>mt_disp := d\<lparr>dp_timers := dp_timers d @ [timer_arm_periodic ms (timer_init fd)]\<rparr>\<rparr>"
    using a n by (auto simp: main_add_timer_def add_timer_def Let_def)
  have fd: "fd \<in> mt_open s1" using f(4) by simp
  have "main_inv (s1\<lparr>mt_disp := d, mt_queues := mt_queues s1\<rparr>)" using h by (intro watch_inv [OF f(1) w fd h(1)]) simp
  then have i: "main_inv (s1\<lparr>mt_disp := d\<rparr>)" by simp
  have "dispatcher_ok (mt_disp s1)" using f(1) by (simp add: main_inv_def main_core_def)
  note wd = watch_ok [OF this w]
  from main_put_inv [OF i, of "d\<lparr>dp_timers := dp_timers d @ [timer_arm_periodic ms (timer_init fd)]\<rparr>"]
  show "main_inv s'" by (simp add: s')
  have "main_base s' = main_base s1" by (simp add: s' main_base_def port_fds_def)
  then show "main_base s \<subseteq> main_base s'" using f(5) by auto
  show "mt_ports s' = mt_ports s" "mt_cfgs s' = mt_cfgs s" "mt_queues s' = mt_queues s" "mt_drivers s' = mt_drivers s"
    "mt_inverter s' = mt_inverter s" using f by (simp_all add: s')
  show "dp_stopping (mt_disp s') = dp_stopping (mt_disp s)" using f wd(5) by (simp add: s')
qed

text \<open>The start of a transport, whose reopen timer is an open descriptor that is not watched.\<close>

lemma start_port_inv:
  assumes inv: "main_inv s" and none: "mt_ports s i = None" and fd: "0 \<le> fd" "fd \<in> mt_open s"
    and queue: "mt_queues s i = None"
    and d: "i < length (mt_cfgs s) \<Longrightarrow> (\<exists>h. mt_drivers s ! i = PylontechDriver h) \<and>
      \<not> ss_connected (driver_state (mt_drivers s ! i))"
    and s': "start_port env i (uart_init device baud reconnect fd) s = Some s'"
  shows "main_inv s'" "main_base s' = main_base s" "mt_cfgs s' = mt_cfgs s" "dom (mt_ports s') = insert i (dom (mt_ports s))"
    "mt_queues s' = mt_queues s" "dp_stopping (mt_disp s') = dp_stopping (mt_disp s)"
    "port_backoffs s' = (port_backoffs s)(i \<mapsto> reconnect)"
proof -
  let ?p = "\<lparr>po_t = uart_init device baud reconnect fd, po_events = [], po_kernel = me_kernel env i, po_calls = 0\<rparr>"
  let ?s = "s\<lparr>mt_ports := (mt_ports s)(i \<mapsto> ?p)\<rparr>"
  have core: "main_core {} s" and lk: "linked {} s" using inv by (simp_all add: main_inv_def)
  have c1: "main_core {i} ?s"
    unfolding main_core_def
  proof (intro conjI allI impI)
    show "uart_inv (PortHandler j) (port_view ?s q)" if "j \<notin> {i}" "mt_ports ?s j = Some q" for j q
      using core that by (simp add: main_core_def port_view_def)
    show "dom (mt_queues ?s) \<inter> dom (mt_ports ?s) = {}" using core queue by (auto simp: main_core_def)
    show "dp_handlers (mt_disp ?s) x = Some (PumpHandler b) \<longleftrightarrow> mt_queues ?s b = Some x" for x b
      using core_registered(2) [OF core] by simp
    show "j \<in> {i} \<or> mt_ports ?s j \<noteq> None" if "dp_handlers (mt_disp ?s) x = Some (PortHandler j h)" for x j h
      using core_registered(1) [OF core, of x j h] that by auto
  qed (use core in \<open>simp_all add: main_core_def\<close>)
  have l1: "linked {i} ?s" using lk unfolding linked_def by simp
  have own: "dp_handlers (mt_disp s) x \<noteq> Some (PortHandler i h)" for x h
    using core_registered(1) [OF core, of x i h] none by auto
  have fresh: "uart_fresh (PortHandler i) (port_view ?s ?p)"
    using core fd own by (auto simp: uart_fresh_def main_core_def port_view_def uart_init_def timer_init_def ran_def)
  have f: "uart_inv (PortHandler i) w \<and> uart_frame (PortHandler i) (port_view ?s ?p) w"
    if "uart_start (PortHandler i) (port_view ?s ?p) = Some w" for w
    using start_inv [OF fresh that] by simp
  have "main_core ({i} - {i}) s' \<and> linked ({i} - {i}) s' \<and> kept ?s s'"
    using s' d unfolding start_port_def
    by (intro port_call_inv [where p = ?p and up = False and f = "uart_start (PortHandler i)", OF c1 l1 _ f]) auto
  then have r: "main_inv s'" "kept ?s s'" by (simp_all add: main_inv_def)
  show "main_inv s'" by (rule r(1))
  have "-1 \<notin> mt_open s" using core by (simp add: main_core_def)
  moreover have "port_fds ?s = insert (-1) (port_fds s)"
    using none by (simp add: port_fds_ran uart_init_def)
  ultimately have "main_base ?s = main_base s" by (auto simp: main_base_def)
  then show "main_base s' = main_base s" "mt_cfgs s' = mt_cfgs s" "dom (mt_ports s') = insert i (dom (mt_ports s))"
    "mt_queues s' = mt_queues s" "dp_stopping (mt_disp s') = dp_stopping (mt_disp s)"
    using r(2) by (auto simp: kept_def)
  have "port_backoffs ?s = (port_backoffs s)(i \<mapsto> reconnect)"
    by (simp add: fun_eq_iff port_backoffs_def uart_init_def)
  then show "port_backoffs s' = (port_backoffs s)(i \<mapsto> reconnect)" using r(2) by (simp add: kept_def)
qed

text \<open>The batteries that get a serial transport.\<close>

definition serial_battery :: "BatteryConfig \<Rightarrow> bool" where
  "serial_battery c \<longleftrightarrow> bc_link c = Ttl \<and> bc_protocol c = ''pylontech''"

text \<open>The batteries before \<open>k\<close> were started.\<close>

definition starting :: "BatteryConfig list \<Rightarrow> int set \<Rightarrow> nat \<Rightarrow> MainThread \<Rightarrow> bool" where
  "starting cfgs fds k s \<longleftrightarrow> main_inv s \<and> mt_cfgs s = cfgs \<and> fds \<subseteq> main_base s \<and> \<not> dp_stopping (mt_disp s) \<and>
     dom (mt_ports s) = {b. b < k \<and> serial_battery (cfgs ! b)} \<and>
     (\<forall>b ms. port_backoffs s b = Some ms \<longrightarrow> ms = sint (bc_reconnect_ms (cfgs ! b))) \<and>
     dom (mt_queues s) \<subseteq> {b. b < k \<and> \<not> serial_battery (cfgs ! b)}"

lemma starting_step:
  assumes "starting cfgs fds k s" "main_inv s'" "main_base s \<subseteq> main_base s'" "mt_cfgs s' = mt_cfgs s"
    and "mt_queues s' = mt_queues s" "dp_stopping (mt_disp s') = dp_stopping (mt_disp s)" "mt_ports s' = mt_ports s"
  shows "starting cfgs fds k s'"
proof -
  have "fds \<subseteq> main_base s'" using assms(1,3) unfolding starting_def by blast
  then show ?thesis using assms(1) port_backoffs_cong [OF assms(7)] by (simp add: starting_def assms(2,4-7))
qed

lemma starting_timer:
  assumes "starting cfgs fds k s" "main_add_timer env ms h s = Some s'"
    and "\<And>j uh. h \<noteq> PortHandler j uh" "\<And>b. h \<noteq> PumpHandler b"
  shows "starting cfgs fds k s'"
proof -
  have "main_inv s" using assms(1) by (simp add: starting_def)
  note t = main_add_timer_inv [OF this assms(2-4)]
  show ?thesis by (rule starting_step [OF assms(1) t(1,2,4,5,8,3)])
qed

lemma new_fd_starting:
  assumes "starting cfgs fds k s" "new_fd env s = (fd, s')"
  shows "starting cfgs fds k s'" "0 \<le> fd" "fd \<in> mt_open s'" "fd \<notin> dp_epoll (mt_disp s')"
proof -
  have i: "main_inv s" using assms(1) by (simp add: starting_def)
  note n = new_fd_inv [OF i assms(2)]
  show "starting cfgs fds k s'" using n by (intro starting_step [OF assms(1)]) auto
  show "0 \<le> fd" "fd \<in> mt_open s'" using n by simp_all
  have "dp_epoll (mt_disp s) \<subseteq> mt_open s" using i by (simp add: main_inv_def main_core_def)
  then show "fd \<notin> dp_epoll (mt_disp s')" using n by auto
qed

lemma set_driver_starting:
  assumes "starting cfgs fds k s" "mt_ports s b = None"
  shows "starting cfgs fds k (set_driver b d s)"
proof -
  have "main_core {} (set_driver b d s)" "main_base (set_driver b d s) = main_base s"
    using main_core_cong [of "set_driver b d s" s] assms by (simp_all add: starting_def main_inv_def set_driver_def)
  moreover have "linked {} (set_driver b d s)"
    unfolding linked_def
  proof (intro allI impI)
    fix c p assume c: "c < length (mt_cfgs (set_driver b d s))" "mt_ports (set_driver b d s) c = Some p"
    then have "c \<noteq> b" "mt_ports s c = Some p" using assms(2) by (auto simp: set_driver_def)
    then show "(\<exists>h. mt_drivers (set_driver b d s) ! c = PylontechDriver h) \<and>
        (ss_connected (driver_state (mt_drivers (set_driver b d s) ! c)) \<longleftrightarrow> 0 \<le> ut_fd (po_t p))"
      using linked_state [of "{}" s c p] assms(1) c(1) by (simp add: starting_def main_inv_def set_driver_def)
  qed
  ultimately show ?thesis by (intro starting_step [OF assms(1)]) (simp_all add: main_inv_def set_driver_def)
qed

lemma starting_fields:
  assumes "starting cfgs fds k s"
  shows "main_inv s" "mt_cfgs s = cfgs" "length (mt_drivers s) = length cfgs" "k \<le> b \<Longrightarrow> mt_ports s b = None"
    "k \<le> b \<Longrightarrow> mt_queues s b = None"
proof -
  show "main_inv s" "mt_cfgs s = cfgs" using assms by (simp_all add: starting_def)
  show "length (mt_drivers s) = length cfgs" using assms by (simp add: starting_def main_inv_def main_core_def)
  have d: "dom (mt_ports s) \<subseteq> {..<k}" "dom (mt_queues s) \<subseteq> {..<k}" using assms unfolding starting_def by blast+
  show "k \<le> b \<Longrightarrow> mt_ports s b = None" "k \<le> b \<Longrightarrow> mt_queues s b = None"
    using d by (force simp: domIff)+
qed

lemma start_serial:
  assumes st: "starting cfgs fds b s" and b: "b < length cfgs" "serial_battery (cfgs ! b)"
    and n: "new_fd env s = (fd, s1)" and r: "reconnect = sint (bc_reconnect_ms (cfgs ! b))"
    and p: "start_port env b (uart_init device baud reconnect fd) (set_driver b (PylontechDriver (handler_init m)) s1) = Some s2"
  shows "starting cfgs fds (Suc b) s2"
proof -
  note n1 = new_fd_starting [OF st n]
  let ?s = "set_driver b (PylontechDriver (handler_init m)) s1"
  have st1: "starting cfgs fds b ?s" by (rule set_driver_starting [OF n1(1) starting_fields(4) [OF n1(1)]]) simp
  note f = starting_fields [OF st1]
  have fd: "fd \<in> mt_open ?s" using n1 by (simp add: set_driver_def)
  have d: "(\<exists>h. mt_drivers ?s ! b = PylontechDriver h) \<and> \<not> ss_connected (driver_state (mt_drivers ?s ! b))"
    using b(1) starting_fields(3) [OF n1(1)] by (simp add: set_driver_def handler_init_def shared_init_def)
  note q = start_port_inv [OF f(1) f(4) [OF order.refl] n1(2) fd f(5) [OF order.refl] d p]
  have "dom (mt_ports ?s) = {c. c < b \<and> serial_battery (cfgs ! c)}" using st1 by (simp add: starting_def)
  then have ports: "dom (mt_ports s2) = {c. c < Suc b \<and> serial_battery (cfgs ! c)}"
    using q(4) b(2) by (auto simp: less_Suc_eq)
  have "dom (mt_queues ?s) \<subseteq> {c. c < b \<and> \<not> serial_battery (cfgs ! c)}" using st1 by (simp add: starting_def)
  then have queues: "dom (mt_queues s2) \<subseteq> {c. c < Suc b \<and> \<not> serial_battery (cfgs ! c)}" using q(5) by auto
  show ?thesis using st1 q(1-3,6,7) ports queues r by (simp add: starting_def)
qed

lemma starting_next:
  assumes "starting cfgs fds b s" "\<not> serial_battery (cfgs ! b)"
  shows "starting cfgs fds (Suc b) s"
proof -
  have "{c. c < Suc b \<and> serial_battery (cfgs ! c)} = {c. c < b \<and> serial_battery (cfgs ! c)}"
    using assms(2) by (auto simp: less_Suc_eq)
  then show ?thesis using assms(1) unfolding starting_def by (auto intro: less_SucI)
qed

lemma start_queue:
  assumes st: "starting cfgs fds b s" and b: "\<not> serial_battery (cfgs ! b)"
    and n: "new_fd env s = (fd, s1)"
    and w: "watch ok fd (PumpHandler b) (mt_disp (set_driver b dr s1)) = Some d"
  shows "starting cfgs fds (Suc b) ((set_driver b dr s1)\<lparr>mt_disp := d, mt_queues := (mt_queues (set_driver b dr s1))(b \<mapsto> fd)\<rparr>)"
    (is "starting cfgs fds (Suc b) ?t")
proof -
  note n1 = new_fd_starting [OF st n]
  let ?s = "set_driver b dr s1"
  have st1: "starting cfgs fds b ?s" by (rule set_driver_starting [OF n1(1) starting_fields(4) [OF n1(1)]]) simp
  then have st2: "starting cfgs fds (Suc b) ?s" by (rule starting_next [OF _ b])
  note f = starting_fields [OF st1]
  have fd: "fd \<in> mt_open ?s" using n1 by (simp add: set_driver_def)
  have i: "main_inv ?t" using f(4,5) by (intro watch_inv [OF f(1) w fd]) auto
  have "dispatcher_ok (mt_disp ?s)" using f(1) by (simp add: main_inv_def main_core_def)
  note wd = watch_ok [OF this w]
  have "dom (mt_queues ?t) \<subseteq> {c. c < Suc b \<and> \<not> serial_battery (cfgs ! c)}"
    using st2 b unfolding starting_def by auto
  moreover have "main_base ?t = main_base ?s" "port_backoffs ?t = port_backoffs ?s"
    by (simp_all add: main_base_def port_fds_def)
  ultimately show ?thesis using st2 i wd(5) by (simp add: starting_def)
qed

lemma battery_start_serial:
  assumes "battery_start c = Some plan"
  shows "serial_battery c \<longleftrightarrow> (\<exists>dev baud. bs_transport plan = Uart dev baud (bc_reconnect_ms c))"
    "\<not> serial_battery c \<longleftrightarrow> (\<exists>st. bs_transport plan = Ble st)"
  using assms by (auto simp: battery_start_def serial_battery_def Let_def split: BatteryLink.splits if_splits)

lemma start_battery_inv:
  assumes st: "starting cfgs fds b s" and b: "b < length cfgs"
    and s': "start_battery env b s = Some s'"
  shows "starting cfgs fds (Suc b) s'"
proof (cases "battery_start (cfgs ! b)")
  case None
  then have "s' = s" "\<not> serial_battery (cfgs ! b)"
    using s' starting_fields(2) [OF st]
    by (auto simp: start_battery_def battery_start_def serial_battery_def Let_def split: BatteryLink.splits if_splits)
  then show ?thesis using starting_next [OF st] by simp
next
  case (Some plan)
  obtain fd s1 where n: "new_fd env s = (fd, s1)" by fastforce
  have cfgs: "mt_cfgs s = cfgs" by (rule starting_fields(2) [OF st])
  have "\<exists>s2. starting cfgs fds (Suc b) s2 \<and> (\<exists>s3. main_add_timer env (bs_poll_timer plan) (PollHandler b) s2 = Some s3 \<and>
      main_add_timer env (bs_settings_timer plan) (SettingsHandler b) s3 = Some s')"
  proof (cases "bs_transport plan")
    case (Uart dev baud ms)
    then have sb: "serial_battery (cfgs ! b)" "ms = bc_reconnect_ms (cfgs ! b)"
      using battery_start_serial [OF Some] by auto
    then have r: "sint ms = sint (bc_reconnect_ms (cfgs ! b))" by simp
    obtain m s2 s3 where p: "start_port env b (uart_init dev (sint baud) (sint ms) fd)
        (set_driver b (PylontechDriver (handler_init m)) s1) = Some s2"
      and t: "main_add_timer env (bs_poll_timer plan) (PollHandler b) s2 = Some s3"
        "main_add_timer env (bs_settings_timer plan) (SettingsHandler b) s3 = Some s'"
      using s' Some Uart n by (auto simp: start_battery_def cfgs Let_def split: Option.bind_splits)
    from start_serial [OF st b sb(1) n r p] t show ?thesis by blast
  next
    case (Ble c)
    then have sb: "\<not> serial_battery (cfgs ! b)" using battery_start_serial(2) [OF Some] by blast
    obtain d dr s3 where w: "watch (me_epoll_add env (mt_calls (set_driver b dr s1))) fd (PumpHandler b) (mt_disp (set_driver b dr s1)) = Some d"
      and t: "main_add_timer env (bs_poll_timer plan) (PollHandler b)
          ((set_driver b dr s1)\<lparr>mt_disp := d, mt_queues := (mt_queues (set_driver b dr s1))(b \<mapsto> fd)\<rparr>) = Some s3"
        "main_add_timer env (bs_settings_timer plan) (SettingsHandler b) s3 = Some s'"
      using s' Some Ble n by (auto simp: start_battery_def cfgs Let_def split: Option.bind_splits)
    from start_queue [OF st sb n w] t show ?thesis by blast
  qed
  then obtain s2 s3 where t: "starting cfgs fds (Suc b) s2" "main_add_timer env (bs_poll_timer plan) (PollHandler b) s2 = Some s3"
    "main_add_timer env (bs_settings_timer plan) (SettingsHandler b) s3 = Some s'" by blast
  have "starting cfgs fds (Suc b) s3" by (rule starting_timer [OF t(1,2)]) simp_all
  from starting_timer [OF this t(3)] show ?thesis by simp
qed

lemma start_batteries_inv:
  assumes "starting cfgs fds k s" "k \<le> length cfgs" "start_batteries env [k..<length cfgs] s = Some s'"
  shows "starting cfgs fds (length cfgs) s'"
  using assms
proof (induction "length cfgs - k" arbitrary: k s)
  case (Suc n)
  then have k: "k < length cfgs" by simp
  then obtain s1 where s1: "start_battery env k s = Some s1" "start_batteries env [Suc k..<length cfgs] s1 = Some s'"
    using Suc.prems(3) by (auto simp: upt_conv_Cons split: option.splits)
  have "starting cfgs fds (Suc k) s1" by (rule start_battery_inv [OF Suc.prems(1) k s1(1)])
  then show ?case using Suc.hyps(1) [of "Suc k" s1] Suc.hyps(2) k s1(2) by simp
qed simp

text \<open>What the process gives: a table of finitely many open descriptors.\<close>

definition fds_ok :: "int set \<Rightarrow> bool" where
  "fds_ok fds \<longleftrightarrow> finite fds \<and> -1 \<notin> fds"

lemma main_init_starting: "fds_ok fds \<Longrightarrow> starting (ac_batteries cfg) fds 0 (main_init wake_fd fds cfg h)"
  by (simp add: fds_ok_def starting_def main_inv_def main_core_def linked_def main_init_def dispatcher_init_ok
      main_base_def port_fds_def port_backoffs_def) (simp add: dispatcher_init_def)

lemma main_start_inv:
  assumes ok: "fds_ok fds" and s: "main_start env wake_fd fds cfg h = Some s"
  shows "main_inv s" "mt_cfgs s = ac_batteries cfg" "fds \<subseteq> main_base s" "\<not> dp_stopping (mt_disp s)"
    "dom (mt_ports s) = insert (length (ac_batteries cfg)) {b. b < length (ac_batteries cfg) \<and> serial_battery (ac_batteries cfg ! b)}"
    "mt_queues s (length (ac_batteries cfg)) = None" "dom (mt_queues s) \<subseteq> {..<length (ac_batteries cfg)}"
    "port_backoffs s i = Some ms \<Longrightarrow>
      ms = (if i = length (ac_batteries cfg) then kReopenBackoffMs else sint (bc_reconnect_ms (ac_batteries cfg ! i)))"
proof -
  let ?cfgs = "ac_batteries cfg"
  obtain s1 s2 where s1: "main_add_timer env 3600000 AggregateHandler (main_init wake_fd fds cfg h) = Some s1"
    and s2: "start_batteries env [0..<length ?cfgs] s1 = Some s2" and s3: "start_inverter env (ac_inverter cfg) s2 = Some s"
    using s by (auto simp: main_start_def split: Option.bind_splits)
  have "starting ?cfgs fds 0 s1" by (rule starting_timer [OF main_init_starting [OF ok] s1]) simp_all
  then have st: "starting ?cfgs fds (length ?cfgs) s2"
    using start_batteries_inv [OF _ _ s2] by simp
  obtain fd s3 where n: "new_fd env s2 = (fd, s3)" by fastforce
  note n1 = new_fd_starting [OF st n]
  note f = starting_fields [OF n1(1)]
  let ?iv = "inverter_new (inv_uart_device (ac_inverter cfg)) (sint (inv_uart_baud (ac_inverter cfg))) fd (batteries s3)"
  let ?s = "s3\<lparr>mt_inverter := (?iv, Some (0, []))\<rparr>"
  have p: "start_port env (length ?cfgs) (uart_init (inv_uart_device (ac_inverter cfg))
      (sint (inv_uart_baud (ac_inverter cfg))) kReopenBackoffMs fd) ?s = Some s"
    using s3 n f(2) by (simp add: start_inverter_def inverter_new_def Let_def)
  have i: "main_inv ?s" "main_base ?s = main_base s3"
    using f(1) by (simp_all add: main_inv_def main_core_def linked_def port_view_def main_base_def port_fds_def)
  have q: "main_inv s" "main_base s = main_base ?s" "mt_cfgs s = mt_cfgs ?s"
    "dom (mt_ports s) = insert (length ?cfgs) (dom (mt_ports ?s))" "mt_queues s = mt_queues ?s"
    "dp_stopping (mt_disp s) = dp_stopping (mt_disp ?s)"
    "port_backoffs s = (port_backoffs ?s)(length ?cfgs \<mapsto> kReopenBackoffMs)"
    using start_port_inv [OF i(1) _ n1(2) _ _ _ p] f(2,4,5) n1(3) by simp_all
  have st3: "fds \<subseteq> main_base s3" "\<not> dp_stopping (mt_disp s3)"
    "dom (mt_ports s3) = {b. b < length ?cfgs \<and> serial_battery (?cfgs ! b)}"
    "dom (mt_queues s3) \<subseteq> {b. b < length ?cfgs \<and> \<not> serial_battery (?cfgs ! b)}"
    using n1(1) by (simp_all add: starting_def)
  show "main_inv s" "mt_cfgs s = ?cfgs" "fds \<subseteq> main_base s" "\<not> dp_stopping (mt_disp s)"
    "dom (mt_ports s) = insert (length ?cfgs) {b. b < length ?cfgs \<and> serial_battery (?cfgs ! b)}"
    "mt_queues s (length ?cfgs) = None" "dom (mt_queues s) \<subseteq> {..<length ?cfgs}"
    using q i(2) f(2) st3 by auto
  have "port_backoffs ?s = port_backoffs s3" by simp
  then show "ms = (if i = length ?cfgs then kReopenBackoffMs else sint (bc_reconnect_ms (?cfgs ! i)))"
    if "port_backoffs s i = Some ms" using that q(7) n1(1) by (auto simp: starting_def split: if_splits)
qed

lemma main_run_inv:
  assumes "fds_ok fds" "main_start env wake_fd fds cfg h = Some s"
    and "dispatcher_run (main_program env) bs s = Some (stopped, s')"
  shows "running s s'"
proof -
  have "running s s" using main_start_inv(1) [OF assms(1,2)] by (simp add: running_def)
  from main.inv_run [OF this assms(3)] show ?thesis .
qed

section \<open>Stopping releases the ports\<close>

text \<open>The transports with numbers in \<open>J\<close> were stopped; \<open>s0\<close> is the thread before.\<close>

definition stopped :: "MainThread \<Rightarrow> nat set \<Rightarrow> MainThread \<Rightarrow> bool" where
  "stopped s0 J s \<longleftrightarrow> main_core J s \<and> main_base s = main_base s0 \<and> mt_cfgs s = mt_cfgs s0 \<and>
     dom (mt_ports s) = dom (mt_ports s0) \<and> mt_drivers s = mt_drivers s0 \<and> mt_history s = mt_history s0 \<and>
     (\<forall>j \<in> J. mt_queues s j = None) \<and> dom (mt_queues s) \<subseteq> dom (mt_queues s0) \<and>
     (\<forall>j p. j \<in> J \<longrightarrow> mt_ports s j = Some p \<longrightarrow> ut_fd (po_t p) = -1) \<and>
     (\<forall>x j h. j \<in> J \<longrightarrow> dp_handlers (mt_disp s) x \<noteq> Some (PortHandler j h))"

lemma uart_stop_core:
  assumes "uart_inv wrap w"
  shows "dispatcher_ok (uw_disp (uart_stop w))" "finite (uw_open (uart_stop w))" "-1 \<notin> uw_open (uart_stop w)"
    "dp_epoll (uw_disp (uart_stop w)) \<subseteq> uw_open (uart_stop w)"
proof -
  have c: "uart_core wrap w" using assms by (simp add: uart_inv_def)
  note r = stop_releases [OF assms]
  have ok: "dispatcher_ok (uw_disp w)" using c by (simp add: uart_core_def)
  show ok': "dispatcher_ok (uw_disp (uart_stop w))"
    using ok by (auto simp: uart_stop_def close_fd_def Let_def unwatch_def dispatcher_ok_def)
  show "finite (uw_open (uart_stop w))" "-1 \<notin> uw_open (uart_stop w)"
    using c r(1) by (auto simp: uart_core_def rest_fds_def)
  show "dp_epoll (uw_disp (uart_stop w)) \<subseteq> uw_open (uart_stop w)"
  proof
    fix x assume x: "x \<in> dp_epoll (uw_disp (uart_stop w))"
    then have "x \<in> dp_epoll (uw_disp w)"
      by (auto simp: uart_stop_def close_fd_def Let_def unwatch_def split: if_splits)
    moreover obtain h where "dp_handlers (uw_disp (uart_stop w)) x = Some h"
      using x ok' unfolding dispatcher_ok_def by blast
    then have "x \<noteq> ut_fd (uw_t w) \<or> ut_fd (uw_t w) < 0"
      using c by (auto simp: uart_stop_def close_fd_def Let_def unwatch_def uart_core_def split: if_splits)
    moreover have "dp_epoll (uw_disp w) \<subseteq> uw_open w" "-1 \<notin> uw_open w" "ut_fd (uw_t w) < 0 \<longrightarrow> ut_fd (uw_t w) = -1"
      using c by (simp_all add: uart_core_def)
    ultimately have "x \<in> uw_open w" "x \<noteq> ut_fd (uw_t w)" by (blast, metis subsetD)
    then show "x \<in> uw_open (uart_stop w)" using r(1) by (auto simp: rest_fds_def)
  qed
qed

lemma stop_port_stopped:
  assumes st: "stopped s0 J s" and i: "i \<notin> J" and q: "mt_queues s i = None"
  shows "stopped s0 (insert i J) (stop_port i s)"
proof (cases "mt_ports s i")
  case None
  have core: "main_core J s" using st by (simp add: stopped_def)
  have "dp_handlers (mt_disp s) x \<noteq> Some (PortHandler i h)" for x h
    using core_registered(1) [OF core, of x i h] None i by auto
  moreover have "main_core (insert i J) s" using core unfolding main_core_def by auto
  ultimately show ?thesis using st q None by (auto simp: stopped_def stop_port_def)
next
  case (Some p)
  let ?w = "uart_stop (port_view s p)" and ?s = "stop_port i s"
  have core: "main_core J s" using st by (simp add: stopped_def)
  have u: "uart_inv (PortHandler i) (port_view s p)" using core i Some by (simp add: main_core_def)
  note r = stop_releases [OF u] and c = uart_stop_core [OF u]
  have s: "?s = port_put i ?w s" using Some by (simp add: stop_port_def)
  have other: "dp_handlers (mt_disp ?s) x = Some (PortHandler j h) \<longleftrightarrow> dp_handlers (mt_disp s) x = Some (PortHandler j h)"
    if "j \<noteq> i" for x j h using r(5) that by (auto simp: s port_put_def port_view_def image_iff)
  have pump: "dp_handlers (mt_disp ?s) x = Some (PumpHandler b) \<longleftrightarrow> dp_handlers (mt_disp s) x = Some (PumpHandler b)"
    for x b using r(5) by (auto simp: s port_put_def port_view_def image_iff)
  have own: "dp_handlers (mt_disp ?s) x \<noteq> Some (PortHandler i h)" for x h using r(4) by (simp add: s port_put_def)
  have rest: "mt_open ?s = mt_open s - {ut_fd (po_t p)}" using r(1) by (simp add: s port_put_def rest_fds_def port_view_def)
  have ports: "mt_ports ?s j = mt_ports s j" if "j \<noteq> i" for j using that by (simp add: s port_put_def)
  have main: "main_core (insert i J) ?s"
    unfolding main_core_def
  proof (intro conjI allI impI)
    show "dispatcher_ok (mt_disp ?s)" "finite (mt_open ?s)" "-1 \<notin> mt_open ?s" "dp_epoll (mt_disp ?s) \<subseteq> mt_open ?s"
      using c by (simp_all add: s port_put_def)
    show "length (mt_drivers ?s) = length (mt_cfgs ?s)" using core by (simp add: main_core_def s port_put_def)
    show "uart_inv (PortHandler j) (port_view ?s q)" if "j \<notin> insert i J" "mt_ports ?s j = Some q" for j q
    proof -
      have "uart_inv (PortHandler j) (port_view s q)" using core that ports [of j] by (simp add: main_core_def)
      then show ?thesis using c other that(1) by (simp add: uart_inv_def uart_core_def port_view_def s port_put_def)
    qed
    show "j \<in> insert i J \<or> mt_ports ?s j \<noteq> None" if "dp_handlers (mt_disp ?s) x = Some (PortHandler j h)" for x j h
    proof (cases "j = i")
      case False
      then show ?thesis using core_registered(1) [OF core, of x j h] that other ports by auto
    qed simp
    show "dp_handlers (mt_disp ?s) x = Some (PumpHandler b) \<longleftrightarrow> mt_queues ?s b = Some x" for x b
      using core_registered(2) [OF core] pump by (simp add: s port_put_def)
    show "dom (mt_queues ?s) \<inter> dom (mt_ports ?s) = {}"
      using core Some by (auto simp: main_core_def s port_put_def)
  qed
  have "port_fds ?s = insert (-1) {ut_fd (po_t q) |j q. j \<noteq> i \<and> mt_ports s j = Some q}"
    using r(2) unfolding port_fds_def s port_put_def by (auto split: if_splits)
  moreover have "port_fds s = insert (ut_fd (po_t p)) {ut_fd (po_t q) |j q. j \<noteq> i \<and> mt_ports s j = Some q}"
    using Some unfolding port_fds_def by auto (metis option.inject)
  ultimately have "main_base ?s = main_base s" using c(3) rest by (auto simp: main_base_def s port_put_def)
  moreover have "ut_fd (po_t q) = -1" if "j \<in> insert i J" "mt_ports ?s j = Some q" for j q
    using that st r(2) by (auto simp: stopped_def s port_put_def split: if_splits)
  moreover have "dp_handlers (mt_disp ?s) x \<noteq> Some (PortHandler j h)" if "j \<in> insert i J" for x j h
    using that own other st by (cases "j = i") (auto simp: stopped_def)
  ultimately show ?thesis using st main q Some unfolding stopped_def by (auto simp: s port_put_def)
qed

lemma stop_queue_stopped:
  assumes st: "stopped s0 J s" and q: "mt_queues s b = Some fd"
  shows "stopped s0 (insert b J) (s\<lparr>mt_disp := unwatch fd (mt_disp s), mt_queues := (mt_queues s)(b := None)\<rparr>)"
    (is "stopped s0 _ ?s")
proof -
  have core: "main_core J s" using st by (simp add: stopped_def)
  have reg: "dp_handlers (mt_disp s) fd = Some (PumpHandler b)" using core_registered(2) [OF core] q by simp
  have ok: "dispatcher_ok (mt_disp s)" using core by (simp add: main_core_def)
  note u = unwatch_ok [OF ok, of fd]
  have none: "mt_ports s b = None" by (rule core_registered(3) [OF core q])
  have other: "dp_handlers (mt_disp ?s) x = Some h \<longleftrightarrow> dp_handlers (mt_disp s) x = Some h" if "h \<noteq> PumpHandler b" for x h
    using reg that by (auto simp: unwatch_def)
  have "main_core (insert b J) ?s"
    unfolding main_core_def
  proof (intro conjI allI impI)
    show "uart_inv (PortHandler j) (port_view ?s p)" if "j \<notin> insert b J" "mt_ports ?s j = Some p" for j p
    proof -
      have "uart_inv (PortHandler j) (port_view s p)" using core that by (simp add: main_core_def)
      then show ?thesis using other u(1,4) by (auto simp: uart_inv_def uart_core_def port_view_def)
    qed
    show "j \<in> insert b J \<or> mt_ports ?s j \<noteq> None" if "dp_handlers (mt_disp ?s) x = Some (PortHandler j h)" for x j h
      using core_registered(1) [OF core, of x j h] that other by auto
    show "dp_handlers (mt_disp ?s) x = Some (PumpHandler c) \<longleftrightarrow> mt_queues ?s c = Some x" for x c
    proof (cases "c = b")
      case True
      then show ?thesis using core_registered(2) [OF core, of x b] q by (auto simp: unwatch_def)
    next
      case False
      then show ?thesis using core_registered(2) [OF core, of x c] other by simp
    qed
    show "dom (mt_queues ?s) \<inter> dom (mt_ports ?s) = {}" using core by (auto simp: main_core_def)
  qed (use core u in \<open>auto simp: main_core_def\<close>)
  moreover have "dp_handlers (mt_disp ?s) x \<noteq> Some (PortHandler j h)" if "j \<in> insert b J" for x j h
    using that st other none core_registered(1) [OF core, of x j h] by (auto simp: stopped_def)
  moreover have "main_base ?s = main_base s" by (simp add: main_base_def port_fds_def)
  ultimately show ?thesis using st none q by (auto simp: stopped_def)
qed

lemma stop_battery_stopped:
  "stopped s0 J s \<Longrightarrow> b \<notin> J \<Longrightarrow> stopped s0 (insert b J) (stop_battery b s)"
  using stop_queue_stopped stop_port_stopped by (auto simp: stop_battery_def split: option.split)

lemma stop_batteries_stopped:
  "stopped s0 J s \<Longrightarrow> set bs \<inter> J = {} \<Longrightarrow> distinct bs \<Longrightarrow> stopped s0 (set bs \<union> J) (fold stop_battery bs s)"
proof (induction bs arbitrary: J s)
  case (Cons b bs)
  have "stopped s0 (insert b J) (stop_battery b s)" using Cons.prems by (intro stop_battery_stopped) auto
  from Cons.IH [OF this] Cons.prems show ?case by simp
qed simp

lemma main_stop_stopped:
  assumes "main_inv s" "dom (mt_ports s) \<subseteq> {..length (mt_cfgs s)}" "mt_queues s (length (mt_cfgs s)) = None"
  shows "stopped s {..length (mt_cfgs s)} (main_stop s)"
proof -
  have "stopped s {} s" using assms(1) by (simp add: stopped_def main_inv_def)
  from stop_batteries_stopped [OF this, of "[0..<length (mt_cfgs s)]"]
  have f: "stopped s {..<length (mt_cfgs s)} (fold stop_battery [0..<length (mt_cfgs s)] s)"
    by (simp add: atLeast0LessThan)
  then have "mt_queues (fold stop_battery [0..<length (mt_cfgs s)] s) (length (mt_cfgs s)) = None"
    using assms(3) unfolding stopped_def by (auto simp: subset_iff domIff)
  from stop_port_stopped [OF f _ this] show ?thesis by (simp add: main_stop_def lessThan_Suc_atMost [symmetric] lessThan_Suc)
qed

section \<open>What the invariant gives\<close>

definition open_ports :: "MainThread \<Rightarrow> int set" where
  "open_ports s = {fd \<in> port_fds s. 0 \<le> fd}"

lemma main_open: "main_core {} s \<Longrightarrow> mt_open s = main_base s \<union> open_ports s"
  using port_fds_sub [of s] port_open_watched(1,2) [of "{}" s]
  unfolding main_base_def open_ports_def main_core_def by (auto simp: port_fds_ran ran_def)

lemma port_alive:
  assumes "main_core {} s" "mt_ports s i = Some p"
  shows "if 0 \<le> ut_fd (po_t p)
    then dp_handlers (mt_disp s) (ut_fd (po_t p)) = Some (PortHandler i OnReadable) \<and> ut_fd (po_t p) \<in> dp_epoll (mt_disp s)
    else (ut_reconnect_ms (po_t p) < 0 \<or> tm_left (ut_reopen_timer (po_t p)) \<noteq> None) \<and>
      dp_handlers (mt_disp s) (tm_fd (ut_reopen_timer (po_t p))) = Some (PortHandler i OnReopen) \<and>
      tm_fd (ut_reopen_timer (po_t p)) \<in> dp_epoll (mt_disp s)"
proof -
  have u: "uart_inv (PortHandler i) (port_view s p)" using assms by (simp add: main_core_def)
  then have c: "uart_core (PortHandler i) (port_view s p)" by (simp add: uart_inv_def)
  show ?thesis using u core_handlers(1,2) [OF c] core_watched [OF c] by (auto simp: uart_inv_def port_view_def)
qed

lemma batteries_nth:
  assumes "main_core I s" "b < length (mt_cfgs s)"
  shows "batteries s ! b = \<lparr>b_cfg = mt_cfgs s ! b, b_state = driver_state (mt_drivers s ! b)\<rparr>"
  using assms by (simp add: batteries_def main_core_def)

text \<open>The next expiry of the reopen timer of a battery connects it again when the device can be opened.\<close>

lemma battery_reconnects:
  assumes inv: "main_inv s" and p: "mt_ports s b = Some p" "b < length (mt_cfgs s)" "ut_fd (po_t p) < 0"
    and dev: "device_back (port_view s p)" "baud_to_speed (ut_baud (po_t p)) \<noteq> B0"
  shows "\<exists>s'. main_exec env (PortHandler b OnReopen) s = Some s' \<and> main_inv s' \<and> ss_connected (b_state (batteries s' ! b))"
proof -
  let ?s = "s\<lparr>mt_calls := Suc (mt_calls s)\<rparr>"
  have core: "main_core {} s" using inv by (simp add: main_inv_def)
  have u: "uart_inv (PortHandler b) (port_view s p)" using core p by (simp add: main_core_def)
  obtain w where w: "uart_exec (PortHandler b) OnReopen (port_view s p) = Some w" "0 \<le> ut_fd (uw_t w)"
    using reopen_connects [OF u] p(3) dev by (auto simp: port_view_def)
  obtain s' where s': "main_exec env (PortHandler b OnReopen) s = Some s'"
    and q: "mt_ports s' b = Some \<lparr>po_t = uw_t w, po_events = uw_events w, po_kernel = uw_kernel w, po_calls = uw_calls w\<rparr>"
    using w(1) p by (simp add: main_exec.simps port_call_def port_sink_def port_put_def Let_def)
  have "PortHandler b OnReopen \<in> ran (dp_handlers (mt_disp s))"
    using port_alive [OF core p(1)] p(3) by (auto intro: ranI)
  from main_exec_inv [OF inv this s'] have i: "main_inv s'" "mt_cfgs s' = mt_cfgs s" by (simp_all add: kept_def)
  then have "ss_connected (driver_state (mt_drivers s' ! b))"
    using linked_state [of "{}" s' b, OF _ _ q] w(2) p(2) by (simp add: main_inv_def)
  then show ?thesis using s' i batteries_nth [of "{}" s' b] p(2) by (simp add: main_inv_def)
qed

lemma main_stop_releases:
  assumes run: "running s s'" and i: "dom (mt_ports s) = insert (length cfgs) {b. b < length cfgs \<and> serial_battery (cfgs ! b)}"
      "mt_queues s (length cfgs) = None" "dom (mt_queues s) \<subseteq> {..<length cfgs}"
    and c: "mt_cfgs s = cfgs"
  shows "port_fds (main_stop s') \<subseteq> {-1}" "mt_open (main_stop s') = main_base s" "mt_history (main_stop s') = mt_history s'"
    "dp_handlers (mt_disp (main_stop s')) x \<noteq> Some (PortHandler j uh)"
    "dp_handlers (mt_disp (main_stop s')) x \<noteq> Some (PumpHandler j)"
proof -
  have r: "main_inv s'" "main_base s' = main_base s" "mt_cfgs s' = cfgs" "dom (mt_ports s') = dom (mt_ports s)"
    "mt_queues s' = mt_queues s"
    using run c by (simp_all add: running_def)
  let ?n = "length (mt_cfgs s')" and ?t = "main_stop s'"
  have st: "stopped s' {..?n} ?t" using r i by (intro main_stop_stopped) auto
  then have core: "main_core {..?n} ?t" and hist: "mt_history ?t = mt_history s'" by (simp_all add: stopped_def)
  show "mt_history ?t = mt_history s'" by (rule hist)
  have "ut_fd (po_t p) = -1" if "mt_ports ?t j = Some p" for j p
  proof -
    have "j \<in> dom (mt_ports s')" using that st by (auto simp: stopped_def)
    then have "j \<in> {..?n}" using r(3,4) i(1) by auto
    then show ?thesis using that st unfolding stopped_def by blast
  qed
  then show closed: "port_fds ?t \<subseteq> {-1}" by (auto simp: port_fds_def)
  have "-1 \<notin> mt_open ?t" using core by (simp add: main_core_def)
  then show "mt_open ?t = main_base s" using st r(2) closed by (auto simp: stopped_def main_base_def)
  have "mt_queues ?t j = None"
  proof (cases "j \<le> ?n")
    case False
    then have "j \<notin> dom (mt_queues s')" using i(3) r(3,5) by auto
    then show ?thesis using st by (auto simp: stopped_def)
  qed (use st in \<open>simp add: stopped_def\<close>)
  then show "dp_handlers (mt_disp ?t) x \<noteq> Some (PumpHandler j)" using core_registered(2) [OF core] by simp
  show "dp_handlers (mt_disp ?t) x \<noteq> Some (PortHandler j uh)"
  proof
    assume h: "dp_handlers (mt_disp ?t) x = Some (PortHandler j uh)"
    then have "j \<notin> {..?n}" using st by (auto simp: stopped_def)
    moreover from this have "j \<in> dom (mt_ports ?t)" using core_registered(1) [OF core h] by auto
    ultimately show False using st r(3,4) i(1) by (auto simp: stopped_def)
  qed
qed

section \<open>A sample installation\<close>

text \<open>A battery on a serial port that is unplugged at the second read, one on Bluetooth, and a reserve.\<close>

definition sample_app :: AppConfig where
  "sample_app = AppConfig_default\<lparr>ac_batteries :=
     [(sample_config ''a'' Ttl 280 [])\<lparr>bc_protocol := ''pylontech'', bc_pylontech_address := 1, bc_uart_baud := 9600\<rparr>,
      sample_config ''j'' Bluetooth 280 [], sample_config ''r'' Reserve 100 ''a''],
     ac_inverter := \<lparr>inv_uart_device = ''/dev/ttyS0'', inv_uart_baud = 115200\<rparr>\<rparr>"

definition sample_main_env :: MainEnv where
  "sample_main_env = \<lparr>me_foreign = (\<lambda>_. []), me_epoll_add = (\<lambda>_. True), me_kernel = (\<lambda>_ _. sample_kernel),
     me_clocks = (\<lambda>_ _. sample_clocks), me_inverter_clock = (\<lambda>_. 0), me_wall = (\<lambda>_. 0), me_queue = (\<lambda>_ _. []),
     me_append = (\<lambda>_ _. \<lparr>ae_statements = True, ae_new_battery = \<lparr>re_select = True, re_insert = None\<rparr>, ae_begin = True, ae_sample = None,
       ae_cell = (\<lambda>_. True), ae_commit = True\<rparr>),
     me_aggregate = (\<lambda>_. aggregates True)\<rparr>"

definition sample_history :: HistoryState where
  "sample_history = \<lparr>hs_ram_window = 0, hs_ram = [], hs_cache = [],
     hs_db = \<lparr>db_batteries = [], db_samples = [], db_cells = [], db_daily = []\<rparr>\<rparr>"

lemma sample_main_run:
  "case main_start sample_main_env 3 {0, 1, 2, 3} sample_app sample_history of None \<Rightarrow> False
   | Some s \<Rightarrow> map_option (\<lambda>p. ut_fd (po_t p)) (mt_ports s 0) = Some 6 \<and> ss_connected (b_state (batteries s ! 0)) \<and>
       (case dispatcher_run (main_program sample_main_env) [[Fd 6, Fd 4], [SignalFd 1]] s of None \<Rightarrow> False
        | Some (ended, s') \<Rightarrow> ended \<and> map_option (\<lambda>p. ut_fd (po_t p)) (mt_ports s' 0) = Some (-1))"
  by code_simp

lemma sample_main:
  "\<exists>s s' p. main_start sample_main_env 3 {0, 1, 2, 3} sample_app sample_history = Some s \<and>
     dispatcher_run (main_program sample_main_env) ([[Fd 6, Fd 4]] @ [[SignalFd 1]]) s = Some (True, s') \<and>
     mt_ports s' 0 = Some p \<and> ut_fd (po_t p) = -1"
  using sample_main_run by (auto simp del: dispatcher_run.simps run_batch.simps split: option.splits)

lemma sample_main_ok: "fds_ok {0, 1, 2, 3}"
  by (simp add: fds_ok_def)

section \<open>Properties\<close>

text \<open>C13: All ports share one dispatcher and one table of descriptors with the timers and the Bluetooth queues, and
  with the descriptors of other threads; the process starts with finitely many open descriptors.  Whatever happens to
  the others, after every run each port is open and watched by its own handler, with a descriptor no other port has, or
  its reopen timer is watched, and armed unless the \<open>reconnect_ms\<close> configured for it is negative (the inverter's
  delay is a constant, so its timer is always armed; what a negative one does is \<open>negative_backoff_never_reopens\<close>);
  and the thread has exactly the descriptors it had besides the open ports.\<close>

theorem ports_never_stuck:
  assumes "fds_ok fds" "main_start env wake_fd fds cfg h = Some s"
    and "dispatcher_run (main_program env) bs s = Some (ended, s')"
  shows "mt_open s' = main_base s \<union> open_ports s' \<and> fds \<subseteq> main_base s \<and>
    dom (mt_ports s') = insert (length (ac_batteries cfg))
      {b. b < length (ac_batteries cfg) \<and> serial_battery (ac_batteries cfg ! b)} \<and>
    (\<forall>i p. mt_ports s' i = Some p \<longrightarrow>
      (if 0 \<le> ut_fd (po_t p)
       then dp_handlers (mt_disp s') (ut_fd (po_t p)) = Some (PortHandler i OnReadable) \<and>
         ut_fd (po_t p) \<in> dp_epoll (mt_disp s') \<and> (\<forall>j q. mt_ports s' j = Some q \<and> ut_fd (po_t q) = ut_fd (po_t p) \<longrightarrow> j = i)
       else (tm_left (ut_reopen_timer (po_t p)) \<noteq> None \<or>
           i < length (ac_batteries cfg) \<and> sint (bc_reconnect_ms (ac_batteries cfg ! i)) < 0) \<and>
         dp_handlers (mt_disp s') (tm_fd (ut_reopen_timer (po_t p))) = Some (PortHandler i OnReopen) \<and>
         tm_fd (ut_reopen_timer (po_t p)) \<in> dp_epoll (mt_disp s')))"
proof -
  have r: "main_core {} s'" "main_base s' = main_base s" "dom (mt_ports s') = dom (mt_ports s)"
    "port_backoffs s' = port_backoffs s"
    using main_run_inv [OF assms] by (simp_all add: running_def main_inv_def)
  note st = main_start_inv [OF assms(1,2)]
  have alone: "j = i" if "mt_ports s' i = Some p" "mt_ports s' j = Some q" "ut_fd (po_t q) = ut_fd (po_t p)" "0 \<le> ut_fd (po_t p)" for i j p q
    using port_alive [OF r(1) that(1)] port_alive [OF r(1) that(2)] that(3,4) by simp
  have neg: "i < length (ac_batteries cfg) \<and> sint (bc_reconnect_ms (ac_batteries cfg ! i)) < 0"
    if "mt_ports s' i = Some p" "ut_reconnect_ms (po_t p) < 0" for i p
  proof -
    have "port_backoffs s i = Some (ut_reconnect_ms (po_t p))" using that(1) fun_cong [OF r(4), of i] by (simp add: port_backoffs_def)
    moreover have "i \<in> dom (mt_ports s)" using that(1) r(3) by auto
    ultimately show ?thesis using st(8) that(2) st(5) by (fastforce simp: kReopenBackoffMs_def split: if_splits)
  qed
  have "if 0 \<le> ut_fd (po_t p)
       then dp_handlers (mt_disp s') (ut_fd (po_t p)) = Some (PortHandler i OnReadable) \<and>
         ut_fd (po_t p) \<in> dp_epoll (mt_disp s') \<and> (\<forall>j q. mt_ports s' j = Some q \<and> ut_fd (po_t q) = ut_fd (po_t p) \<longrightarrow> j = i)
       else (tm_left (ut_reopen_timer (po_t p)) \<noteq> None \<or>
           i < length (ac_batteries cfg) \<and> sint (bc_reconnect_ms (ac_batteries cfg ! i)) < 0) \<and>
         dp_handlers (mt_disp s') (tm_fd (ut_reopen_timer (po_t p))) = Some (PortHandler i OnReopen) \<and>
         tm_fd (ut_reopen_timer (po_t p)) \<in> dp_epoll (mt_disp s')" if p: "mt_ports s' i = Some p" for i p
    using port_alive [OF r(1) p] alone [OF p] neg [OF p] by (cases "0 \<le> ut_fd (po_t p)") auto
  moreover have "mt_open s' = main_base s \<union> open_ports s'" using main_open [OF r(1)] r(2) by simp
  ultimately show ?thesis using r(3) st(3,5) by blast
qed

lemma ports_never_stuck_witness:
  "\<exists>s s' p. main_start sample_main_env 3 {0, 1, 2, 3} sample_app sample_history = Some s \<and>
     dispatcher_run (main_program sample_main_env) ([[Fd 6, Fd 4]] @ [[SignalFd 1]]) s = Some (True, s') \<and>
     mt_ports s' 0 = Some p \<and> ut_fd (po_t p) = -1 \<and> tm_left (ut_reopen_timer (po_t p)) \<noteq> None \<and>
     dp_handlers (mt_disp s') (tm_fd (ut_reopen_timer (po_t p))) = Some (PortHandler 0 OnReopen)"
proof -
  obtain s s' p where r: "main_start sample_main_env 3 {0, 1, 2, 3} sample_app sample_history = Some s"
    "dispatcher_run (main_program sample_main_env) ([[Fd 6, Fd 4]] @ [[SignalFd 1]]) s = Some (True, s')"
    "mt_ports s' 0 = Some p" "ut_fd (po_t p) = -1" using sample_main by blast
  have "sint (bc_reconnect_ms (ac_batteries sample_app ! 0)) = 5000"
    by (simp add: sample_app_def sample_config_def)
  with ports_never_stuck [OF sample_main_ok r(1,2), THEN conjunct2, THEN conjunct2, THEN conjunct2, THEN spec [of _ 0],
      THEN spec [of _ p]] r(3,4)
  have "tm_left (ut_reopen_timer (po_t p)) \<noteq> None \<and>
     dp_handlers (mt_disp s') (tm_fd (ut_reopen_timer (po_t p))) = Some (PortHandler 0 OnReopen)"
    by simp
  then show ?thesis using r by blast
qed

text \<open>C12: The process starts with finitely many open descriptors.  After every run a battery on a serial port counts as connected exactly while its port is open.  While it is
  closed no request that is to be answered from that battery is answered, whichever slot asks; and the
  next expiry of its reopen timer connects the battery again when the device can be opened with a baud rate
  that is supported (that timer is armed unless the configured \<open>reconnect_ms\<close> is negative).\<close>

theorem serial_battery_follows_port:
  assumes "fds_ok fds" "main_start env wake_fd fds cfg h = Some s"
    and "dispatcher_run (main_program env) bs s = Some (ended, s')"
    and "b < length (ac_batteries cfg)" "serial_battery (ac_batteries cfg ! b)"
  shows "\<exists>p. mt_ports s' b = Some p \<and> (ss_connected (b_state (batteries s' ! b)) \<longleftrightarrow> 0 \<le> ut_fd (po_t p)) \<and>
    (ut_fd (po_t p) < 0 \<longrightarrow>
      (\<forall>slots now f. (case sl_mirror (slot_at slots f) of Some k \<Rightarrow> k | None \<Rightarrow> sl_battery (slot_at slots f)) = b \<longrightarrow>
        respond (batteries s') slots now f = Some None) \<and>
      (device_back (port_view s' p) \<longrightarrow> baud_to_speed (ut_baud (po_t p)) \<noteq> B0 \<longrightarrow>
        (\<exists>s''. main_exec env (PortHandler b OnReopen) s' = Some s'' \<and> ss_connected (b_state (batteries s'' ! b)))))"
proof -
  have r: "main_inv s'" "mt_cfgs s' = ac_batteries cfg" "dom (mt_ports s') = dom (mt_ports s)"
    using main_run_inv [OF assms(1-3)] main_start_inv(2) [OF assms(1,2)] by (simp_all add: running_def)
  have core: "main_core {} s'" and lk: "linked {} s'" using r(1) by (simp_all add: main_inv_def)
  have "b \<in> dom (mt_ports s')" using main_start_inv(5) [OF assms(1,2)] r(3) assms(4,5) by simp
  then obtain p where p: "mt_ports s' b = Some p" by auto
  have b: "b < length (mt_cfgs s')" using r(2) assms(4) by simp
  have c: "ss_connected (b_state (batteries s' ! b)) \<longleftrightarrow> 0 \<le> ut_fd (po_t p)"
    using linked_state [OF lk _ p b] batteries_nth [OF core b] by simp
  have "respond (batteries s') slots now f = Some None"
    if "(case sl_mirror (slot_at slots f) of Some k \<Rightarrow> k | None \<Rightarrow> sl_battery (slot_at slots f)) = b" "ut_fd (po_t p) < 0"
    for slots now f
    using c that by (intro respond_silent) (auto simp: ready_def is_fresh_def)
  then show ?thesis using p c battery_reconnects [OF r(1) p b] by blast
qed

lemma serial_battery_follows_port_witness:
  "\<exists>s s'. main_start sample_main_env 3 {0, 1, 2, 3} sample_app sample_history = Some s \<and>
     dispatcher_run (main_program sample_main_env) ([[Fd 6, Fd 4]] @ [[SignalFd 1]]) s = Some (True, s') \<and>
     \<not> ss_connected (b_state (batteries s' ! 0)) \<and>
     respond (batteries s') [\<lparr>sl_battery = 2, sl_mirror = Some 0, sl_module_count = 1\<rparr>] 0 (default_frame\<lparr>f_adr := 2\<rparr>) = Some None"
proof -
  obtain s s' p where r: "main_start sample_main_env 3 {0, 1, 2, 3} sample_app sample_history = Some s"
    "dispatcher_run (main_program sample_main_env) ([[Fd 6, Fd 4]] @ [[SignalFd 1]]) s = Some (True, s')"
    "mt_ports s' 0 = Some p" "ut_fd (po_t p) = -1" using sample_main by blast
  have b: "0 < length (ac_batteries sample_app)" "serial_battery (ac_batteries sample_app ! 0)"
    by (simp_all add: sample_app_def serial_battery_def sample_config_def)
  from serial_battery_follows_port [OF sample_main_ok r(1,2) b] r(3,4)
  have f: "\<not> ss_connected (b_state (batteries s' ! 0))"
    "\<And>slots now f. (case sl_mirror (slot_at slots f) of Some k \<Rightarrow> k | None \<Rightarrow> sl_battery (slot_at slots f)) = 0 \<Longrightarrow>
      respond (batteries s') slots now f = Some None"
    by auto
  have "respond (batteries s') [\<lparr>sl_battery = 2, sl_mirror = Some 0, sl_module_count = 1\<rparr>] 0 (default_frame\<lparr>f_adr := 2\<rparr>) = Some None"
    by (rule f(2)) (simp add: kBaseAddress_def)
  then show ?thesis using r f(1) by blast
qed

text \<open>C14: Whatever the configuration, if the process starts with finitely many open descriptors: a signal ends the loop after the batch it came in, whatever else is ready; then stopping the batteries and
  the inverter closes every port, no handler of a transport or of a queue stays registered, and the history is as the
  loop left it.\<close>

theorem shutdown_releases_ports:
  assumes "fds_ok fds" "main_start env wake_fd fds cfg h = Some s"
    and "dispatcher_run (main_program env) (before @ [b]) s = Some (ended, s')" "SignalFd (Suc k) \<in> set b"
  shows "ended \<and> dispatcher_run (main_program env) (before @ b # after) s = Some (True, s') \<and>
    mt_open (main_stop s') = main_base s \<and> mt_history (main_stop s') = mt_history s' \<and>
    (\<forall>x i uh. dp_handlers (mt_disp (main_stop s')) x \<noteq> Some (PortHandler i uh) \<and>
      dp_handlers (mt_disp (main_stop s')) x \<noteq> Some (PumpHandler i))"
proof -
  note i = main_start_inv [OF assms(1,2)]
  have "running s s" using i(1) by (simp add: running_def)
  note e = main.run_after_signal [OF this assms(4,3), of after]
  note r = main_stop_releases [OF main_run_inv [OF assms(1-3)] i(5-7) i(2)]
  show ?thesis using e r by simp
qed

lemma shutdown_releases_ports_witness:
  "\<exists>s s'. main_start sample_main_env 3 {0, 1, 2, 3} sample_app sample_history = Some s \<and>
     dispatcher_run (main_program sample_main_env) ([[Fd 6, Fd 4]] @ [[SignalFd 1], [Fd 6]]) s = Some (True, s') \<and>
     mt_open (main_stop s') = main_base s"
proof -
  obtain s s' where r: "main_start sample_main_env 3 {0, 1, 2, 3} sample_app sample_history = Some s"
    "dispatcher_run (main_program sample_main_env) ([[Fd 6, Fd 4]] @ [[SignalFd 1]]) s = Some (True, s')"
    using sample_main by blast
  from shutdown_releases_ports [OF sample_main_ok r, of 0 "[[Fd 6]]"] r show ?thesis by simp
qed

end
