(* ===== verification/History_Open.thy ===== *)
theory History_Open
  imports Daily
begin

text \<open>
  src/history.cpp, the constructor and the destructor of \<open>History\<close>: its two connections and two
  statements, and the tables it declares.  Each call of SQLite succeeds or fails as the environment
  says.  An exception that leaves the constructor does not run the destructor, so what was open stays open.
\<close>

section \<open>The schema\<close>

text \<open>
  What \<open>kSchemaSql\<close> declares: primary keys, \<open>UNIQUE\<close> columns, references, and the ids that
  \<open>AUTOINCREMENT\<close> numbers from 1.  \<open>CREATE TABLE IF NOT EXISTS\<close> leaves the rows there are.
\<close>

definition schema_ok :: "Database \<Rightarrow> bool" where
  "schema_ok db \<longleftrightarrow>
     distinct (map fst (db_batteries db)) \<and> distinct (map snd (db_batteries db)) \<and>
     list_all (\<lambda>b. 0 < fst b) (db_batteries db) \<and>
     distinct (map sr_id (db_samples db)) \<and>
     list_all (\<lambda>r. sr_battery_id r \<in> fst ` set (db_batteries db)) (db_samples db) \<and>
     distinct (map (\<lambda>d. (dr_battery_id d, dr_day d)) (db_daily db)) \<and>
     list_all (\<lambda>d. dr_battery_id d \<in> fst ` set (db_batteries db)) (db_daily db) \<and>
     distinct (map (\<lambda>c. (cr_sample_id c, cr_cell_idx c)) (db_cells db)) \<and>
     list_all (\<lambda>c. cr_sample_id c \<in> sr_id ` set (db_samples db)) (db_cells db)"

section \<open>Opening\<close>

text \<open>The statements \<open>open_db\<close> executes, in their order.\<close>

datatype OpenSql = JournalModeWal | SynchronousNormal | TempStoreMemory | ForeignKeysOn | SchemaSql

definition open_statements :: "OpenSql list" where
  "open_statements = [JournalModeWal, SynchronousNormal, TempStoreMemory, ForeignKeysOn, SchemaSql]"

text \<open>The answers of SQLite; a connection that cannot be opened may still get a handle.\<close>

record OpenEnv =
  oe_open :: bool
  oe_handle :: bool
  oe_exec :: "OpenSql \<Rightarrow> bool"
  oe_load :: bool
  oe_load_rows :: "nat option"
  oe_read_open :: bool
  oe_read_handle :: bool
  oe_sample_stmt :: bool
  oe_cell_stmt :: bool

record HistoryObj =
  ho_db_path :: string
  ho_db :: bool
  ho_rdb :: bool
  ho_insert_sample_stmt :: bool
  ho_insert_cell_stmt :: bool
  ho_state :: HistoryState

datatype history_error = CannotOpenDb string | SqlFailed OpenSql | PrepareFailed

text \<open>\<open>Inl\<close> is an exception, with the object as it was then.\<close>

definition open_db :: "OpenEnv \<Rightarrow> HistoryObj \<Rightarrow> history_error \<times> HistoryObj + HistoryObj" where
  "open_db env h =
    (let h = h\<lparr>ho_db := oe_open env \<or> oe_handle env\<rparr>
     in if \<not> oe_open env then Inl (CannotOpenDb (ho_db_path h), h\<lparr>ho_db := False\<rparr>)
        else case find (\<lambda>sql. \<not> oe_exec env sql) open_statements of
            Some sql \<Rightarrow> Inl (SqlFailed sql, h)
          | None \<Rightarrow>
              let h = (if oe_load env then h\<lparr>ho_state := load_battery_cache (oe_load_rows env) (ho_state h)\<rparr> else h);
                  h = h\<lparr>ho_rdb := oe_read_open env \<or> oe_read_handle env\<rparr>
              in Inr (if \<not> oe_read_open env then h\<lparr>ho_rdb := False\<rparr> else h))"

definition prepare_statements :: "OpenEnv \<Rightarrow> HistoryObj \<Rightarrow> history_error \<times> HistoryObj + HistoryObj" where
  "prepare_statements env h =
    (if \<not> oe_sample_stmt env then Inl (PrepareFailed, h)
     else let h = h\<lparr>ho_insert_sample_stmt := True\<rparr>
          in if \<not> oe_cell_stmt env then Inl (PrepareFailed, h)
             else Inr (h\<lparr>ho_insert_cell_stmt := True\<rparr>))"

definition history_new :: "OpenEnv \<Rightarrow> string \<Rightarrow> int \<Rightarrow> Database \<Rightarrow> history_error \<times> HistoryObj + HistoryObj" where
  "history_new env db_path ram_window db =
    (let h = \<lparr>ho_db_path = db_path, ho_db = False, ho_rdb = False, ho_insert_sample_stmt = False,
          ho_insert_cell_stmt = False,
          ho_state = \<lparr>hs_ram_window = ram_window, hs_ram = [], hs_cache = [], hs_db = db\<rparr>\<rparr>
     in case open_db env h of Inl e \<Rightarrow> Inl e | Inr h \<Rightarrow> prepare_statements env h)"

definition history_destroy :: "HistoryObj \<Rightarrow> HistoryObj" where
  "history_destroy h =
    (let h = (if ho_insert_sample_stmt h then h\<lparr>ho_insert_sample_stmt := False\<rparr> else h);
         h = (if ho_insert_cell_stmt h then h\<lparr>ho_insert_cell_stmt := False\<rparr> else h);
         h = (if ho_rdb h then h\<lparr>ho_rdb := False\<rparr> else h)
     in if ho_db h then h\<lparr>ho_db := False\<rparr> else h)"

section \<open>The operations with their connections\<close>

definition history_append ::
    "AppendEnv \<Rightarrow> int \<Rightarrow> string \<Rightarrow> int \<Rightarrow> JkCellInfo \<Rightarrow> JkPackInfo \<Rightarrow> HistoryObj \<Rightarrow> HistoryObj" where
  "history_append env now name ts cells pack h =
     h\<lparr>ho_state := append_sample (env\<lparr>ae_statements := ho_insert_sample_stmt h \<and> ho_insert_cell_stmt h\<rparr>)
        now name ts cells pack (ho_state h)\<rparr>"

definition history_range :: "QueryEnv \<Rightarrow> string \<Rightarrow> int \<Rightarrow> int \<Rightarrow> int \<Rightarrow> int \<Rightarrow> HistoryObj \<Rightarrow> TelemetrySample list \<times> HistoryObj" where
  "history_range q name from_ms to_ms limit step_ms h =
    (if \<not> ho_rdb h then ([], h)
     else let (rows, s) = range_by_name q name from_ms to_ms limit step_ms (ho_state h) in (rows, h\<lparr>ho_state := s\<rparr>))"

definition history_range_by_id :: "QueryEnv \<Rightarrow> int \<Rightarrow> int \<Rightarrow> int \<Rightarrow> int \<Rightarrow> int \<Rightarrow> HistoryObj \<Rightarrow> TelemetrySample list" where
  "history_range_by_id q bat_id from_ms to_ms limit step_ms h =
    (if \<not> ho_rdb h \<or> bat_id \<le> 0 then [] else range_by_id q bat_id from_ms to_ms limit step_ms (ho_state h))"

definition history_daily ::
    "QueryEnv \<Rightarrow> (int \<Rightarrow> nat \<times> nat \<times> nat) \<Rightarrow> int \<Rightarrow> nat \<Rightarrow> nat \<Rightarrow> HistoryObj \<Rightarrow> DailyEnergy list" where
  "history_daily q civil bat_id year month h =
    (if \<not> ho_rdb h then [] else get_daily_energy q civil bat_id year month (ho_state h))"

section \<open>Every operation keeps the schema\<close>

text \<open>The cache names rows of the table.\<close>

definition cache_sound :: "HistoryState \<Rightarrow> bool" where
  "cache_sound h \<longleftrightarrow> distinct (map fst (hs_cache h)) \<and>
     (\<forall>(n, i) \<in> set (hs_cache h). (i, n) \<in> set (db_batteries (hs_db h)))"

definition cache_full :: "HistoryState \<Rightarrow> bool" where
  "cache_full h \<longleftrightarrow> (\<forall>(i, n) \<in> set (db_batteries (hs_db h)). (n, i) \<in> set (hs_cache h))"

definition history_ok :: "HistoryState \<Rightarrow> bool" where
  "history_ok h \<longleftrightarrow> schema_ok (hs_db h) \<and> cache_sound h"

text \<open>The ids SQLite gives: positive, and not in the table.\<close>

definition fresh_id :: "int option \<Rightarrow> int set \<Rightarrow> bool" where
  "fresh_id new_id ids \<longleftrightarrow> (\<forall>i. new_id = Some i \<longrightarrow> 0 < i \<and> i \<notin> ids)"

lemma row_id_cases:
  assumes "history_ok h" "fresh_id (re_insert env) (fst ` set (db_batteries (hs_db h)))" "battery_row_id env name create h = (i, h')"
  obtains "h' = h" "i < 0" | "h' = h" "(name, i) \<in> set (hs_cache h)"
    | "h' = h\<lparr>hs_cache := (name, i) # hs_cache h\<rparr>" "(i, name) \<in> set (db_batteries (hs_db h))" "name \<notin> fst ` set (hs_cache h)"
    | "h' = h\<lparr>hs_db := (hs_db h)\<lparr>db_batteries := db_batteries (hs_db h) @ [(i, name)]\<rparr>, hs_cache := (name, i) # hs_cache h\<rparr>"
      "0 < i" "i \<notin> fst ` set (db_batteries (hs_db h))" "name \<notin> snd ` set (db_batteries (hs_db h))" "name \<notin> fst ` set (hs_cache h)"
proof (cases "map_of (hs_cache h) name")
  case (Some k)
  then have "h' = h" "(name, i) \<in> set (hs_cache h)"
    using assms(3) by (auto simp: battery_row_id_def dest: map_of_SomeD)
  then show ?thesis by (rule that(2))
next
  case None
  then have n: "name \<notin> fst ` set (hs_cache h)" by (simp add: map_of_eq_None_iff)
  have pos: "0 < fst b" if "b \<in> set (db_batteries (hs_db h))" for b
    using assms(1) that by (auto simp: history_ok_def schema_ok_def list_all_iff)
  show ?thesis
  proof (cases "find (\<lambda>b. snd b = name) (db_batteries (hs_db h))")
    case (Some b)
    then have b: "b \<in> set (db_batteries (hs_db h))" "snd b = name" by (auto simp: find_Some_iff)
    show ?thesis
    proof (cases "re_select env")
      case True
      then have "h' = h\<lparr>hs_cache := (name, i) # hs_cache h\<rparr>" "i = fst b"
        using assms(3) None Some pos [OF b(1)] by (auto simp: battery_row_id_def Let_def)
      then show ?thesis using that(3) b n by (metis prod.collapse)
    next
      case False
      then show ?thesis using assms(3) None Some
        by (intro that(1)) (auto simp: battery_row_id_def Let_def split: option.splits if_splits)
    qed
  next
    case nf: None
    then have m: "name \<notin> snd ` set (db_batteries (hs_db h))" by (auto simp: find_None_iff)
    show ?thesis
    proof (cases "create \<and> re_insert env \<noteq> None")
      case True
      then obtain k where k: "re_insert env = Some k" "0 < k" "k \<notin> fst ` set (db_batteries (hs_db h))"
        using assms(2) by (auto simp: fresh_id_def)
      then have "h' = h\<lparr>hs_db := (hs_db h)\<lparr>db_batteries := db_batteries (hs_db h) @ [(i, name)]\<rparr>, hs_cache := (name, i) # hs_cache h\<rparr>" "i = k"
        using assms(3) None nf True by (cases "re_select env"; auto simp: battery_row_id_def Let_def)+
      then show ?thesis using k m n by (intro that(4)) simp_all
    next
      case False
      then have "h' = h \<and> i < 0"
        using assms(3) None nf
        by (cases "re_select env") (auto simp: battery_row_id_def Let_def split: option.splits if_splits)
      then show ?thesis by (intro that(1)) simp_all
    qed
  qed
qed

lemma row_id_ok:
  assumes "history_ok h" "fresh_id (re_insert env) (fst ` set (db_batteries (hs_db h)))" "battery_row_id env name create h = (i, h')"
  shows "history_ok h'" "cache_full h \<Longrightarrow> cache_full h'" "0 \<le> i \<Longrightarrow> i \<in> fst ` set (db_batteries (hs_db h'))"
    "db_samples (hs_db h') = db_samples (hs_db h)" "db_cells (hs_db h') = db_cells (hs_db h)"
    "db_daily (hs_db h') = db_daily (hs_db h)"
proof -
  have sch: "schema_ok (hs_db h)" and c: "cache_sound h" using assms(1) by (simp_all add: history_ok_def)
  have "history_ok h' \<and> (cache_full h \<longrightarrow> cache_full h') \<and> (0 \<le> i \<longrightarrow> i \<in> fst ` set (db_batteries (hs_db h'))) \<and>
    db_samples (hs_db h') = db_samples (hs_db h) \<and> db_cells (hs_db h') = db_cells (hs_db h) \<and>
    db_daily (hs_db h') = db_daily (hs_db h)"
    using assms
  proof (cases rule: row_id_cases)
    case 2
    then have "i \<in> fst ` set (db_batteries (hs_db h))" using c by (force simp: cache_sound_def)
    then show ?thesis using 2(1) assms(1) by simp
  next
    case 3
    then have "cache_sound h'" using c by (auto simp: cache_sound_def)
    then show ?thesis using 3(1,2) sch by (force simp: history_ok_def cache_full_def)
  next
    case 4
    then have "cache_sound h'" using c by (auto simp: cache_sound_def)
    moreover have "schema_ok (hs_db h')" using sch 4 by (auto simp: schema_ok_def list_all_iff)
    ultimately show ?thesis using 4(1) by (auto simp: history_ok_def cache_full_def)
  qed (use assms(1) in auto)
  then show "history_ok h'" "cache_full h \<Longrightarrow> cache_full h'" "0 \<le> i \<Longrightarrow> i \<in> fst ` set (db_batteries (hs_db h'))"
    "db_samples (hs_db h') = db_samples (hs_db h)" "db_cells (hs_db h') = db_cells (hs_db h)"
    "db_daily (hs_db h') = db_daily (hs_db h)" by blast+
qed

lemma append_rows_ok:
  assumes "schema_ok db" "fresh_id (ae_sample env) (sr_id ` set (db_samples db))" "bat \<in> fst ` set (db_batteries db)"
  shows "schema_ok (append_rows env bat ts cells pack db)" "db_batteries (append_rows env bat ts cells pack db) = db_batteries db"
proof -
  have "schema_ok (append_rows env bat ts cells pack db) \<and> db_batteries (append_rows env bat ts cells pack db) = db_batteries db"
  proof (cases "append_rows env bat ts cells pack db = db")
    case False
    then obtain i where i: "ae_sample env = Some i" and db': "append_rows env bat ts cells pack db =
        db\<lparr>db_samples := db_samples db @ [sample_row i bat ts cells pack],
           db_cells := db_cells db @ map (cell_row i cells) [0..<length (voltages_mv cells)]\<rparr>"
      using append_rows_cases [of env bat ts cells pack db] by auto
    have fresh: "i \<notin> sr_id ` set (db_samples db)" using assms(2) i by (simp add: fresh_id_def)
    have row: "sr_id (sample_row i bat ts cells pack) = i" "sr_battery_id (sample_row i bat ts cells pack) = bat"
      "cr_sample_id (cell_row i cells k) = i" "cr_cell_idx (cell_row i cells k) = int k" for k
      by (simp_all add: sample_row_def cell_row_def Let_def)
    have "cr_sample_id c \<noteq> i" if "c \<in> set (db_cells db)" for c
      using assms(1) that fresh by (auto simp: schema_ok_def list_all_iff)
    then show ?thesis using assms(1,3) fresh
      by (auto simp: db' schema_ok_def list_all_iff row distinct_map inj_on_def)
  qed (use assms(1) in simp)
  then show "schema_ok (append_rows env bat ts cells pack db)" "db_batteries (append_rows env bat ts cells pack db) = db_batteries db"
    by blast+
qed

lemma append_ok:
  assumes "history_ok h" "fresh_id (re_insert (ae_new_battery env)) (fst ` set (db_batteries (hs_db h)))"
    and "fresh_id (ae_sample env) (sr_id ` set (db_samples (hs_db h)))"
  shows "history_ok (append_sample env now name ts cells pack h)"
    "cache_full h \<Longrightarrow> cache_full (append_sample env now name ts cells pack h)"
proof -
  define h1 where "h1 = push_ram now \<lparr>ts_battery_id = name, ts_time = ts, ts_cells = cells, ts_pack = pack\<rparr> h"
  have h1: "hs_db h1 = hs_db h" "hs_cache h1 = hs_cache h" by (simp_all add: h1_def push_ram_def Let_def)
  then have ok1: "history_ok h1" "cache_full h1 = cache_full h" using assms(1)
    by (simp_all add: history_ok_def cache_sound_def cache_full_def)
  obtain bat h2 where b: "battery_row_id (ae_new_battery env) name True h1 = (bat, h2)" by fastforce
  note r = row_id_ok [OF ok1(1) assms(2) [folded h1(1)] b]
  have h': "append_sample env now name ts cells pack h = (if \<not> ae_statements env then h1 else if bat < 0 then h2
      else h2\<lparr>hs_db := append_rows env bat ts cells pack (hs_db h2)\<rparr>)"
    using b by (simp add: append_sample_def h1_def Let_def)
  have a: "schema_ok (append_rows env bat ts cells pack (hs_db h2))"
    "db_batteries (append_rows env bat ts cells pack (hs_db h2)) = db_batteries (hs_db h2)" if "0 \<le> bat"
    using append_rows_ok [of "hs_db h2" env bat] r(1,3,4) h1 assms(3) that by (simp_all add: history_ok_def)
  show "history_ok (append_sample env now name ts cells pack h)"
    "cache_full h \<Longrightarrow> cache_full (append_sample env now name ts cells pack h)"
    using ok1 r(1,2) a by (auto simp: h' history_ok_def cache_sound_def cache_full_def)
qed

lemma aggregate_day_ok:
  assumes "schema_ok db" "fst p \<in> fst ` set (db_batteries db)"
  shows "schema_ok (aggregate_day env p db)"
  using assms
  by (auto simp: schema_ok_def aggregate_day_def insert_daily_def Let_def list_all_iff distinct_map inj_on_def)

lemma aggregate_days_ok:
  "schema_ok db \<Longrightarrow> \<forall>p \<in> set ps. fst p \<in> fst ` set (db_batteries db) \<Longrightarrow> schema_ok (fold (aggregate_day env) ps db)"
  by (induction ps arbitrary: db) (simp_all add: aggregate_day_ok)

lemma purge_ok: "schema_ok db \<Longrightarrow> schema_ok (purge_samples x db)"
  unfolding schema_ok_def purge_samples_def Let_def list_all_iff
  by (simp add: distinct_map_filter image_iff) blast

lemma aggregate_ok:
  assumes "schema_ok db"
  shows "schema_ok (aggregate_pending env now db)"
    "db_batteries (aggregate_pending env now db) = db_batteries db"
proof -
  let ?ps = "rows_until (ag_pending env) (pending_days (day_of now * day_ms) db)"
  have "\<forall>p \<in> set ?ps. fst p \<in> fst ` set (db_batteries db)"
    using assms rows_until_sub(1) [of "ag_pending env" "pending_days (day_of now * day_ms) db"]
    by (auto simp: pending_days_def schema_ok_def list_all_iff)
  then have "schema_ok (fold (aggregate_day env) ?ps db)" by (rule aggregate_days_ok [OF assms])
  then show "schema_ok (aggregate_pending env now db)"
    using assms purge_ok by (simp add: aggregate_pending_def Let_def)
  have "db_batteries (fold (aggregate_day env) ps db) = db_batteries db" for ps by (induction ps arbitrary: db) simp_all
  then show "db_batteries (aggregate_pending env now db) = db_batteries db"
    by (simp add: aggregate_pending_def purge_samples_def Let_def)
qed

section \<open>Opening\<close>

lemma open_statements_find: "find (\<lambda>sql. \<not> oe_exec env sql) open_statements = None \<longleftrightarrow> (\<forall>sql. oe_exec env sql)"
  by (auto simp: open_statements_def find_None_iff) (metis OpenSql.exhaust)

lemma history_new_cases:
  shows "history_new env path w db = Inr h \<Longrightarrow>
      h = \<lparr>ho_db_path = path, ho_db = True, ho_rdb = oe_read_open env, ho_insert_sample_stmt = True, ho_insert_cell_stmt = True,
        ho_state = (if oe_load env then load_battery_cache (oe_load_rows env) else id) \<lparr>hs_ram_window = w, hs_ram = [], hs_cache = [], hs_db = db\<rparr>\<rparr>"
    and "(\<exists>h. history_new env path w db = Inr h) \<longleftrightarrow>
      oe_open env \<and> (\<forall>sql. oe_exec env sql) \<and> oe_sample_stmt env \<and> oe_cell_stmt env"
  by (auto simp: history_new_def open_db_def prepare_statements_def open_statements_find [symmetric] Let_def
      split: option.splits if_splits)

lemma distinct_rows_until: "distinct (map f xs) \<Longrightarrow> distinct (map f (rows_until n xs))"
  by (cases n) (simp_all add: distinct_take flip: take_map)

lemma loaded_cache:
  assumes "schema_ok db"
  shows "history_ok (load_battery_cache n \<lparr>hs_ram_window = w, hs_ram = [], hs_cache = [], hs_db = db\<rparr>)"
    "cache_full (load_battery_cache None \<lparr>hs_ram_window = w, hs_ram = [], hs_cache = [], hs_db = db\<rparr>)"
    "history_ok \<lparr>hs_ram_window = w, hs_ram = [], hs_cache = [], hs_db = db\<rparr>"
proof -
  have "distinct (map snd (rows_until n (db_batteries db)))"
    using assms by (intro distinct_rows_until) (simp add: schema_ok_def)
  then show "history_ok (load_battery_cache n \<lparr>hs_ram_window = w, hs_ram = [], hs_cache = [], hs_db = db\<rparr>)"
    using assms rows_until_sub(1) [of n "db_batteries db"]
    by (auto simp: history_ok_def load_battery_cache_def cache_sound_def rev_map [symmetric] comp_def case_prod_unfold)
qed (use assms in \<open>auto simp: history_ok_def load_battery_cache_def cache_sound_def cache_full_def\<close>)

section \<open>What can happen to a history\<close>

text \<open>
  One call of an operation, with every answer SQLite may give; the ids of new rows are fresh, as
  \<open>AUTOINCREMENT\<close> promises.
\<close>

inductive history_step :: "HistoryState \<Rightarrow> HistoryState \<Rightarrow> bool" where
  Ensure: "fresh_id (re_insert env) (fst ` set (db_batteries (hs_db h))) \<Longrightarrow>
    history_step h (snd (ensure_battery_id env name h))"
| Append: "fresh_id (re_insert (ae_new_battery env)) (fst ` set (db_batteries (hs_db h))) \<Longrightarrow>
    fresh_id (ae_sample env) (sr_id ` set (db_samples (hs_db h))) \<Longrightarrow>
    history_step h (append_sample env now name ts cells pack h)"
| Query: "history_step h (snd (range_by_name q name from_ms to_ms limit step_ms h))"
| Aggregate: "history_step h (h\<lparr>hs_db := aggregate_pending env now (hs_db h)\<rparr>)"

inductive history_reachable :: "OpenEnv \<Rightarrow> Database \<Rightarrow> HistoryState \<Rightarrow> bool" for env db where
  Opened: "history_new env path w db = Inr h \<Longrightarrow> history_reachable env db (ho_state h)"
| Step: "history_reachable env db h \<Longrightarrow> history_step h h' \<Longrightarrow> history_reachable env db h'"

lemma history_step_ok:
  assumes "history_step h h'" "history_ok h"
  shows "history_ok h' \<and> (cache_full h \<longrightarrow> cache_full h')"
  using assms
proof (cases rule: history_step.cases)
  case (Ensure env name)
  obtain i where "battery_row_id env name True h = (i, h')"
    using Ensure by (cases "battery_row_id env name True h") (simp add: ensure_battery_id_def)
  from row_id_ok(1,2) [OF assms(2) Ensure(2) this] show ?thesis by blast
next
  case (Append env now name ts cells pack)
  then show ?thesis using append_ok [OF assms(2)] by simp
next
  case (Query q name from_ms to_ms limit step_ms)
  let ?env = "\<lparr>re_select = qe_select_id q, re_insert = None\<rparr>"
  obtain i where r: "battery_row_id ?env name False h = (i, h')"
    using Query by (cases "battery_row_id ?env name False h") (auto simp: range_by_name_def split: if_splits)
  have "fresh_id (re_insert ?env) ids" for ids by (simp add: fresh_id_def)
  from row_id_ok(1,2) [OF assms(2) this r] show ?thesis by blast
next
  case (Aggregate env now)
  then show ?thesis
    using assms(2) aggregate_ok by (auto simp: history_ok_def cache_sound_def cache_full_def)
qed

lemma history_reachable_ok:
  assumes "history_reachable env db h" "schema_ok db"
  shows "history_ok h \<and> (oe_load env \<and> oe_load_rows env = None \<longrightarrow> cache_full h)"
  using assms
proof (induction rule: history_reachable.induct)
  case (Opened path w h)
  then show ?case using history_new_cases(1) [OF Opened(1)] loaded_cache [OF Opened(2), where w = w] by auto
next
  case (Step h h')
  then show ?case using history_step_ok by blast
qed

definition sample_open :: OpenEnv where
  "sample_open = \<lparr>oe_open = True, oe_handle = True, oe_exec = (\<lambda>_. True), oe_load = True, oe_load_rows = None, oe_read_open = True,
     oe_read_handle = True, oe_sample_stmt = True, oe_cell_stmt = True\<rparr>"

section \<open>Properties\<close>

text \<open>C26: The tables keep their declared types: from the opening on, whatever operations run and whichever of their
  statements SQLite fails (a lookup of a battery that fails included, after which the insert of a name that is
  there is refused), keys stay unique and every reference names a row.  The only insert that can meet a
  constraint is that one; and the list of batteries is sorted, names nobody twice, and is the whole table
  unless the cache could not be filled wholly at the opening.\<close>

theorem tables_stay_well_typed:
  assumes "schema_ok db" "history_reachable env db h"
  shows "schema_ok (hs_db h) \<and> sorted (map fst (battery_list h)) \<and> distinct (map snd (battery_list h)) \<and>
    set (battery_list h) \<subseteq> set (db_batteries (hs_db h)) \<and>
    (oe_load env \<and> oe_load_rows env = None \<longrightarrow> set (battery_list h) = set (db_batteries (hs_db h)))"
proof -
  have ok: "history_ok h" "oe_load env \<and> oe_load_rows env = None \<longrightarrow> cache_full h" using history_reachable_ok [OF assms(2,1)] by simp_all
  have "mset (map snd (battery_list h)) = mset (map fst (hs_cache h))"
    by (simp add: battery_list_def case_prod_unfold flip: mset_map) (simp add: multiset.map_comp comp_def)
  then have "distinct (map snd (battery_list h)) = distinct (map fst (hs_cache h))" by (rule mset_eq_imp_distinct_iff)
  then show ?thesis using ok
    by (auto simp: history_ok_def cache_sound_def cache_full_def battery_list_def)
qed

lemma tables_stay_well_typed_witness:
  "\<exists>h. history_reachable sample_open (hs_db sample_history) h \<and> length (db_samples (hs_db h)) = 1 \<and>
     set (battery_list h) = set (db_batteries (hs_db h))"
proof -
  let ?h = "load_battery_cache None \<lparr>hs_ram_window = 1, hs_ram = [], hs_cache = [], hs_db = hs_db sample_history\<rparr>"
  let ?h' = "append_sample sample_env 5000 ''a'' 5000 sample_cells JkPackInfo_default ?h"
  have "history_new sample_open path 1 (hs_db sample_history) = Inr
      \<lparr>ho_db_path = path, ho_db = True, ho_rdb = True, ho_insert_sample_stmt = True, ho_insert_cell_stmt = True, ho_state = ?h\<rparr>" for path
    by (simp add: history_new_def open_db_def prepare_statements_def open_statements_def sample_open_def)
  then have "history_reachable sample_open (hs_db sample_history) ?h" using history_reachable.Opened by fastforce
  moreover have "history_step ?h ?h'"
    by (rule history_step.Append) (simp_all add: fresh_id_def sample_env_def sample_history_def load_battery_cache_def)
  ultimately have r: "history_reachable sample_open (hs_db sample_history) ?h'" by (rule history_reachable.Step)
  have ok: "schema_ok (hs_db sample_history)" by (simp add: schema_ok_def sample_history_def)
  have "length (db_samples (hs_db ?h')) = 1" by code_simp
  then show ?thesis using tables_stay_well_typed [OF ok r] r by (auto simp: sample_open_def)
qed

text \<open>C27: The constructor gives a history with its write connection and both statements, or throws; it throws exactly
  when a call it needs fails, and the connection then stays open unless it was the opening that failed.  In the
  history it gives, the guards of \<open>append\<close> never fire; without a read connection every query is empty while
  samples are stored all the same.\<close>

theorem opening_is_all_or_nothing:
  "case history_new env path w db of
     Inl (e, h) \<Rightarrow> \<not> (oe_open env \<and> (\<forall>sql. oe_exec env sql) \<and> oe_sample_stmt env \<and> oe_cell_stmt env) \<and>
       (ho_db h \<longleftrightarrow> oe_open env) \<and> hs_db (ho_state h) = db
   | Inr h \<Rightarrow> ho_db h \<and> history_destroy h = h\<lparr>ho_db := False, ho_rdb := False, ho_insert_sample_stmt := False, ho_insert_cell_stmt := False\<rparr> \<and>
       history_append aenv now name ts cells pack h =
         h\<lparr>ho_state := append_sample (aenv\<lparr>ae_statements := True\<rparr>) now name ts cells pack (ho_state h)\<rparr> \<and>
       (\<not> oe_read_open env \<longrightarrow> fst (history_range q name from_ms to_ms limit step_ms h) = [] \<and>
         history_range_by_id q bat from_ms to_ms limit step_ms h = [] \<and> history_daily q civil bat year month h = [])"
proof (cases "history_new env path w db")
  case (Inl e)
  then have "\<not> (\<exists>h. history_new env path w db = Inr h)" by auto
  then have n: "\<not> (oe_open env \<and> (\<forall>sql. oe_exec env sql) \<and> oe_sample_stmt env \<and> oe_cell_stmt env)"
    by (simp only: history_new_cases(2) not_False_eq_True)
  have "(ho_db (snd e) \<longleftrightarrow> oe_open env) \<and> hs_db (ho_state (snd e)) = db"
    using Inl by (auto simp: history_new_def open_db_def prepare_statements_def load_battery_cache_def Let_def
        split: option.splits if_splits)
  then show ?thesis using Inl n by (simp add: case_prod_unfold)
next
  case (Inr h)
  note c = history_new_cases(1) [OF Inr]
  show ?thesis
    by (simp add: Inr c history_destroy_def history_append_def history_range_def history_range_by_id_def history_daily_def Let_def)
qed

text \<open>Everything opens but the read connection.\<close>

lemma opening_is_all_or_nothing_witness:
  "\<exists>h. history_new (sample_open\<lparr>oe_read_open := False\<rparr>) ''db'' 1 (hs_db sample_history) = Inr h \<and>
     fst (history_range good_query ''a'' 0 9 (-1) 0 h) = []"
proof -
  obtain h where h: "history_new (sample_open\<lparr>oe_read_open := False\<rparr>) ''db'' 1 (hs_db sample_history) = Inr h"
    by (simp add: history_new_def open_db_def prepare_statements_def open_statements_def sample_open_def)
  from opening_is_all_or_nothing [where env = "sample_open\<lparr>oe_read_open := False\<rparr>" and path = "''db''" and w = 1
      and db = "hs_db sample_history"] h
  show ?thesis by (simp add: sample_open_def)
qed

end
