(* ===== verification/Http_Loop.thy ===== *)
theory Http_Loop
  imports Http Os_Primitives
begin

text \<open>
  src/http_server.cpp, the life of the server: its constructor and destructor, and its worker thread with the
  event loop of libevent.  libevent is a library: whether it can make an event base, a server and a socket is a
  choice of the environment, and of its loop the model has what its manual says, that \<open>event_base_loopbreak\<close> ends
  a loop that is running, and has no effect when none is.
\<close>

section \<open>Construction and destruction\<close>

record HttpObj =
  hp_port :: "16 word"
  hp_base :: bool
  hp_http :: bool
  hp_sweep_ev :: bool
  hp_thread :: Thread
  hp_server :: HttpServer

datatype http_error = EventBaseFailed | EvhttpFailed | CannotBind "16 word"

record HttpOpenEnv =
  he_base :: bool
  he_evhttp :: bool
  he_bind :: "16 word \<Rightarrow> bool"

text \<open>The port of the configuration is an \<open>int\<close>; the parameter has 16 bits.  \<open>Inl\<close> is an exception.\<close>

definition http_new :: "HttpOpenEnv \<Rightarrow> i32 \<Rightarrow> string \<Rightarrow> http_error \<times> HttpObj + HttpObj" where
  "http_new env port root_dir =
    (let s = \<lparr>hp_port = ucast port, hp_base = False, hp_http = False, hp_sweep_ev = False,
          hp_thread = thread_init, hp_server = \<lparr>sv_www_root = root_dir, sv_ctxs = Map.empty\<rparr>\<rparr>
     in if \<not> he_base env then Inl (EventBaseFailed, s)
        else let s = s\<lparr>hp_base := True\<rparr>
        in if \<not> he_evhttp env then Inl (EvhttpFailed, s)
        else let s = s\<lparr>hp_http := True\<rparr>
        in if \<not> he_bind env (hp_port s) then Inl (CannotBind (hp_port s), s)
        else Inr (s\<lparr>hp_sweep_ev := True\<rparr>))"

definition http_destroy :: "HttpObj \<Rightarrow> HttpObj" where
  "http_destroy s =
    (let s = s\<lparr>hp_thread := thread_stop (hp_thread s)\<rparr>;
         s = (if hp_sweep_ev s then s\<lparr>hp_sweep_ev := False\<rparr> else s);
         s = (if hp_http s then s\<lparr>hp_http := False\<rparr> else s)
     in if hp_base s then s\<lparr>hp_base := False\<rparr> else s)"

section \<open>The worker and the thread that stops it\<close>

text \<open>Where the worker is: before \<open>event_base_dispatch\<close>, in it, or past it.\<close>

datatype loop = Before | Looping | Past

text \<open>The thread, the worker, a break of the loop that is pending, and whether the join in \<open>stop\<close> returned.\<close>

record HttpRun =
  hr_thread :: Thread
  hr_loop :: loop
  hr_break :: bool
  hr_joined :: bool

definition http_started :: HttpRun where
  "http_started = \<lparr>hr_thread = thread_start thread_init, hr_loop = Before, hr_break = False, hr_joined = False\<rparr>"

definition http_on_stop :: "HttpRun \<Rightarrow> HttpRun" where
  "http_on_stop s = (if hr_loop s = Looping then s\<lparr>hr_break := True\<rparr> else s)"

text \<open>The first half of \<open>stop\<close>: the flag, and \<open>on_stop\<close> for the first caller.\<close>

definition begin_stop :: "HttpRun \<Rightarrow> HttpRun" where
  "begin_stop s =
    (if th_stopping (hr_thread s) then s
     else http_on_stop (s\<lparr>hr_thread := (hr_thread s)\<lparr>th_stopping := True, th_stop_calls := th_stop_calls (hr_thread s) + 1\<rparr>\<rparr>))"

inductive http_step :: "HttpRun \<Rightarrow> HttpRun \<Rightarrow> bool" where
  Enter: "hr_loop s = Before \<Longrightarrow> http_step s (s\<lparr>hr_loop := Looping, hr_break := False\<rparr>)"
| Leave: "hr_loop s = Looping \<Longrightarrow> hr_break s \<Longrightarrow> http_step s (s\<lparr>hr_loop := Past\<rparr>)"
| Stop: "http_step s (begin_stop s)"
| Join: "th_stopping (hr_thread s) \<Longrightarrow> hr_loop s = Past \<Longrightarrow>
    http_step s (s\<lparr>hr_thread := (hr_thread s)\<lparr>th_joinable := False\<rparr>, hr_joined := True\<rparr>)"

inductive http_reachable :: "HttpRun \<Rightarrow> bool" where
  Started: "http_reachable http_started"
| Stepped: "http_reachable s \<Longrightarrow> http_step s s' \<Longrightarrow> http_reachable s'"

inductive_cases http_stepE: "http_step s s'"

text \<open>What holds in every state: a break is of the running loop and comes from \<open>stop\<close>.\<close>

definition http_inv :: "HttpRun \<Rightarrow> bool" where
  "http_inv s \<longleftrightarrow> (hr_break s \<longrightarrow> th_stopping (hr_thread s) \<and> hr_loop s \<noteq> Before) \<and>
     (hr_loop s = Past \<longrightarrow> hr_break s) \<and> (hr_joined s \<longrightarrow> hr_loop s = Past) \<and>
     th_stop_calls (hr_thread s) = (if th_stopping (hr_thread s) then 1 else 0)"

lemma http_inv: "http_reachable s \<Longrightarrow> http_inv s"
proof (induction rule: http_reachable.induct)
  case Started
  then show ?case by (simp add: http_inv_def http_started_def thread_start_def thread_init_def)
next
  case (Stepped s s')
  from Stepped(2,3) show ?case
    by (elim http_stepE) (auto simp: http_inv_def begin_stop_def http_on_stop_def)
qed

text \<open>A stop that came before the loop: nothing breaks the loop any more.\<close>

definition stop_lost :: "HttpRun \<Rightarrow> bool" where
  "stop_lost s \<longleftrightarrow> th_stopping (hr_thread s) \<and> \<not> hr_break s \<and> hr_loop s \<noteq> Past"

lemma stop_lost_step: "http_step s s' \<Longrightarrow> stop_lost s \<Longrightarrow> \<not> hr_joined s \<Longrightarrow> stop_lost s' \<and> \<not> hr_joined s'"
  by (elim http_stepE) (auto simp: stop_lost_def begin_stop_def)

lemma stop_lost_steps:
  "http_step\<^sup>*\<^sup>* s s' \<Longrightarrow> stop_lost s \<Longrightarrow> \<not> hr_joined s \<Longrightarrow> stop_lost s' \<and> \<not> hr_joined s'"
  by (induction rule: rtranclp_induct) (auto dest: stop_lost_step)

text \<open>When a first stop returns.\<close>

lemma early_stop_stuck:
  assumes "http_inv s" "hr_loop s = Before" "http_step\<^sup>*\<^sup>* (begin_stop s) s'"
  shows "hr_loop s' \<noteq> Past \<and> \<not> hr_joined s'"
proof -
  have "stop_lost (begin_stop s)" "\<not> hr_joined (begin_stop s)"
    using assms(1,2) by (auto simp: stop_lost_def begin_stop_def http_on_stop_def http_inv_def)
  from stop_lost_steps [OF assms(3) this] show ?thesis by (simp add: stop_lost_def)
qed

lemma looping_stop_joins:
  assumes l: "hr_loop s = Looping" "\<not> th_stopping (hr_thread s)"
  shows "\<exists>s1 s2. http_step (begin_stop s) s1 \<and> http_step s1 s2 \<and> hr_joined s2"
proof -
  have b: "hr_loop (begin_stop s) = Looping" "hr_break (begin_stop s)" "th_stopping (hr_thread (begin_stop s))"
    using l by (simp_all add: begin_stop_def http_on_stop_def)
  have a: "http_step (begin_stop s) ((begin_stop s)\<lparr>hr_loop := Past\<rparr>)" by (rule http_step.Leave [OF b(1,2)])
  have j: "http_step ((begin_stop s)\<lparr>hr_loop := Past\<rparr>)
      ((begin_stop s)\<lparr>hr_loop := Past, hr_thread := (hr_thread (begin_stop s))\<lparr>th_joinable := False\<rparr>, hr_joined := True\<rparr>)"
    using http_step.Join [of "(begin_stop s)\<lparr>hr_loop := Past\<rparr>"] b(3) by simp
  show ?thesis by (intro exI conjI, rule a, rule j) simp
qed

text \<open>Before \<open>stop\<close> is called the worker is before its loop or in it, and whether the call can return is
  decided by which of the two it is.\<close>

definition stop_can_return :: "loop \<Rightarrow> bool" where
  "stop_can_return l \<longleftrightarrow> l \<noteq> Before"

lemma stop_can_return_iff:
  assumes "http_reachable s" "\<not> th_stopping (hr_thread s)"
  shows "(\<exists>s'. http_step\<^sup>*\<^sup>* (begin_stop s) s' \<and> hr_joined s') \<longleftrightarrow> stop_can_return (hr_loop s)"
proof -
  have inv: "http_inv s" by (rule http_inv [OF assms(1)])
  show ?thesis
  proof (cases "hr_loop s")
    case Before
    then show ?thesis using early_stop_stuck [OF inv Before] by (auto simp: stop_can_return_def)
  next
    case Looping
    from looping_stop_joins [OF this assms(2)] obtain s1 s2 where
      "http_step (begin_stop s) s1" "http_step s1 s2" "hr_joined s2" by blast
    then have "http_step\<^sup>*\<^sup>* (begin_stop s) s2" "hr_joined s2"
      by (auto intro: rtranclp.rtrancl_into_rtrancl)
    then show ?thesis using Looping by (auto simp: stop_can_return_def)
  next
    case Past
    then have False using inv assms(2) by (auto simp: http_inv_def)
    then show ?thesis ..
  qed
qed

section \<open>Properties\<close>

text \<open>C33: Stopping the server: \<open>stop\<close> returns only after the event loop has ended, which nothing but \<open>stop\<close> does; a
  stop that finds the loop running lets it return in two steps; but a stop that comes before the worker has
  entered the loop is lost, and then \<open>stop\<close> never returns, whatever happens after.\<close>

theorem early_stop_hangs:
  assumes "http_reachable s"
  shows "(hr_joined s \<longrightarrow> hr_loop s = Past \<and> th_stopping (hr_thread s)) \<and>
    (hr_loop s = Looping \<and> \<not> th_stopping (hr_thread s) \<longrightarrow>
      (\<exists>s1 s2. http_step (begin_stop s) s1 \<and> http_step s1 s2 \<and> hr_joined s2)) \<and>
    (hr_loop s = Before \<longrightarrow> (\<forall>s'. http_step\<^sup>*\<^sup>* (begin_stop s) s' \<longrightarrow> hr_loop s' \<noteq> Past \<and> \<not> hr_joined s'))"
proof -
  have inv: "http_inv s" by (rule http_inv [OF assms])
  have "hr_joined s \<longrightarrow> hr_loop s = Past \<and> th_stopping (hr_thread s)" using inv by (simp add: http_inv_def)
  then show ?thesis using looping_stop_joins [of s] early_stop_stuck [OF inv] by blast
qed

lemma early_stop_hangs_witness:
  "hr_loop http_started = Before \<and> \<not> (\<exists>s'. http_step\<^sup>*\<^sup>* (begin_stop http_started) s' \<and> hr_joined s')"
  using early_stop_hangs [OF http_reachable.Started] by (auto simp: http_started_def)

end
