(* ===== verification/Bridge_Main.thy ===== *)
theory Bridge_Main
  imports Main_Start History_Open Http_Loop
begin

text \<open>
  src/main.cpp as a whole: the command line and the configuration, the parts in the order they are made,
  the loop, and the end.  An exception that nothing catches ends the process.  The worker threads run
  beside this; whether the thread of the HTTP server can be joined at the end is decided by where that
  thread is when it is stopped (\<open>Http_Loop\<close>).
\<close>

section \<open>The process\<close>

text \<open>
  What the process meets: the file on disk, the answers of SQLite at the start, whether \<open>epoll\<close> and the signal
  descriptor can be made, the descriptors that are open then, the answers to the HTTP server, the batches of
  ready descriptors, and where the thread of the HTTP server is when the loop has ended.
\<close>

record ProcessEnv =
  pe_open :: OpenEnv
  pe_db :: Database
  pe_start :: StartEnv
  pe_dispatcher :: bool
  pe_wake_fd :: int
  pe_fds :: "int set"
  pe_main :: MainEnv
  pe_http :: HttpOpenEnv
  pe_batches :: "ready list list"
  pe_web :: loop

text \<open>Ended with a status, and the main thread if it was started; ended by an exception; still in the loop; or out of
  it and blocked for ever in the join of \<open>http_server.stop\<close>, with the batteries still running.\<close>

datatype outcome =
  Exited bool "(MainThread \<times> HttpObj) option" | Aborted | InLoop MainThread | StuckInStop MainThread

definition prepare_history :: "StartEnv \<Rightarrow> AppConfig \<Rightarrow> HistoryState \<Rightarrow> HistoryState" where
  "prepare_history env cfg h =
    (let h = ensure_all (se_new_id env) 0 (map bc_name (ac_batteries cfg)) h
     in h\<lparr>hs_db := aggregate_pending (se_aggregate env) (se_now env) (hs_db h)\<rparr>)"

definition run_bridge :: "ProcessEnv \<Rightarrow> AppConfig \<Rightarrow> outcome" where
  "run_bridge env cfg =
    (case history_new (pe_open env) (db_path (ac_history cfg)) (sint (ram_window_s (ac_history cfg)) * 1000) (pe_db env) of
       Inl e \<Rightarrow> Aborted
     | Inr h \<Rightarrow>
         if \<not> pe_dispatcher env then Aborted
         else case main_start (pe_main env) (pe_wake_fd env) (pe_fds env) cfg (prepare_history (pe_start env) cfg (ho_state h)) of
             None \<Rightarrow> Aborted
           | Some s \<Rightarrow>
               case http_new (pe_http env) (http_port (ac_http cfg)) (www_root (ac_http cfg)) of
                 Inl e \<Rightarrow> Aborted
               | Inr web \<Rightarrow>
                   let web = web\<lparr>hp_thread := thread_start (hp_thread web)\<rparr>
                   in case dispatcher_run (main_program (pe_main env)) (pe_batches env) s of
                       None \<Rightarrow> Aborted
                     | Some (ended, s) \<Rightarrow>
                         if \<not> ended then InLoop s
                         else if \<not> stop_can_return (pe_web env) then StuckInStop s
                         else Exited True (Some (main_stop s, http_destroy web)))"

definition bridge_main ::
    "BatteryLink \<Rightarrow> (char \<times> string) list \<Rightarrow> cfg_rc \<Rightarrow> cfg_file \<Rightarrow> ProcessEnv \<Rightarrow> outcome" where
  "bridge_main garbage args rc file env =
    (case main_config garbage args rc file of Inl ok \<Rightarrow> Exited ok None | Inr cfg \<Rightarrow> run_bridge env cfg)"

lemma start_history_prepare:
  "start_history env cfg db = prepare_history env cfg (open_history (se_load_rows env) (ac_history cfg) db)"
  by (simp add: start_history_def prepare_history_def Let_def)

section \<open>Only a signal ends the loop\<close>

definition signal_in :: "ready list list \<Rightarrow> bool" where
  "signal_in batches \<longleftrightarrow> list_ex (list_ex (\<lambda>r. case r of SignalFd k \<Rightarrow> 0 < k | _ \<Rightarrow> False)) batches"

lemma quiet_ready:
  assumes "running s0 s" "\<not> (case r of SignalFd k \<Rightarrow> 0 < k | _ \<Rightarrow> False)" "handle_ready (main_program env) r s = Some s'"
  shows "dp_stopping (mt_disp s') = dp_stopping (mt_disp s)"
proof (cases r)
  case (Fd fd)
  then show ?thesis
  proof (cases "dp_handlers (mt_disp s) fd")
    case (Some h)
    then have e: "main_exec env h s = Some s'" using assms(3) Fd by (simp add: handle_ready_def main_program_def)
    have "h \<in> ran (dp_handlers (mt_disp s))" using Some by (rule ranI)
    from main_exec_inv [OF _ this e] assms(1) show ?thesis by (simp add: running_def kept_def)
  qed (use assms(3) in \<open>simp add: handle_ready_def main_program_def\<close>)
qed (use assms(2,3) in \<open>auto simp: handle_ready_def main_program_def\<close>)

lemma quiet_batch:
  assumes "running s0 s" "\<not> list_ex (\<lambda>r. case r of SignalFd k \<Rightarrow> 0 < k | _ \<Rightarrow> False) b" "run_batch (main_program env) b s = Some s'"
  shows "dp_stopping (mt_disp s') = dp_stopping (mt_disp s)"
  using assms
proof (induction b arbitrary: s)
  case (Cons r b)
  then obtain t where t: "handle_ready (main_program env) r s = Some t" "run_batch (main_program env) b t = Some s'"
    by (auto split: option.splits)
  have "dp_stopping (mt_disp t) = dp_stopping (mt_disp s)" using quiet_ready [OF Cons.prems(1) _ t(1)] Cons.prems(2) by simp
  moreover have "running s0 t" by (rule main.inv_ready [OF Cons.prems(1) t(1)])
  ultimately show ?case using Cons.IH [OF _ _ t(2)] Cons.prems(2) by simp
qed simp

lemma quiet_run:
  assumes "running s0 s" "\<not> dp_stopping (mt_disp s)" "\<not> signal_in bs" "dispatcher_run (main_program env) bs s = Some (ended, s')"
  shows "\<not> ended"
  using assms
proof (induction bs arbitrary: s)
  case (Cons b bs)
  then obtain t where t: "run_batch (main_program env) b s = Some t" "dispatcher_run (main_program env) bs t = Some (ended, s')"
    by (auto simp: main_program_def split: option.splits)
  have "\<not> dp_stopping (mt_disp t)" using quiet_batch [OF Cons.prems(1) _ t(1)] Cons.prems(2,3) by (simp add: signal_in_def)
  moreover have "running s0 t" by (rule main.inv_batch [OF Cons.prems(1) t(1)])
  ultimately show ?case using Cons.IH [OF _ _ _ t(2)] Cons.prems(3) by (simp add: signal_in_def)
qed (simp add: main_program_def)

lemma signal_run:
  assumes "running s0 s" "signal_in bs" "dispatcher_run (main_program env) bs s = Some (ended, s')"
  shows "ended"
proof -
  obtain b r where br: "b \<in> set bs" "r \<in> set b" "case r of SignalFd k \<Rightarrow> 0 < k | _ \<Rightarrow> False"
    using assms(2) by (auto simp: signal_in_def list_ex_iff)
  then obtain k where k: "SignalFd (Suc k) \<in> set b" by (cases r) (auto simp: gr0_conv_Suc)
  obtain before after where bs: "bs = (before @ [b]) @ after" using br(1) by (auto dest: split_list)
  obtain e t where t: "dispatcher_run (main_program env) (before @ [b]) s = Some (e, t)"
    using assms(3) main.run_append [where as = "before @ [b]" and bs = after and s = s and env = env] by (auto simp: bs split: option.splits)
  from main.run_after_signal [OF assms(1) k t, of after] assms(3) show ?thesis by (simp add: bs)
qed

lemma run_bridge_loop:
  assumes "run_bridge env cfg = out" "out \<noteq> Aborted"
  obtains h s ended s' web where
    "main_start (pe_main env) (pe_wake_fd env) (pe_fds env) cfg h = Some s"
    "dispatcher_run (main_program (pe_main env)) (pe_batches env) s = Some (ended, s')"
    "http_new (pe_http env) (http_port (ac_http cfg)) (www_root (ac_http cfg)) = Inr web"
    "out = (if \<not> ended then InLoop s' else if \<not> stop_can_return (pe_web env) then StuckInStop s'
      else Exited True (Some (main_stop s', http_destroy (web\<lparr>hp_thread := thread_start (hp_thread web)\<rparr>))))"
  using assms by (auto simp: run_bridge_def Let_def split: sum.splits if_splits option.splits prod.splits)

text \<open>The two states of the worker in which the main thread can find it.\<close>

lemma started_stops:
  "\<exists>r. http_step\<^sup>*\<^sup>* (begin_stop (http_started\<lparr>hr_loop := Looping\<rparr>)) r \<and> hr_joined r"
  "\<not> (\<exists>r. http_step\<^sup>*\<^sup>* (begin_stop http_started) r \<and> hr_joined r)"
proof -
  have l: "http_reachable (http_started\<lparr>hr_loop := Looping\<rparr>)"
    using http_reachable.Stepped [OF http_reachable.Started http_step.Enter] by (simp add: http_started_def)
  show "\<exists>r. http_step\<^sup>*\<^sup>* (begin_stop (http_started\<lparr>hr_loop := Looping\<rparr>)) r \<and> hr_joined r"
    using stop_can_return_iff [OF l] by (simp add: stop_can_return_def http_started_def thread_start_def thread_init_def)
  show "\<not> (\<exists>r. http_step\<^sup>*\<^sup>* (begin_stop http_started) r \<and> hr_joined r)"
    using stop_can_return_iff [OF http_reachable.Started]
    by (simp add: stop_can_return_def http_started_def thread_start_def thread_init_def)
qed

section \<open>A sample process\<close>

text \<open>One battery on a serial port, an empty database, and a signal in the second batch.\<close>

definition sample_process :: ProcessEnv where
  "sample_process = \<lparr>pe_open = sample_open, pe_db = hs_db Main_Start.sample_history, pe_start = sample_start, pe_dispatcher = True,
     pe_wake_fd = 3, pe_fds = {0, 1, 2, 3}, pe_main = sample_main_env,
     pe_http = \<lparr>he_base = True, he_evhttp = True, he_bind = (\<lambda>_. True)\<rparr>,
     pe_batches = [[Fd 6, Fd 4], [SignalFd 1]], pe_web = Looping\<rparr>"

lemma sample_process_ends:
  "case bridge_main Ttl [(CHR ''D'', ''5'')] CFG_SUCCESS (sample_file [sample_ttl 5000]) sample_process of
     Exited ok (Some x) \<Rightarrow> ok | _ \<Rightarrow> False"
  by code_simp

section \<open>Properties\<close>

text \<open>C11: How the process ends, whatever the configuration, if it starts with finitely many open descriptors: with the
  status of the command line or the configuration, before anything is opened; or by an exception; or the loop
  ends, which it does exactly when a signal came in.  If the worker of the web server has entered its event
  loop by then, stopping the server can return, and the process ends with success, every port closed, no
  handler of a link registered and the web server stopped and gone; if the worker has not, the process is stuck
  in that stop for ever, whatever the worker does, with the links as the loop left them.  Without a signal the
  process stays in the loop, with its invariant.\<close>

theorem process_outcome:
  assumes "fds_ok (pe_fds env)"
  shows "case bridge_main garbage args rc conf env of
      Exited ok None \<Rightarrow> main_config garbage args rc conf = Inl ok
    | Exited ok (Some (s, web)) \<Rightarrow> ok \<and> signal_in (pe_batches env) \<and> port_fds s \<subseteq> {-1} \<and>
        (\<forall>x i uh. dp_handlers (mt_disp s) x \<noteq> Some (PortHandler i uh) \<and> dp_handlers (mt_disp s) x \<noteq> Some (PumpHandler i)) \<and>
        \<not> th_joinable (hp_thread web) \<and> \<not> hp_sweep_ev web \<and> \<not> hp_http web \<and> \<not> hp_base web \<and> pe_web env \<noteq> Before \<and>
        (\<exists>r. http_step\<^sup>*\<^sup>* (begin_stop (http_started\<lparr>hr_loop := Looping\<rparr>)) r \<and> hr_joined r)
    | Aborted \<Rightarrow> (\<exists>cfg. main_config garbage args rc conf = Inr cfg)
    | InLoop s \<Rightarrow> \<not> signal_in (pe_batches env) \<and> main_inv s
    | StuckInStop s \<Rightarrow> signal_in (pe_batches env) \<and> main_inv s \<and> pe_web env = Before \<and>
        \<not> (\<exists>r. http_step\<^sup>*\<^sup>* (begin_stop http_started) r \<and> hr_joined r)"
proof (cases "main_config garbage args rc conf")
  case (Inl ok)
  then show ?thesis by (simp add: bridge_main_def)
next
  case (Inr cfg)
  have out: "bridge_main garbage args rc conf env = run_bridge env cfg" using Inr by (simp add: bridge_main_def)
  show ?thesis
  proof (cases "run_bridge env cfg = Aborted")
    case True
    then show ?thesis using Inr out by simp
  next
    case False
    then obtain h s ended s' web where r: "main_start (pe_main env) (pe_wake_fd env) (pe_fds env) cfg h = Some s"
      "dispatcher_run (main_program (pe_main env)) (pe_batches env) s = Some (ended, s')"
      "run_bridge env cfg = (if \<not> ended then InLoop s' else if \<not> stop_can_return (pe_web env) then StuckInStop s'
        else Exited True (Some (main_stop s', http_destroy (web\<lparr>hp_thread := thread_start (hp_thread web)\<rparr>))))"
      using run_bridge_loop by metis
    note st = main_start_inv [OF assms r(1)]
    have run: "running s s" using st(1) by (simp add: running_def)
    have ends: "ended \<longleftrightarrow> signal_in (pe_batches env)"
      using quiet_run [OF run st(4) _ r(2)] signal_run [OF run _ r(2)] by blast
    have run': "running s s'" by (rule main.inv_run [OF run r(2)])
    note rel = main_stop_releases [OF run' st(5-7) st(2)]
    show ?thesis using r(3) ends rel run' started_stops
      by (auto simp: out http_destroy_def thread_stop_joins running_def Let_def stop_can_return_def)
  qed
qed

lemma process_outcome_witness:
  "\<exists>s web. bridge_main Ttl [(CHR ''D'', ''5'')] CFG_SUCCESS (sample_file [sample_ttl 5000]) sample_process =
     Exited True (Some (s, web)) \<and> port_fds s \<subseteq> {-1} \<and> \<not> hp_base web"
proof -
  have a: "fds_ok (pe_fds sample_process)" by (simp add: sample_process_def fds_ok_def)
  note t = process_outcome [where garbage = Ttl and args = "[(CHR ''D'', ''5'')]" and rc = CFG_SUCCESS
      and conf = "sample_file [sample_ttl 5000]", OF a]
  obtain s web where out: "bridge_main Ttl [(CHR ''D'', ''5'')] CFG_SUCCESS (sample_file [sample_ttl 5000]) sample_process =
      Exited True (Some (s, web))"
    using sample_process_ends by (auto split: outcome.splits option.splits)
  from t out show ?thesis by simp
qed

end
