(* ===== verification/Config_File.thy ===== *)
theory Config_File
  imports Config
begin

text \<open>
  src/config.cpp, the tables of options that \<open>load_config\<close> hands to libconfuse.  libconfuse is a library: what its
  manual says of a table is the hypothesis \<open>confuse_section\<close>, a value of the file where there is one and else the default of
  the table; a section that may occur once is there even when the file leaves it out.
\<close>

section \<open>The tables\<close>

text \<open>Name, default, and whether \<open>CFGF_NODEFAULT\<close> is set.\<close>

datatype cfg_opt = CFG_STR string "string option" bool | CFG_INT string int bool

definition battery_opts :: "cfg_opt list" where
  "battery_opts =
    [CFG_STR ''type'' None True,
     CFG_STR ''address'' None True,
     CFG_INT ''capacity'' 0 True,
     CFG_STR ''protocol'' None True,
     CFG_STR ''service_uuid'' (Some ''0000ffe0-0000-1000-8000-00805f9b34fb'') False,
     CFG_STR ''char_write_uuid'' (Some ''0000ffe1-0000-1000-8000-00805f9b34fb'') False,
     CFG_STR ''char_notify_uuid'' (Some ''0000ffe1-0000-1000-8000-00805f9b34fb'') False,
     CFG_INT ''scan_timeout_ms'' 10000 False,
     CFG_INT ''adapter_poll_ms'' 2000 False,
     CFG_INT ''pylontech_address'' 0 True,
     CFG_INT ''uart_baud'' 115200 False,
     CFG_STR ''mirror'' None True,
     CFG_INT ''reconnect_ms'' 5000 False,
     CFG_INT ''bms_poll_period_ms'' 5000 False,
     CFG_INT ''settings_refresh_period_ms'' 60000 False,
     CFG_INT ''bms_state_update_interval_ms'' 500 False]"

definition inverter_opts :: "cfg_opt list" where
  "inverter_opts = [CFG_STR ''uart'' None True, CFG_INT ''baud'' 115200 False]"

definition http_opts :: "cfg_opt list" where
  "http_opts = [CFG_INT ''port'' 80 False, CFG_STR ''www_root'' (Some ''/usr/share/bms_bridge/www'') False]"

definition history_opts :: "cfg_opt list" where
  "history_opts = [CFG_STR ''db_path'' (Some ''/var/lib/bms_bridge/history.sqlite3'') False, CFG_INT ''ram_window_s'' 86400 False]"

definition global_opts :: "cfg_opt list" where
  "global_opts = [CFG_INT ''log_level'' 4 False, CFG_STR ''log_file'' (Some []) False]"

section \<open>What the file gives\<close>

record cfg_given =
  gv_title :: "string option"
  gv_str :: "string \<rightharpoonup> string"
  gv_int :: "string \<rightharpoonup> int"

record cfg_given_file =
  gf_global :: cfg_given
  gf_inverter :: cfg_given
  gf_http :: cfg_given
  gf_history :: cfg_given
  gf_batteries :: "cfg_given list"

primrec given_option :: "cfg_given \<Rightarrow> cfg_sec \<Rightarrow> cfg_opt \<Rightarrow> bool" where
  "given_option g s (CFG_STR n d nodefault) \<longleftrightarrow> sec_str s n = (case gv_str g n of Some v \<Rightarrow> Some v | None \<Rightarrow> d)"
| "given_option g s (CFG_INT n d nodefault) \<longleftrightarrow> sec_int s n = (case gv_int g n of Some v \<Rightarrow> v | None \<Rightarrow> d)"

definition confuse_section :: "cfg_opt list \<Rightarrow> cfg_given \<Rightarrow> cfg_sec \<Rightarrow> bool" where
  "confuse_section opts g s \<longleftrightarrow> sec_title s = gv_title g \<and> list_all (given_option g s) opts"

definition confuse_file :: "cfg_given_file \<Rightarrow> cfg_file \<Rightarrow> bool" where
  "confuse_file g f \<longleftrightarrow>
     (\<exists>s. confuse_section global_opts (gf_global g) s \<and> cf_log_level f = sec_int s ''log_level'' \<and> cf_log_file f = sec_str s ''log_file'') \<and>
     (\<exists>s. cf_inverter f = Some s \<and> confuse_section inverter_opts (gf_inverter g) s) \<and>
     (\<exists>s. cf_http f = Some s \<and> confuse_section http_opts (gf_http g) s) \<and>
     (\<exists>s. cf_history f = Some s \<and> confuse_section history_opts (gf_history g) s) \<and>
     list_all2 (confuse_section battery_opts) (gf_batteries g) (cf_batteries f)"

section \<open>The members' own defaults\<close>

text \<open>The initialisers of \<open>BatteryConfig\<close>; \<open>link\<close> and \<open>capacity\<close> have none.\<close>

definition BatteryConfig_default :: "BatteryLink \<Rightarrow> i32 \<Rightarrow> BatteryConfig" where
  "BatteryConfig_default garbage_link garbage_capacity =
     \<lparr>bc_name = [], bc_link = garbage_link, bc_link_raw = [], bc_address = [], bc_capacity = garbage_capacity, bc_protocol = [],
      bc_service_uuid = ''0000ffe0-0000-1000-8000-00805f9b34fb'',
      bc_char_write_uuid = ''0000ffe1-0000-1000-8000-00805f9b34fb'',
      bc_char_notify_uuid = ''0000ffe1-0000-1000-8000-00805f9b34fb'',
      bc_scan_timeout_ms = 10000, bc_adapter_poll_ms = 2000, bc_uart_baud = 115200, bc_pylontech_address = 0,
      bc_mirror = [], bc_reconnect_ms = 5000, bc_bms_poll_period_ms = 5000, bc_settings_refresh_period_ms = 60000,
      bc_bms_state_update_interval_ms = 500\<rparr>"

text \<open>The members the file gives, over those of \<open>d\<close>.\<close>

definition or_str :: "cfg_given \<Rightarrow> string \<Rightarrow> string \<Rightarrow> string" where
  "or_str g n d = (case gv_str g n of Some v \<Rightarrow> v | None \<Rightarrow> d)"

definition or_int :: "cfg_given \<Rightarrow> string \<Rightarrow> i32 \<Rightarrow> i32" where
  "or_int g n d = (case gv_int g n of Some v \<Rightarrow> word_of_int v | None \<Rightarrow> d)"

definition given_battery :: "cfg_given \<Rightarrow> BatteryConfig \<Rightarrow> BatteryConfig" where
  "given_battery g d =
     \<lparr>bc_name = (case gv_title g of Some t \<Rightarrow> t | None \<Rightarrow> bc_name d),
      bc_link = (case gv_str g ''type'' of None \<Rightarrow> bc_link d
        | Some v \<Rightarrow> case link_from_str v of Some l \<Rightarrow> l | None \<Rightarrow> bc_link d),
      bc_link_raw = or_str g ''type'' (bc_link_raw d), bc_address = or_str g ''address'' (bc_address d),
      bc_capacity = or_int g ''capacity'' (bc_capacity d), bc_protocol = or_str g ''protocol'' (bc_protocol d),
      bc_service_uuid = or_str g ''service_uuid'' (bc_service_uuid d),
      bc_char_write_uuid = or_str g ''char_write_uuid'' (bc_char_write_uuid d),
      bc_char_notify_uuid = or_str g ''char_notify_uuid'' (bc_char_notify_uuid d),
      bc_scan_timeout_ms = or_int g ''scan_timeout_ms'' (bc_scan_timeout_ms d),
      bc_adapter_poll_ms = or_int g ''adapter_poll_ms'' (bc_adapter_poll_ms d),
      bc_uart_baud = or_int g ''uart_baud'' (bc_uart_baud d),
      bc_pylontech_address = or_int g ''pylontech_address'' (bc_pylontech_address d),
      bc_mirror = or_str g ''mirror'' (bc_mirror d), bc_reconnect_ms = or_int g ''reconnect_ms'' (bc_reconnect_ms d),
      bc_bms_poll_period_ms = or_int g ''bms_poll_period_ms'' (bc_bms_poll_period_ms d),
      bc_settings_refresh_period_ms = or_int g ''settings_refresh_period_ms'' (bc_settings_refresh_period_ms d),
      bc_bms_state_update_interval_ms = or_int g ''bms_state_update_interval_ms'' (bc_bms_state_update_interval_ms d)\<rparr>"

definition given_app :: "BatteryLink \<Rightarrow> cfg_given_file \<Rightarrow> AppConfig \<Rightarrow> AppConfig" where
  "given_app garbage g d =
     \<lparr>ac_log_level = or_int (gf_global g) ''log_level'' (ac_log_level d), ac_log_file = or_str (gf_global g) ''log_file'' (ac_log_file d),
      ac_batteries = ac_batteries d @ map (\<lambda>b. given_battery b (BatteryConfig_default garbage 0)) (gf_batteries g),
      ac_inverter = \<lparr>inv_uart_device = or_str (gf_inverter g) ''uart'' (inv_uart_device (ac_inverter d)),
        inv_uart_baud = or_int (gf_inverter g) ''baud'' (inv_uart_baud (ac_inverter d))\<rparr>,
      ac_http = \<lparr>http_port = or_int (gf_http g) ''port'' (http_port (ac_http d)),
        www_root = or_str (gf_http g) ''www_root'' (www_root (ac_http d))\<rparr>,
      ac_history = \<lparr>db_path = or_str (gf_history g) ''db_path'' (db_path (ac_history d)),
        ram_window_s = or_int (gf_history g) ''ram_window_s'' (ram_window_s (ac_history d))\<rparr>\<rparr>"

section \<open>The two sets of defaults are the same\<close>

lemma sstr_given:
  "given_option g s (CFG_STR n d x) \<Longrightarrow> sstr s n = or_str g n (case d of Some v \<Rightarrow> v | None \<Rightarrow> [])"
  "given_option g s (CFG_INT n i x) \<Longrightarrow> sint_of s n = or_int g n (word_of_int i)"
  by (auto simp: sstr_def or_str_def sint_of_def or_int_def split: option.split)

lemma read_battery_given:
  assumes s: "confuse_section battery_opts g s" and r: "read_battery garbage seen s = Inr bc"
  shows "bc = given_battery g (BatteryConfig_default garbage 0)"
proof -
  have t: "sec_title s = gv_title g" and o: "list_all (given_option g s) battery_opts"
    using s by (simp_all add: confuse_section_def)
  have g: "given_option g s op" if "op \<in> set battery_opts" for op using o that by (simp add: list_all_iff)
  have strs: "sstr s n = or_str g n (case d of Some v \<Rightarrow> v | None \<Rightarrow> [])" if "CFG_STR n d x \<in> set battery_opts" for n d x
    by (rule sstr_given(1) [OF g [OF that]])
  have ints: "sint_of s n = or_int g n (word_of_int i)" if "CFG_INT n i x \<in> set battery_opts" for n i x
    by (rule sstr_given(2) [OF g [OF that]])
  from r obtain name where n: "sec_title s = Some name"
    and bc: "bc = \<lparr>bc_name = name, bc_link = (case link_from_str (sstr s ''type'') of Some l \<Rightarrow> l | None \<Rightarrow> garbage),
              bc_link_raw = sstr s ''type'', bc_address = sstr s ''address'',
              bc_capacity = sint_of s ''capacity'', bc_protocol = sstr s ''protocol'',
              bc_service_uuid = sstr s ''service_uuid'', bc_char_write_uuid = sstr s ''char_write_uuid'',
              bc_char_notify_uuid = sstr s ''char_notify_uuid'', bc_scan_timeout_ms = sint_of s ''scan_timeout_ms'',
              bc_adapter_poll_ms = sint_of s ''adapter_poll_ms'', bc_uart_baud = sint_of s ''uart_baud'',
              bc_pylontech_address = sint_of s ''pylontech_address'', bc_mirror = sstr s ''mirror'',
              bc_reconnect_ms = sint_of s ''reconnect_ms'', bc_bms_poll_period_ms = sint_of s ''bms_poll_period_ms'',
              bc_settings_refresh_period_ms = sint_of s ''settings_refresh_period_ms'',
              bc_bms_state_update_interval_ms = sint_of s ''bms_state_update_interval_ms''\<rparr>"
    by (auto simp: read_battery_def Let_def split: option.splits if_splits)
  show ?thesis
    using n t
    by (simp add: bc given_battery_def BatteryConfig_default_def
        strs [of "''type''" None True] strs [of "''address''" None True] strs [of "''protocol''" None True]
        strs [of "''service_uuid''" "Some ''0000ffe0-0000-1000-8000-00805f9b34fb''" False]
        strs [of "''char_write_uuid''" "Some ''0000ffe1-0000-1000-8000-00805f9b34fb''" False]
        strs [of "''char_notify_uuid''" "Some ''0000ffe1-0000-1000-8000-00805f9b34fb''" False]
        strs [of "''mirror''" None True] ints [of "''capacity''" 0 True] ints [of "''scan_timeout_ms''" 10000 False]
        ints [of "''adapter_poll_ms''" 2000 False] ints [of "''uart_baud''" 115200 False]
        ints [of "''pylontech_address''" 0 True] ints [of "''reconnect_ms''" 5000 False]
        ints [of "''bms_poll_period_ms''" 5000 False] ints [of "''settings_refresh_period_ms''" 60000 False]
        ints [of "''bms_state_update_interval_ms''" 500 False] battery_opts_def)
      (simp add: or_str_def link_from_str_def split: option.split)
qed

lemma read_batteries_given:
  assumes "list_all2 (confuse_section battery_opts) gs ss" "read_batteries garbage seen ss = Inr bcs"
  shows "bcs = map (\<lambda>g. given_battery g (BatteryConfig_default garbage 0)) gs"
  using assms
proof (induction gs ss arbitrary: seen bcs rule: list_all2_induct)
  case (Cons g gs s ss)
  then show ?case using read_battery_given [OF Cons(1)] by (auto split: sum.splits)
qed simp

definition sample_given :: "(string \<times> string) list \<Rightarrow> (string \<times> int) list \<Rightarrow> cfg_given" where
  "sample_given strs ints = \<lparr>gv_title = Some ''a'', gv_str = map_of strs, gv_int = map_of ints\<rparr>"

lemma load_config_fields:
  assumes "load_config garbage rc f AppConfig_default = Inr cfg" "cf_inverter f = Some iv" "cf_http f = Some ht" "cf_history f = Some hi"
  shows "cfg = \<lparr>ac_log_level = word_of_int (cf_log_level f), ac_log_file = (case cf_log_file f of None \<Rightarrow> [] | Some v \<Rightarrow> v),
     ac_batteries = ac_batteries cfg, ac_inverter = \<lparr>inv_uart_device = sstr iv ''uart'', inv_uart_baud = sint_of iv ''baud''\<rparr>,
     ac_http = \<lparr>http_port = sint_of ht ''port'', www_root = sstr ht ''www_root''\<rparr>,
     ac_history = \<lparr>db_path = sstr hi ''db_path'', ram_window_s = sint_of hi ''ram_window_s''\<rparr>\<rparr>"
  using assms by (auto simp: load_config_def AppConfig_default_def Let_def split: if_splits option.splits sum.splits)

definition sample_given_file :: cfg_given_file where
  "sample_given_file = \<lparr>gf_global = sample_given [] [], gf_inverter = sample_given [(''uart'', ''/dev/ttyS0'')] [],
     gf_http = sample_given [] [(''port'', 8080)], gf_history = sample_given [] [],
     gf_batteries = [sample_given [(''type'', ''bluetooth''), (''address'', ''C8:47''), (''protocol'', ''jk_bt'')] [(''capacity'', 280)]]\<rparr>"

text \<open>What the getters return for a section of that file.\<close>

definition sample_getters :: "cfg_opt list \<Rightarrow> cfg_given \<Rightarrow> cfg_sec" where
  "sample_getters opts g = \<lparr>sec_title = gv_title g,
     sec_str = (\<lambda>n. case gv_str g n of Some v \<Rightarrow> Some v
        | None \<Rightarrow> (case find (\<lambda>op. case op of CFG_STR m d x \<Rightarrow> m = n | CFG_INT m i x \<Rightarrow> False) opts of
            Some (CFG_STR m d x) \<Rightarrow> d | _ \<Rightarrow> None)),
     sec_int = (\<lambda>n. case gv_int g n of Some v \<Rightarrow> v
        | None \<Rightarrow> (case find (\<lambda>op. case op of CFG_INT m i x \<Rightarrow> m = n | CFG_STR m d x \<Rightarrow> False) opts of
            Some (CFG_INT m i x) \<Rightarrow> i | _ \<Rightarrow> 0))\<rparr>"

definition sample_parsed :: cfg_file where
  "sample_parsed = \<lparr>cf_log_level = 4, cf_log_file = Some [],
     cf_inverter = Some (sample_getters inverter_opts (gf_inverter sample_given_file)),
     cf_http = Some (sample_getters http_opts (gf_http sample_given_file)),
     cf_history = Some (sample_getters history_opts (gf_history sample_given_file)),
     cf_batteries = map (sample_getters battery_opts) (gf_batteries sample_given_file)\<rparr>"

lemma sample_sections:
  "confuse_section global_opts (gf_global sample_given_file) (sample_getters global_opts (gf_global sample_given_file))"
  "confuse_section inverter_opts (gf_inverter sample_given_file) (sample_getters inverter_opts (gf_inverter sample_given_file))"
  "confuse_section http_opts (gf_http sample_given_file) (sample_getters http_opts (gf_http sample_given_file))"
  "confuse_section history_opts (gf_history sample_given_file) (sample_getters history_opts (gf_history sample_given_file))"
  "list_all2 (confuse_section battery_opts) (gf_batteries sample_given_file) (map (sample_getters battery_opts) (gf_batteries sample_given_file))"
  by code_simp+

lemma sample_confuse: "confuse_file sample_given_file sample_parsed"
  unfolding confuse_file_def
proof (intro conjI exI)
  show "cf_log_level sample_parsed = sec_int (sample_getters global_opts (gf_global sample_given_file)) ''log_level''"
    "cf_log_file sample_parsed = sec_str (sample_getters global_opts (gf_global sample_given_file)) ''log_file''"
    by code_simp+
qed (simp_all add: sample_sections sample_parsed_def, (rule sample_sections)+)

lemma sample_accepted: "case load_config Ttl CFG_SUCCESS sample_parsed AppConfig_default of Inl e \<Rightarrow> False | Inr c \<Rightarrow> True"
  by code_simp

section \<open>Properties\<close>

text \<open>C24: The defaults of the option tables are those of the members: an accepted configuration is the one that starts
  from the initialisers of \<open>AppConfig\<close> and \<open>BatteryConfig\<close> and sets exactly what the file gives; in particular a battery
  whose \<open>reconnect_ms\<close> is left out, or given without a sign and within 32 bits, has a backoff that is not negative.\<close>

theorem accepted_config_is_defaults_and_file:
  assumes "confuse_file g f" "load_config garbage rc f AppConfig_default = Inr cfg"
  shows "cfg = given_app garbage g AppConfig_default \<and>
    (\<forall>b \<in> set (gf_batteries g). (case gv_int b ''reconnect_ms'' of None \<Rightarrow> True | Some v \<Rightarrow> 0 \<le> v \<and> v < 2 ^ 31) \<longrightarrow>
      0 \<le> sint (bc_reconnect_ms (given_battery b (BatteryConfig_default garbage 0))))"
proof -
  obtain s iv ht hi where s: "confuse_section global_opts (gf_global g) s" "cf_log_level f = sec_int s ''log_level''"
      "cf_log_file f = sec_str s ''log_file''"
    and iv: "cf_inverter f = Some iv" "confuse_section inverter_opts (gf_inverter g) iv"
    and ht: "cf_http f = Some ht" "confuse_section http_opts (gf_http g) ht"
    and hi: "cf_history f = Some hi" "confuse_section history_opts (gf_history g) hi"
    and bs: "list_all2 (confuse_section battery_opts) (gf_batteries g) (cf_batteries f)"
    using assms(1) by (auto simp: confuse_file_def)
  note o = confuse_section_def global_opts_def inverter_opts_def http_opts_def history_opts_def
  have b: "ac_batteries cfg = map (\<lambda>g. given_battery g (BatteryConfig_default garbage 0)) (gf_batteries g)"
    by (rule read_batteries_given [OF bs load_config_cases(1) [OF assms(2)]])
  have "sstr iv ''uart'' = or_str (gf_inverter g) ''uart'' []" "sint_of iv ''baud'' = or_int (gf_inverter g) ''baud'' 115200"
    using iv(2) sstr_given(1) [of "gf_inverter g" iv "''uart''" None True] sstr_given(2) [of "gf_inverter g" iv "''baud''" 115200 False]
    by (simp_all add: o)
  moreover have "sint_of ht ''port'' = or_int (gf_http g) ''port'' 80"
    "sstr ht ''www_root'' = or_str (gf_http g) ''www_root'' ''/usr/share/bms_bridge/www''"
    using ht(2) sstr_given(1) [of "gf_http g" ht "''www_root''" "Some ''/usr/share/bms_bridge/www''" False]
      sstr_given(2) [of "gf_http g" ht "''port''" 80 False]
    by (simp_all add: o)
  moreover have "sint_of hi ''ram_window_s'' = or_int (gf_history g) ''ram_window_s'' 86400"
    "sstr hi ''db_path'' = or_str (gf_history g) ''db_path'' ''/var/lib/bms_bridge/history.sqlite3''"
    using hi(2) sstr_given(1) [of "gf_history g" hi "''db_path''" "Some ''/var/lib/bms_bridge/history.sqlite3''" False]
      sstr_given(2) [of "gf_history g" hi "''ram_window_s''" 86400 False]
    by (simp_all add: o)
  moreover have "word_of_int (cf_log_level f) = or_int (gf_global g) ''log_level'' 4"
    "(case cf_log_file f of None \<Rightarrow> [] | Some v \<Rightarrow> v) = or_str (gf_global g) ''log_file'' []"
    using s(1) by (auto simp: o s(2,3) or_int_def or_str_def split: option.split)
  ultimately have "cfg = given_app garbage g AppConfig_default"
    by (subst load_config_fields [OF assms(2) iv(1) ht(1) hi(1)]) (simp add: b given_app_def AppConfig_default_def)
  moreover have "0 \<le> sint (bc_reconnect_ms (given_battery b (BatteryConfig_default garbage 0)))"
    if "case gv_int b ''reconnect_ms'' of None \<Rightarrow> True | Some v \<Rightarrow> 0 \<le> v \<and> v < 2 ^ 31" for b
  proof (cases "gv_int b ''reconnect_ms''")
    case (Some v)
    then have "sint (word_of_int v :: i32) = v" using that by (simp add: signed_of_int signed_take_bit_int_eq_self)
    then show ?thesis using Some that by (simp add: given_battery_def or_int_def)
  qed (simp add: given_battery_def or_int_def BatteryConfig_default_def)
  ultimately show ?thesis by blast
qed

lemma accepted_config_is_defaults_and_file_witness:
  "load_config Ttl CFG_SUCCESS sample_parsed AppConfig_default = Inr (given_app Ttl sample_given_file AppConfig_default) \<and>
   0 \<le> sint (bc_reconnect_ms (given_battery (hd (gf_batteries sample_given_file)) (BatteryConfig_default Ttl 0)))"
proof -
  obtain cfg where cfg: "load_config Ttl CFG_SUCCESS sample_parsed AppConfig_default = Inr cfg"
    using sample_accepted by (auto split: sum.splits)
  from accepted_config_is_defaults_and_file [OF sample_confuse cfg] cfg show ?thesis
    by (auto simp: sample_given_file_def sample_given_def)
qed

end
