(* ===== verification/Captured_Frames.thy ===== *)
theory Captured_Frames
  imports Pylontech_Respond Inverter Battery
begin

text \<open>
  The frames that tests/jk_protocol_test.cpp and tests/pylontech_test.cpp keep, captured from a JK BMS and from a Deye
  inverter, run through the model: the expectations of those tests hold of it, and a session of both ends to end.
\<close>

section \<open>Frames of a JK BMS\<close>

definition kSniffedCellInfoFrame :: bytes where
  "kSniffedCellInfoFrame = [
     0x55, 0xAA, 0xEB, 0x90, 0x02, 0x52, 0xD9, 0x0C, 0xDA, 0x0C, 0xDA, 0x0C, 0xE0, 0x0C, 0xE0, 0x0C,
     0xDE, 0x0C, 0xE3, 0x0C, 0xDC, 0x0C, 0xC8, 0x0C, 0xD8, 0x0C, 0xD8, 0x0C, 0xE0, 0x0C, 0xE0, 0x0C,
     0xDC, 0x0C, 0xDF, 0x0C, 0xDC, 0x0C, 0x00, 0x00, 0x00, 0x00, 0x00, 0x00, 0x00, 0x00, 0x00, 0x00,
     0x00, 0x00, 0x00, 0x00, 0x00, 0x00, 0x00, 0x00, 0x00, 0x00, 0x00, 0x00, 0x00, 0x00, 0x00, 0x00,
     0x00, 0x00, 0x00, 0x00, 0x00, 0x00, 0xFF, 0xFF, 0x00, 0x00, 0xDC, 0x0C, 0x0D, 0x00, 0x03, 0x08,
     0x9E, 0x00, 0x9F, 0x00, 0x9D, 0x00, 0x9D, 0x00, 0x9D, 0x00, 0x9F, 0x00, 0xA1, 0x00, 0xA2, 0x00,
     0xA1, 0x00, 0xA2, 0x00, 0xA1, 0x00, 0xA1, 0x00, 0xA2, 0x00, 0xA3, 0x00, 0xA1, 0x00, 0xA1, 0x00,
     0x00, 0x00, 0x00, 0x00, 0x00, 0x00, 0x00, 0x00, 0x00, 0x00, 0x00, 0x00, 0x00, 0x00, 0x00, 0x00,
     0x00, 0x00, 0x00, 0x00, 0x00, 0x00, 0x00, 0x00, 0x00, 0x00, 0x00, 0x00, 0x00, 0x00, 0x00, 0x00,
     0xE6, 0x00, 0x00, 0x00, 0x00, 0x00, 0xBF, 0xCD, 0x00, 0x00, 0xB2, 0x16, 0x13, 0x00, 0x39, 0xA3,
     0xFF, 0xFF, 0xDC, 0x00, 0xD1, 0x00, 0x00, 0x00, 0x08, 0x00, 0xA5, 0xFD, 0x02, 0x4A, 0x71, 0x8F,
     0x03, 0x00, 0x90, 0xCA, 0x04, 0x00, 0x1E, 0x00, 0x00, 0x00, 0x96, 0x52, 0x90, 0x00, 0x64, 0x00,
     0x00, 0x00, 0xF9, 0xA0, 0x4C, 0x00, 0x01, 0x01, 0x00, 0x00, 0x00, 0x00, 0x00, 0x00, 0x00, 0x00,
     0x00, 0x00, 0x00, 0x00, 0x00, 0x00, 0xFF, 0x00, 0x01, 0x00, 0x00, 0x00, 0xD1, 0x24, 0x00, 0x00,
     0xFD, 0x00, 0x5C, 0x45, 0x3F, 0x40, 0x00, 0x00, 0x00, 0x00, 0x93, 0x14, 0x00, 0x00, 0x00, 0x00,
     0x00, 0x01, 0x0A, 0x01, 0x01, 0x00, 0x99, 0xF4, 0x9D, 0x00, 0x00, 0x00, 0x00, 0x00, 0xE6, 0x00,
     0x30, 0xF8, 0x30, 0xF8, 0x01, 0x00, 0x5D, 0xCB, 0xE7, 0x0B, 0xB2, 0x02, 0x00, 0x00, 0x80, 0x51,
     0x01, 0x00, 0x00, 0x00, 0x00, 0x01, 0x00, 0x00, 0x00, 0x00, 0x00, 0x00, 0x00, 0x00, 0x00, 0xFE,
     0xFF, 0x7F, 0xDC, 0x0F, 0x01, 0x00, 0x80, 0x0B, 0x01, 0x00, 0x00, 0x0F]"

definition kSniffedDeviceInfoFrame :: bytes where
  "kSniffedDeviceInfoFrame = [
     0x55, 0xAA, 0xEB, 0x90, 0x03, 0x52, 0x4A, 0x4B, 0x5F, 0x42, 0x44, 0x36, 0x41, 0x32, 0x30, 0x53,
     0x31, 0x30, 0x50, 0x00, 0x00, 0x14, 0x31, 0x39, 0x48, 0x00, 0x00, 0x00, 0x00, 0x00, 0x31, 0x39,
     0x2E, 0x31, 0x37, 0x00, 0x00, 0x00, 0x04, 0xA0, 0x4C, 0x00, 0x08, 0x00, 0x00, 0x00, 0x31, 0x35,
     0x6B, 0x77, 0x74, 0x00, 0x00, 0x00, 0x00, 0x00, 0x00, 0x00, 0x00, 0x00, 0x00, 0x00, 0x31, 0x32,
     0x33, 0x34, 0x00, 0x00, 0x00, 0x00, 0x00, 0x00, 0x00, 0x00, 0x00, 0x00, 0x00, 0x00, 0x32, 0x36,
     0x30, 0x33, 0x30, 0x33, 0x00, 0x00, 0x35, 0x30, 0x39, 0x33, 0x30, 0x41, 0x4E, 0x33, 0x41, 0x30,
     0x30, 0x30, 0x31, 0x38, 0x33, 0x00, 0x4A, 0x4B, 0x2D, 0x42, 0x4D, 0x53, 0x00, 0x00, 0x00, 0x00,
     0x00, 0x00, 0x00, 0x00, 0x00, 0x00, 0x31, 0x32, 0x33, 0x34, 0x35, 0x36, 0x00, 0x00, 0x00, 0x00,
     0x00, 0x00, 0x00, 0x00, 0x00, 0x00, 0x4A, 0x4B, 0x2D, 0x42, 0x4D, 0x53, 0x00, 0x00, 0x00, 0x00,
     0x00, 0x00, 0x00, 0x00, 0x00, 0x00, 0xFF, 0xFB, 0xFF, 0xFF, 0x1F, 0xA9, 0x1C, 0x0E, 0x00, 0x00,
     0x00, 0x00, 0x90, 0x1F, 0x00, 0x00, 0x00, 0x00, 0xC0, 0xD8, 0xA7, 0x32, 0xA4, 0x00, 0x00, 0x00,
     0x00, 0x00, 0x00, 0x00, 0x00, 0x00, 0x00, 0x00, 0x01, 0x00, 0xFF, 0x67, 0x01, 0x00, 0x00, 0x00,
     0x00, 0x00, 0x00, 0x00, 0x00, 0x00, 0x00, 0x00, 0x00, 0x00, 0x00, 0x00, 0x00, 0x00, 0x00, 0x00,
     0x00, 0x00, 0x00, 0x00, 0x00, 0x00, 0x00, 0x00, 0x00, 0x00, 0x01, 0x00, 0x00, 0x00, 0x00, 0x00,
     0x00, 0x00, 0x00, 0x00, 0x00, 0x00, 0x00, 0x00, 0x00, 0x00, 0x09, 0x08, 0x00, 0x01, 0x64, 0x00,
     0x00, 0x00, 0x5F, 0x00, 0x00, 0x00, 0x3C, 0x00, 0x00, 0x00, 0x32, 0x00, 0x00, 0x00, 0x00, 0x00,
     0x00, 0x00, 0x00, 0x00, 0x00, 0x00, 0x10, 0x0E, 0x00, 0x00, 0x05, 0x32, 0x00, 0x1E, 0x0A, 0x00,
     0x00, 0x00, 0x00, 0x00, 0x00, 0x00, 0x01, 0x00, 0x00, 0x00, 0x00, 0x00, 0x00, 0x00, 0x00, 0xFE,
     0x9F, 0x20, 0x86, 0x08, 0x00, 0x00, 0x00, 0x00, 0x00, 0x00, 0x02, 0x6A]"

definition kSniffedSettingsFrame :: bytes where
  "kSniffedSettingsFrame = [
     0x55, 0xAA, 0xEB, 0x90, 0x01, 0x52, 0xAC, 0x0D, 0x00, 0x00, 0xC4, 0x09, 0x00, 0x00, 0x54, 0x0B,
     0x00, 0x00, 0x42, 0x0E, 0x00, 0x00, 0x7A, 0x0D, 0x00, 0x00, 0x0A, 0x00, 0x00, 0x00, 0x06, 0x0E,
     0x00, 0x00, 0x8C, 0x0A, 0x00, 0x00, 0x10, 0x0E, 0x00, 0x00, 0x16, 0x0D, 0x00, 0x00, 0xBA, 0x09,
     0x00, 0x00, 0xA0, 0x86, 0x01, 0x00, 0x3C, 0x00, 0x00, 0x00, 0x3C, 0x00, 0x00, 0x00, 0xA0, 0x86,
     0x01, 0x00, 0x2C, 0x01, 0x00, 0x00, 0x3C, 0x00, 0x00, 0x00, 0x05, 0x00, 0x00, 0x00, 0x58, 0x02,
     0x00, 0x00, 0xBC, 0x02, 0x00, 0x00, 0x58, 0x02, 0x00, 0x00, 0xBC, 0x02, 0x00, 0x00, 0x58, 0x02,
     0x00, 0x00, 0x9C, 0xFF, 0xFF, 0xFF, 0x00, 0x00, 0x00, 0x00, 0x20, 0x03, 0x00, 0x00, 0xBC, 0x02,
     0x00, 0x00, 0x10, 0x00, 0x00, 0x00, 0x01, 0x00, 0x00, 0x00, 0x01, 0x00, 0x00, 0x00, 0x01, 0x00,
     0x00, 0x00, 0x90, 0xCA, 0x04, 0x00, 0x05, 0x00, 0x00, 0x00, 0xB8, 0x0B, 0x00, 0x00, 0x00, 0x00,
     0x00, 0x00, 0x00, 0x00, 0x00, 0x00, 0x00, 0x00, 0x00, 0x00, 0x00, 0x00, 0x00, 0x00, 0x00, 0x00,
     0x00, 0x00, 0x00, 0x00, 0x00, 0x00, 0x00, 0x00, 0x00, 0x00, 0x00, 0x00, 0x00, 0x00, 0x00, 0x00,
     0x00, 0x00, 0x00, 0x00, 0x00, 0x00, 0x00, 0x00, 0x00, 0x00, 0x00, 0x00, 0x00, 0x00, 0x00, 0x00,
     0x00, 0x00, 0x00, 0x00, 0x00, 0x00, 0x00, 0x00, 0x00, 0x00, 0x00, 0x00, 0x00, 0x00, 0x00, 0x00,
     0x00, 0x00, 0x00, 0x00, 0x00, 0x00, 0x00, 0x00, 0x00, 0x00, 0x00, 0x00, 0x00, 0x00, 0x00, 0x00,
     0x00, 0x00, 0x00, 0x00, 0x00, 0x00, 0x00, 0x00, 0x00, 0x00, 0x00, 0x00, 0x00, 0x00, 0x00, 0x00,
     0x00, 0x00, 0x00, 0x00, 0x00, 0x00, 0x00, 0x00, 0x00, 0x00, 0x00, 0x00, 0x00, 0x00, 0x00, 0x00,
     0x00, 0x00, 0x00, 0x00, 0x00, 0x00, 0x00, 0x00, 0x00, 0x00, 0x00, 0x00, 0x00, 0x00, 0x01, 0x00,
     0x00, 0x00, 0x00, 0x00, 0x00, 0x00, 0x20, 0xA1, 0x07, 0x00, 0x90, 0x30, 0xF6, 0x00, 0x18, 0xFE,
     0xFB, 0xFF, 0xFF, 0x1F, 0xA9, 0x7C, 0x0E, 0x00, 0xDD, 0xE2, 0x00, 0x51]"

definition captured_cells :: JkCellInfo where
  "captured_cells =
     \<lparr>voltages_mv = [3289, 3290, 3290, 3296, 3296, 3294, 3299, 3292, 3272, 3288, 3288, 3296, 3296, 3292, 3295, 3292],
      resistance_uohm = [158, 159, 157, 157, 157, 159, 161, 162, 161, 162, 161, 161, 162, 163, 161, 161],
      average_voltage_mv = 3292, voltage_diff_mv = 13, max_voltage_cell_idx = 2, min_voltage_cell_idx = 7\<rparr>"

definition captured_pack :: JkPackInfo where
  "captured_pack =
     \<lparr>voltage_mv = 52671, current_ma = -23751, state_of_charge_pct = 74, remaining_capacity_mah = 233329,
      total_capacity_mah = 314000, cycle_count = 30, battery_temp1_dC = 220, battery_temp2_dC = 209,
      power_tube_temp_dC = 230, charging_enabled = True, discharging_enabled = True, balancer_enabled = True,
      balance_current_ma = 64933, errors_bitmask = 0\<rparr>"

definition captured_settings :: JkSettings where
  "captured_settings =
     \<lparr>smart_sleep_mv = 3500, cell_uvp_mv = 2500, cell_uvpr_mv = 2900, cell_ovp_mv = 3650, cell_ovpr_mv = 3450,
      balance_trigger_mv = 10, soc_100_mv = 3590, soc_0_mv = 2700, request_charge_mv = 3600,
      request_float_mv = 3350, power_off_mv = 2490, max_charge_current_ma = 100000, charge_ocp_delay_s = 60,
      charge_ocp_recovery_s = 60, max_discharge_current_ma = 100000, discharge_ocp_delay_s = 300,
      discharge_ocp_recovery_s = 60, scp_recovery_s = 5, max_balance_current_ma = 600,
      charge_otp_dC = 700, charge_otp_recovery_dC = 600, discharge_otp_dC = 700, discharge_otp_recovery_dC = 600,
      charge_utp_dC = -100, charge_utp_recovery_dC = 0, mosfet_otp_dC = 800, mosfet_otp_recovery_dC = 700,
      cell_count = 16, charging_switch_on = True, discharging_switch_on = True, balancer_switch_on = True,
      nominal_capacity_mah = 314000, scp_delay_us = 5, start_balance_mv = 3000\<rparr>"

definition ascii :: "string \<Rightarrow> bytes" where
  "ascii s = map of_char s"

definition captured_device :: JkDeviceInfo where
  "captured_device =
     \<lparr>vendor_id = ascii ''JK_BD6A20S10P'', hardware_version = ascii ''19H'', firmware_version = ascii ''19.17'',
      uptime_s = 5021700, power_on_count = 8, device_name = ascii ''15kwt'', login_password = ascii ''1234'',
      manufacturing_date = ascii ''260303'', serial_number = ascii ''50930AN3A000183'', user_data_1 = ascii ''JK-BMS'',
      settings_password = ascii ''123456'', user_data_2 = ascii ''JK-BMS'', uart1_protocol = 1, can_protocol = 0,
      uart2_protocol = 1, lcd_buzzer_trigger_protocol = 9, lcd_buzzer_trigger_value = 100, lcd_buzzer_release_value = 95,
      data_store_period_s = 3600, rcv_time_01h = 5, rfv_time_01h = 50, emerg_time = 30, rebulk_soc_pct = 1\<rparr>"

section \<open>A request of a Deye inverter\<close>

text \<open>The second says \<open>LENID = 2\<close> and carries no info byte.\<close>

definition kSniffedAnalogRequest :: bytes where
  "kSniffedAnalogRequest = [0x7E] @ ascii ''20024642E00202FD33'' @ [0x0D]"

definition kSniffedSystemParamRequest :: bytes where
  "kSniffedSystemParamRequest = [0x7E] @ ascii ''20024647E002FD90'' @ [0x0D]"

text \<open>\<open>make_request\<close> of the tests.\<close>

definition make_request :: "u8 \<Rightarrow> PylontechFrame" where
  "make_request cid2 = default_frame\<lparr>f_adr := 2, f_cid2 := cid2, f_info := [2]\<rparr>"

section \<open>The captured frames in the assembler and the driver\<close>

lemma captured_good:
  "good_frame kSniffedCellInfoFrame" "good_frame kSniffedSettingsFrame" "good_frame kSniffedDeviceInfoFrame"
  by code_simp+

lemma captured_values:
  "parse_cell_info kSniffedCellInfoFrame JkCellInfo_default JkPackInfo_default = Some (True, captured_cells, captured_pack)"
  "parse_settings kSniffedSettingsFrame JkSettings_default = Some (True, captured_settings)"
  "parse_device_info kSniffedDeviceInfoFrame JkDeviceInfo_default = Some (True, captured_device)"
  by code_simp+

lemma captured_dispatch:
  "jk_dispatch kSniffedCellInfoFrame Parsed_default =
     Some (Parsed_default\<lparr>p_telemetry := Some \<lparr>t_cells = captured_cells, t_pack = captured_pack\<rparr>\<rparr>)"
  "jk_dispatch kSniffedSettingsFrame Parsed_default = Some (Parsed_default\<lparr>p_settings := Some captured_settings\<rparr>)"
proof -
  have t: "jk_response_frame_type kSniffedCellInfoFrame = Some (Some kJkFrameTypeCellInfo)"
    "jk_response_frame_type kSniffedSettingsFrame = Some (Some kJkFrameTypeSettings)"
    by code_simp+
  show "jk_dispatch kSniffedCellInfoFrame Parsed_default =
     Some (Parsed_default\<lparr>p_telemetry := Some \<lparr>t_cells = captured_cells, t_pack = captured_pack\<rparr>\<rparr>)"
    by (simp add: jk_dispatch_def t captured_values(1))
  show "jk_dispatch kSniffedSettingsFrame Parsed_default = Some (Parsed_default\<lparr>p_settings := Some captured_settings\<rparr>)"
    by (simp add: jk_dispatch_def t captured_values(2) kJkFrameTypeCellInfo_def kJkFrameTypeDeviceInfo_def kJkFrameTypeSettings_def)
qed

lemma feed_captured:
  assumes "asm_buf s = []" "asm_ready s = []" "good_frame fr" "jk_dispatch fr Parsed_default = Some out"
  shows "jk_feed s fr = Some (s, out)"
proof -
  have "fr \<noteq> []" using assms(3) by (auto simp: good_frame_def kJkResponseSize_def)
  moreover have "push_chunk s fr = s\<lparr>asm_ready := fr\<rparr>" by (rule push_frame [OF assms(3,1)])
  moreover have "s\<lparr>asm_ready := []\<rparr> = s" using assms(2) by simp
  ultimately show ?thesis using jk_feed_frame [of s fr fr out] assms(4) by simp
qed

section \<open>A session\<close>

text \<open>The battery of 314 Ah after the link came up and the two frames arrived.\<close>

definition captured_battery :: "clocks \<Rightarrow> BatteryObj" where
  "captured_battery ck = \<lparr>b_cfg = sample_config ''a'' Bluetooth 314 [],
     b_state = h_state (handler_run jk_ops \<lparr>history_interval = 5000, state_update_interval = 500\<rparr>
       [LinkUp, Received ck kSniffedSettingsFrame, Received ck kSniffedCellInfoFrame] (handler_init assembler_init))\<rparr>"

lemma captured_state:
  assumes "ck_now ck \<ge> 500"
  shows "b_state (captured_battery ck) = \<lparr>ss_connected = True, ss_cells = Some captured_cells, ss_pack = Some captured_pack,
    ss_settings = Some captured_settings, ss_updated_at = ck_stamp ck\<rparr>"
proof -
  have f: "jk_feed assembler_init kSniffedSettingsFrame = Some (assembler_init, Parsed_default\<lparr>p_settings := Some captured_settings\<rparr>)"
    "jk_feed assembler_init kSniffedCellInfoFrame = Some (assembler_init,
      Parsed_default\<lparr>p_telemetry := Some \<lparr>t_cells = captured_cells, t_pack = captured_pack\<rparr>\<rparr>)"
    using feed_captured [OF _ _ captured_good(2) captured_dispatch(2), of assembler_init]
      feed_captured [OF _ _ captured_good(1) captured_dispatch(1), of assembler_init]
    by (simp_all add: assembler_init_def)
  have r: "jk_reset assembler_init = assembler_init" by (simp add: jk_reset_def assembler_reset_def assembler_init_def)
  show ?thesis
    using assms
    by (simp add: captured_battery_def handler_ops jk_ops_def handler_init_def r f Parsed_default_def
        set_connected_def shared_init_def apply_settings_def apply_telemetry_def send_def)
qed

lemma captured_answer:
  "case build_analog_response (make_request 0x42) captured_cells (slice_pack 5 captured_pack) of None \<Rightarrow> False
   | Some wire \<Rightarrow> (case try_parse_pylontech wire default_frame of None \<Rightarrow> False
     | Some (n, f) \<Rightarrow> n = int (length wire) \<and> f_adr f = 2 \<and> f_cid2 f = 0 \<and>
         (case AnalogResponse_deserialize (f_info f) of (ok, a) \<Rightarrow> ok \<and> a_cell_voltages_mv a = voltages_mv captured_cells \<and>
           a_module_voltage_mv a = 52671 \<and> a_current_01a a = -47 \<and> a_total_capacity_mah a = 62800 \<and>
           a_remain_capacity_mah a = 46665 \<and> a_cycle_count a = 30))"
  by code_simp

section \<open>Properties\<close>

text \<open>The frames captured from a real BMS and a real inverter parse to exactly what the tests of the repository
  expect, the frame of another type is refused, and junk, a missing end and a damaged checksum give the verdicts
  of the tests.\<close>

theorem captured_frames_parse:
  "parse_cell_info kSniffedCellInfoFrame JkCellInfo_default JkPackInfo_default = Some (True, captured_cells, captured_pack) \<and>
   parse_settings kSniffedSettingsFrame JkSettings_default = Some (True, captured_settings) \<and>
   parse_device_info kSniffedDeviceInfoFrame JkDeviceInfo_default = Some (True, captured_device) \<and>
   parse_cell_info kSniffedDeviceInfoFrame JkCellInfo_default JkPackInfo_default = Some (False, JkCellInfo_default, JkPackInfo_default) \<and>
   parse_settings kSniffedCellInfoFrame JkSettings_default = Some (False, JkSettings_default) \<and>
   parse_device_info kSniffedCellInfoFrame JkDeviceInfo_default = Some (False, JkDeviceInfo_default) \<and>
   try_parse_pylontech kSniffedAnalogRequest default_frame = Some (20, make_request 0x42) \<and>
   try_parse_pylontech kSniffedSystemParamRequest default_frame = Some (18, (make_request 0x47)\<lparr>f_info := []\<rparr>) \<and>
   map_option fst (try_parse_pylontech (take 19 kSniffedAnalogRequest) default_frame) = Some 0 \<and>
   map_option fst (try_parse_pylontech ([0xAA, 0xBB, 0xCC] @ kSniffedAnalogRequest) default_frame) = Some (-3) \<and>
   map_option (\<lambda>r. fst r < 0) (try_parse_pylontech (kSniffedAnalogRequest[16 := 0x30]) default_frame) = Some True"
proof (intro conjI)
  show "parse_cell_info kSniffedCellInfoFrame JkCellInfo_default JkPackInfo_default = Some (True, captured_cells, captured_pack)"
    "parse_settings kSniffedSettingsFrame JkSettings_default = Some (True, captured_settings)"
    "parse_device_info kSniffedDeviceInfoFrame JkDeviceInfo_default = Some (True, captured_device)"
    by (fact captured_values)+
qed code_simp+

text \<open>A session of both ends: after the captured settings and cell frames have arrived over the link, the inverter's captured
  request is answered while they are fresh, and the answer, parsed and decoded as a master does, holds the captured cell
  voltages and pack voltage, and one fifth of the capacity and of the current, the battery being shown as five modules.\<close>

theorem captured_session:
  assumes "500 \<le> ck_now ck" "now - ck_stamp ck \<le> 5000"
  shows "\<exists>wire f a. respond [captured_battery ck] (build_address_map [captured_battery ck]) now (make_request 0x42) = Some (Some wire) \<and>
    try_parse_pylontech wire default_frame = Some (int (length wire), f) \<and> f_adr f = 2 \<and> f_cid2 f = 0 \<and>
    AnalogResponse_deserialize (f_info f) = (True, a) \<and> a_cell_voltages_mv a = voltages_mv captured_cells \<and>
    a_module_voltage_mv a = 52671 \<and> a_current_01a a = -47 \<and> a_total_capacity_mah a = 62800 \<and>
    a_remain_capacity_mah a = 46665 \<and> a_cycle_count a = 30"
proof -
  let ?bs = "[captured_battery ck]" and ?r = "make_request 0x42"
  have cfg: "b_cfg (captured_battery ck) = sample_config ''a'' Bluetooth 314 []" by (simp add: captured_battery_def)
  have n: "module_count_for_capacity (configured_mah (sample_config ''a'' Bluetooth 314 [])) = 5" by code_simp
  have m: "bc_monitored (sample_config ''a'' Bluetooth 314 [])" by (simp add: bc_monitored_def sample_config_def)
  have slots: "build_address_map ?bs = replicate 5 \<lparr>sl_battery = 0, sl_mirror = None, sl_module_count = 5\<rparr>"
    by (simp add: build_address_map_def battery_slots_def cfg n m mirror_of_def Let_def)
  have "respond ?bs (build_address_map ?bs) now ?r =
      map_option Some (build_analog_response ?r captured_cells (slice_pack 5 captured_pack))"
    using assms by (simp add: respond_def slots make_request_def default_frame_def kBaseAddress_def captured_state
        snapshot_def is_fresh_def kFreshMs_def Let_def)
  then show ?thesis using captured_answer by (auto split: option.splits prod.splits)
qed

lemma captured_session_witness:
  "\<exists>wire f. respond [captured_battery \<lparr>ck_now = 1000, ck_wall = 0, ck_stamp = 1000\<rparr>]
       (build_address_map [captured_battery \<lparr>ck_now = 1000, ck_wall = 0, ck_stamp = 1000\<rparr>]) 3000 (make_request 0x42) = Some (Some wire) \<and>
     try_parse_pylontech wire default_frame = Some (int (length wire), f)"
  using captured_session [of "\<lparr>ck_now = 1000, ck_wall = 0, ck_stamp = 1000\<rparr>" 3000] by auto

end
