(* ===== verification/Ble_Run.thy ===== *)
theory Ble_Run
  imports Ble_Client
begin

text \<open>
  src/ble_client.cpp, \<open>run\<close>: the loop of each management thread around the handlers of
  \<open>Ble_Client\<close>.  \<open>epoll_wait\<close> gives a batch of readable descriptors; the batch is handled one by one
  with whatever changed in between, so an entry may be stale when its turn comes.  The thread also ends
  when \<open>epoll_create1\<close> or \<open>epoll_wait\<close> fails.  Every run of these loops is a run of the steps of
  \<open>Ble_Client\<close>, so what is shown there holds of them.
\<close>

section \<open>The calls of the Bluetooth library\<close>

text \<open>What the calls answer when an adapter is looked for: \<open>None\<close> is an exception.\<close>

record ProbeEnv =
  pb_enabled :: "bool option"
  pb_adapters :: "string list option"

definition probe_adapter :: "ProbeEnv \<Rightarrow> BleClient \<Rightarrow> bool \<times> BleClient" where
  "probe_adapter env c =
    (if pb_enabled env = Some True
     then case pb_adapters env of
         Some (a # _) \<Rightarrow> (True, c\<lparr>cl_adapter := True\<rparr>)
       | _ \<Rightarrow> (False, c)
     else (False, c))"

text \<open>The case \<open>WaitAdapter\<close> of \<open>enter\<close> with that call in it.\<close>

definition wait_adapter_calls :: "BleSettings \<Rightarrow> ProbeEnv \<Rightarrow> nat \<Rightarrow> World \<Rightarrow> World" where
  "wait_adapter_calls cfg env i w =
    (let w = upd i (\<lambda>c. c\<lparr>cl_state := WaitAdapter\<rparr>) w;
         (found, c) = probe_adapter env (w_client w i);
         w = upd i (\<lambda>_. c) w
     in if found then enter_wait_slot i (upd i (\<lambda>c. c\<lparr>cl_adapter_warned := False\<rparr>) w)
        else upd i (\<lambda>c. c\<lparr>cl_adapter_warned := True, cl_timer := Some (sint (ble_adapter_poll_ms cfg))\<rparr>) w)"

text \<open>What the calls answer during a connect (\<open>is_connected\<close> and \<open>services\<close> stand outside the \<open>try\<close> blocks and are
  taken not to throw): whether \<open>connect\<close> and \<open>notify\<close> return without an exception, whether the
  peripheral says it is connected, and whether the link was lost, with its callback, before \<open>enter(Online)\<close> or
  \<open>enter(Backoff)\<close>.\<close>

record ConnectEnv =
  ce_connect :: bool
  ce_connected :: bool
  ce_notify :: bool
  ce_lost :: bool

definition connect_to_peripheral :: "ConnectEnv \<Rightarrow> BleClient \<Rightarrow> bool \<times> BleClient" where
  "connect_to_peripheral env c =
    (if \<not> cl_peripheral c then (False, c)
     else if \<not> ce_connect env then (False, c\<lparr>cl_peripheral := False\<rparr>)
     else let c = c\<lparr>cl_work := (cl_work c \<or> ce_lost env)\<rparr>
     in if \<not> ce_connected env then (False, c\<lparr>cl_peripheral := False\<rparr>)
     else if \<not> ce_notify env then (False, c\<lparr>cl_work := True, cl_peripheral := False\<rparr>)
     else (True, c\<lparr>cl_queue := queue_push EvConnected (cl_queue c), cl_link := \<not> ce_lost env\<rparr>))"

definition connect_calls :: "BleSettings \<Rightarrow> ConnectEnv \<Rightarrow> nat \<Rightarrow> World \<Rightarrow> World" where
  "connect_calls cfg env i w =
    (let (ok, c) = connect_to_peripheral env (w_client w i); w = upd i (\<lambda>_. c) w
     in if ok then enter_online i w else enter_backoff cfg i w)"

lemma wait_adapter_calls_eq:
  "wait_adapter_calls cfg env i w =
    enter_wait_adapter cfg (pb_enabled env = Some True \<and> (case pb_adapters env of Some (a # _) \<Rightarrow> True | _ \<Rightarrow> False)) i w"
  by (simp add: wait_adapter_calls_def probe_adapter_def enter_wait_adapter_def Let_def split: option.split list.split)

lemma connect_calls_eq:
  assumes "cl_peripheral (w_client w i)"
  shows "connect_calls cfg env i w =
    connect_done cfg (ce_connect env \<and> ce_connected env \<and> ce_notify env)
      (ce_connect env \<and> (ce_lost env \<or> ce_connected env \<and> \<not> ce_notify env)) i w"
  using assms
  by (cases "w_client w i")
     (simp add: connect_calls_def connect_to_peripheral_def connect_done_def Let_def split: if_split)

lemma same_range:
  assumes "\<And>x. \<exists>y. f x = g y" "\<And>y. \<exists>x. f x = g y"
  shows "range f = range g"
  using assms by (auto simp: image_iff) metis

text \<open>A client that connects has a peripheral.\<close>

lemma connecting_apply:
  assumes "cl_state (w_client w k) = Connect \<longrightarrow> cl_peripheral (w_client w k)" "ble_apply cfg l w = Some w'"
  shows "cl_state (w_client w' k) = Connect \<longrightarrow> cl_peripheral (w_client w' k)"
  using assms
  by (cases l) (auto simp: step_defs split: if_splits ClientState.splits prod.splits)

lemma connecting: "ble_reachable cfg w \<Longrightarrow> cl_state (w_client w k) = Connect \<longrightarrow> cl_peripheral (w_client w k)"
proof (induction rule: ble_reachable.induct)
  case start
  show ?case by (simp add: world_init_def client_init_def)
qed (rule connecting_apply)

section \<open>Loops\<close>

datatype RunFd = StopFd | WorkFd | SlotFd | TimerFd

text \<open>A thread that was not started, that is in the loop with the rest of its batch, or that ended.\<close>

datatype phase = NotStarted | InBatch "RunFd list" | Ended

record RunWorld =
  rw_world :: World
  rw_stop :: "nat \<Rightarrow> bool"
  rw_phase :: "nat \<Rightarrow> phase"

definition run_init :: RunWorld where
  "run_init = \<lparr>rw_world = world_init, rw_stop = (\<lambda>_. False), rw_phase = (\<lambda>_. NotStarted)\<rparr>"

text \<open>A timer is readable only after it was armed; when it expires is up to the clock.  The registrations are
  level triggered and there is room for all four descriptors, so \<open>epoll_wait\<close> reports every event whose flag is
  set, and the timer if it has expired, in any order.\<close>

fun readable :: "RunWorld \<Rightarrow> nat \<Rightarrow> RunFd \<Rightarrow> bool" where
  "readable r i StopFd = rw_stop r i"
| "readable r i WorkFd = cl_work (w_client (rw_world r) i)"
| "readable r i SlotFd = cl_slot (w_client (rw_world r) i)"
| "readable r i TimerFd = (cl_timer (w_client (rw_world r) i) \<noteq> None)"

fun handle_fd :: "BleSettings \<Rightarrow> bool \<Rightarrow> nat \<Rightarrow> RunFd \<Rightarrow> World \<Rightarrow> World" where
  "handle_fd cfg b i StopFd w = on_stop_event i w"
| "handle_fd cfg b i WorkFd w = on_work_event cfg i (upd i (\<lambda>c. c\<lparr>cl_work := False\<rparr>) w)"
| "handle_fd cfg b i SlotFd w = on_slot_event cfg b i (upd i (\<lambda>c. c\<lparr>cl_slot := False\<rparr>) w)"
| "handle_fd cfg b i TimerFd w = on_timer_expired cfg b i w"

abbreviation set_phase :: "nat \<Rightarrow> phase \<Rightarrow> RunWorld \<Rightarrow> RunWorld" where
  "set_phase i p r \<equiv> r\<lparr>rw_phase := (rw_phase r)(i := p)\<rparr>"

text \<open>What the library, the dispatcher thread and the coordinator do at any time.\<close>

fun outside :: "ble_label \<Rightarrow> bool" where
  "outside (Signalled i) = True"
| "outside (ScanFound i addr ident) = True"
| "outside (LinkLost i) = True"
| "outside (Sends i written) = True"
| "outside (Notified i payload) = True"
| "outside _ = False"

datatype run_label =
    RunStart nat bool bool | Wait nat "RunFd list" | WaitFails nat | Handle nat bool
  | Connected nat bool bool | RequestStop nat | Outside ble_label

fun run_apply :: "(nat \<Rightarrow> BleSettings) \<Rightarrow> run_label \<Rightarrow> RunWorld \<Rightarrow> RunWorld option" where
  "run_apply cfg (RunStart i created probe) r =
     (if rw_phase r i \<noteq> NotStarted then None
      else if \<not> created then Some (set_phase i Ended r)
      else Some (set_phase i (InBatch []) (r\<lparr>rw_world := enter_wait_adapter (cfg i) probe i (rw_world r)\<rparr>)))"
| "run_apply cfg (Wait i fds) r =
     (if rw_phase r i = InBatch [] \<and> cl_state (w_client (rw_world r) i) \<noteq> Connect \<and>
         fds \<noteq> [] \<and> distinct fds \<and> list_all (readable r i) fds \<and>
         list_all (\<lambda>fd. fd \<in> set fds) (filter (readable r i) [StopFd, WorkFd, SlotFd])
      then Some (set_phase i (InBatch fds) r) else None)"
| "run_apply cfg (WaitFails i) r =
     (if rw_phase r i = InBatch [] \<and> cl_state (w_client (rw_world r) i) \<noteq> Connect
      then Some (set_phase i Ended r) else None)"
| "run_apply cfg (Handle i b) r =
     (case rw_phase r i of
        InBatch (fd # fds) \<Rightarrow>
          if cl_state (w_client (rw_world r) i) = Connect then None
          else let w = handle_fd (cfg i) b i fd (rw_world r);
                   r = (if fd = StopFd then r\<lparr>rw_stop := (rw_stop r)(i := False)\<rparr> else r)
               in Some (set_phase i (if cl_state (w_client w i) = Stopping then Ended else InBatch fds) (r\<lparr>rw_world := w\<rparr>))
      | _ \<Rightarrow> None)"
| "run_apply cfg (Connected i ok lost) r =
     (if cl_state (w_client (rw_world r) i) = Connect
      then Some (r\<lparr>rw_world := connect_done (cfg i) ok lost i (rw_world r)\<rparr>) else None)"
| "run_apply cfg (RequestStop i) r = Some (r\<lparr>rw_stop := (rw_stop r)(i := True)\<rparr>)"
| "run_apply cfg (Outside l) r =
     (if outside l then map_option (\<lambda>w. r\<lparr>rw_world := w\<rparr>) (ble_apply cfg l (rw_world r)) else None)"

fun run_labels :: "(nat \<Rightarrow> BleSettings) \<Rightarrow> run_label list \<Rightarrow> RunWorld \<Rightarrow> RunWorld option" where
  "run_labels cfg [] r = Some r"
| "run_labels cfg (l # ls) r = do { r' \<leftarrow> run_apply cfg l r; run_labels cfg ls r' }"

inductive run_reachable :: "(nat \<Rightarrow> BleSettings) \<Rightarrow> RunWorld \<Rightarrow> bool" for cfg where
  Init: "run_reachable cfg run_init"
| Next: "run_reachable cfg r \<Longrightarrow> run_apply cfg l r = Some r' \<Longrightarrow> run_reachable cfg r'"

lemma run_labels_reachable: "run_reachable cfg r \<Longrightarrow> run_labels cfg ls r = Some r' \<Longrightarrow> run_reachable cfg r'"
  by (induction ls arbitrary: r) (auto split: Option.bind_splits intro: run_reachable.Next)

lemma run_labels_append:
  "run_labels cfg (as @ bs) r = (case run_labels cfg as r of None \<Rightarrow> None | Some r' \<Rightarrow> run_labels cfg bs r')"
  by (induction as arbitrary: r) (simp_all split: Option.bind_splits)

section \<open>A stale entry does nothing\<close>

text \<open>A client in \<open>Scan\<close> with a match has its work event set; the batch of a loop names the slot event only while it is
  set, and the work event of an online client only while it is set.\<close>

definition loop_ok :: "phase \<Rightarrow> BleClient \<Rightarrow> bool" where
  "loop_ok ph c \<longleftrightarrow> (cl_state c = Scan \<and> cl_match c \<longrightarrow> cl_work c) \<and>
     (case ph of NotStarted \<Rightarrow> cl_state c = WaitAdapter
      | InBatch fds \<Rightarrow> distinct fds \<and> cl_state c \<noteq> Stopping \<and> (SlotFd \<in> set fds \<longrightarrow> cl_slot c) \<and>
          (WorkFd \<in> set fds \<longrightarrow> cl_state c \<noteq> Connect \<and> (cl_state c = Online \<longrightarrow> cl_work c))
      | Ended \<Rightarrow> cl_state c \<noteq> Connect)"

definition run_ok :: "RunWorld \<Rightarrow> bool" where
  "run_ok r \<longleftrightarrow> (\<forall>i. loop_ok (rw_phase r i) (w_client (rw_world r) i))"

lemma stale_work:
  assumes "\<not> cl_work (w_client w i)" "cl_state (w_client w i) = Scan \<longrightarrow> \<not> cl_match (w_client w i)"
    "cl_state (w_client w i) \<noteq> Online"
  shows "on_work_event cfg i (upd i (\<lambda>c. c\<lparr>cl_work := False\<rparr>) w) = w"
proof -
  have "(w_client w i)\<lparr>cl_work := False\<rparr> = w_client w i" using assms(1) by (cases "w_client w i") simp
  then have work: "upd i (\<lambda>c. c\<lparr>cl_work := False\<rparr>) w = w" by simp
  have matched: "upd i (\<lambda>c. c\<lparr>cl_match := False\<rparr>) w = w" if "\<not> cl_match (w_client w i)"
  proof -
    have "(w_client w i)\<lparr>cl_match := False\<rparr> = w_client w i" using that by (cases "w_client w i") simp
    then show ?thesis by simp
  qed
  show ?thesis unfolding work using assms(2,3) matched
    by (cases "cl_state (w_client w i)") (simp_all add: on_work_event_def Let_def)
qed

lemma others_kept:
  assumes "j \<noteq> i"
  shows "w_client (handle_fd cfg b i fd w) j = w_client w j" "w_client (connect_done cfg ok lost i w) j = w_client w j"
    "w_client (enter_wait_adapter cfg probe i w) j = w_client w j"
  using assms by (cases fd; auto simp: step_defs split: ClientState.splits prod.splits if_splits)+

lemma handle_ok:
  assumes "loop_ok (InBatch (fd # fds)) (w_client w i)" "cl_state (w_client w i) \<noteq> Connect"
  shows "loop_ok (if cl_state (w_client (handle_fd cfg b i fd w) i) = Stopping then Ended else InBatch fds)
    (w_client (handle_fd cfg b i fd w) i)"
  using assms
  by (cases fd) (auto simp: loop_ok_def step_defs split: ClientState.splits prod.splits if_splits)

lemma handle_step:
  assumes "loop_ok (InBatch (fd # fds)) (w_client w i)" "cl_state (w_client w i) \<noteq> Connect"
  shows "handle_fd (cfg i) b i fd w = w \<or> (\<exists>l. ble_apply cfg l w = Some (handle_fd (cfg i) b i fd w))"
proof -
  have l: "in_loop (w_client w i)" using assms by (simp add: in_loop_def loop_ok_def)
  show ?thesis
  proof (cases fd)
    case StopFd
    then have "ble_apply cfg (StopEvent i) w = Some (handle_fd (cfg i) b i fd w)" using l by simp
    then show ?thesis by blast
  next
    case WorkFd
    show ?thesis
    proof (cases "cl_work (w_client w i)")
      case True
      then have "ble_apply cfg (WorkEvent i) w = Some (handle_fd (cfg i) b i fd w)" using l WorkFd by simp
      then show ?thesis by blast
    next
      case False
      then have "handle_fd (cfg i) b i fd w = w" using assms(1) WorkFd by (auto simp: loop_ok_def intro!: stale_work)
      then show ?thesis by blast
    qed
  next
    case SlotFd
    then have "ble_apply cfg (SlotEvent i b) w = Some (handle_fd (cfg i) b i fd w)"
      using l assms(1) by (simp add: loop_ok_def)
    then show ?thesis by blast
  next
    case TimerFd
    then have "ble_apply cfg (TimerFires i b) w = Some (handle_fd (cfg i) b i fd w)" using l by simp
    then show ?thesis by blast
  qed
qed

lemma loop_ok_mono:
  assumes "loop_ok ph c" "cl_state c' = cl_state c" "cl_slot c \<longrightarrow> cl_slot c'" "cl_work c \<longrightarrow> cl_work c'"
    "cl_match c' \<longrightarrow> cl_match c \<or> cl_work c'"
  shows "loop_ok ph c'"
  using assms by (cases ph) (auto simp: loop_ok_def)

lemma outside_ok:
  assumes "outside l" "ble_apply cfg l w = Some w'" "\<And>j. loop_ok (ph j) (w_client w j)"
  shows "loop_ok (ph j) (w_client w' j)"
  using assms(1,2) loop_ok_mono [OF assms(3) [of j]]
  by (cases l) (auto split: if_splits)

lemma connect_done_ok:
  assumes "loop_ok ph (w_client w i)" "cl_state (w_client w i) = Connect"
  shows "loop_ok ph (w_client (connect_done cfg ok lost i w) i)"
  using assms by (cases ph) (auto simp: loop_ok_def step_defs)

lemma start_ok:
  "cl_state (w_client w i) = WaitAdapter \<Longrightarrow> loop_ok (InBatch []) (w_client (enter_wait_adapter cfg probe i w) i)"
  by (simp add: loop_ok_def step_defs)

section \<open>Loops refine the steps\<close>

text \<open>One step of a loop is no step or one step of \<open>Ble_Client\<close>.\<close>

lemma run_apply_refines:
  assumes "run_ok r" "run_apply cfg l r = Some r'"
  shows "rw_world r' = rw_world r \<or> (\<exists>l'. ble_apply cfg l' (rw_world r) = Some (rw_world r'))"
proof (cases l)
  case (RunStart i created probe)
  have "created \<Longrightarrow> rw_phase r i = NotStarted \<Longrightarrow>
      ble_apply cfg (TimerFires i probe) (rw_world r) = Some (enter_wait_adapter (cfg i) probe i (rw_world r))"
    using assms(1) by (auto simp: run_ok_def loop_ok_def in_loop_def on_timer_expired_def dest!: spec [of _ i])
  moreover have "rw_world r' = (if created then enter_wait_adapter (cfg i) probe i (rw_world r) else rw_world r)"
    "rw_phase r i = NotStarted"
    using assms(2) RunStart by (auto split: if_splits)
  ultimately show ?thesis by (cases created) (auto simp del: ble_apply.simps)
next
  case (Handle i b)
  then obtain fd fds where h: "rw_phase r i = InBatch (fd # fds)" "cl_state (w_client (rw_world r) i) \<noteq> Connect"
    "rw_world r' = handle_fd (cfg i) b i fd (rw_world r)"
    using assms(2) by (auto simp: Let_def split: phase.splits list.splits if_splits)
  have "loop_ok (InBatch (fd # fds)) (w_client (rw_world r) i)" using assms(1) h(1) by (auto simp: run_ok_def dest!: spec [of _ i])
  from handle_step [OF this h(2), of cfg b] h(3) show ?thesis by simp
next
  case (Connected i ok lost)
  then have "ble_apply cfg (ConnectDone i ok lost) (rw_world r) = Some (rw_world r')" using assms(2) by (auto split: if_splits)
  then show ?thesis by blast
next
  case (Outside l')
  then show ?thesis using assms(2) by (auto split: if_splits)
qed (use assms(2) in \<open>auto split: if_splits\<close>)

lemma run_apply_ok:
  assumes "run_ok r" "run_apply cfg l r = Some r'"
  shows "run_ok r'"
proof -
  have ok: "loop_ok (rw_phase r i) (w_client (rw_world r) i)" for i using assms(1) by (simp add: run_ok_def)
  show ?thesis
  proof (cases l)
    case (RunStart i created probe)
    then have "rw_phase r i = NotStarted" using assms(2) by (auto split: if_splits)
    then have "cl_state (w_client (rw_world r) i) = WaitAdapter" using ok [of i] by (simp add: loop_ok_def)
    then show ?thesis using assms(2) RunStart ok start_ok
      by (auto simp: run_ok_def others_kept(3) loop_ok_def [of Ended] split: if_splits)
  next
    case (Wait i fds)
    then have w: "rw_phase r i = InBatch []" "cl_state (w_client (rw_world r) i) \<noteq> Connect" "distinct fds"
      "list_all (readable r i) fds" "r' = set_phase i (InBatch fds) r"
      using assms(2) by (auto split: if_splits)
    have "loop_ok (InBatch []) (w_client (rw_world r) i)" using ok [of i] w(1) by simp
    then have "loop_ok (InBatch fds) (w_client (rw_world r) i)" using w(2-4) by (auto simp: loop_ok_def list_all_iff)
    then show ?thesis using ok w(5) by (simp add: run_ok_def)
  next
    case (WaitFails i)
    then have w: "cl_state (w_client (rw_world r) i) \<noteq> Connect" "r' = set_phase i Ended r" using assms(2) by (auto split: if_splits)
    have "loop_ok Ended (w_client (rw_world r) i)" using ok [of i] w(1) by (simp add: loop_ok_def)
    then show ?thesis using ok w(2) by (simp add: run_ok_def)
  next
    case (Handle i b)
    then obtain fd fds where h: "rw_phase r i = InBatch (fd # fds)" "cl_state (w_client (rw_world r) i) \<noteq> Connect"
      "rw_world r' = handle_fd (cfg i) b i fd (rw_world r)"
      "rw_phase r' = (rw_phase r)(i := if cl_state (w_client (rw_world r') i) = Stopping then Ended else InBatch fds)"
      using assms(2) by (auto simp: Let_def split: phase.splits list.splits if_splits)
    have "loop_ok (InBatch (fd # fds)) (w_client (rw_world r) i)" using ok [of i] h(1) by simp
    note own = handle_ok [OF this h(2), of "cfg i" b]
    have "loop_ok (rw_phase r' j) (w_client (rw_world r') j)" for j
      using own ok [of j] h(3,4) by (cases "j = i") (simp_all add: others_kept(1) del: handle_fd.simps)
    then show ?thesis by (simp add: run_ok_def)
  next
    case (Connected i ok' lost)
    then show ?thesis using assms(2) ok connect_done_ok [OF ok] by (auto simp: run_ok_def others_kept(2) split: if_splits)
       (metis others_kept(2))
  next
    case (Outside l')
    then show ?thesis using assms(2) ok outside_ok [where ph = "rw_phase r"] by (fastforce simp: run_ok_def split: if_splits)
  qed (use assms in \<open>auto simp: run_ok_def\<close>)
qed

lemma run_reachable_ok: "run_reachable cfg r \<Longrightarrow> run_ok r"
proof (induction rule: run_reachable.induct)
  case Init
  show ?case by (simp add: run_ok_def run_init_def world_init_def client_init_def loop_ok_def)
qed (rule run_apply_ok)

lemma run_world_reachable: "run_reachable cfg r \<Longrightarrow> ble_reachable cfg (rw_world r)"
proof (induction rule: run_reachable.induct)
  case Init
  show ?case by (simp add: run_init_def ble_reachable.start)
next
  case (Next r l r')
  from run_apply_refines [OF run_reachable_ok [OF Next.hyps(1)] Next.hyps(2)] Next.IH
  show ?case by (metis ble_reachable.step)
qed

section \<open>The slot of a thread that ended\<close>

lemma holder_kept:
  assumes "co_holder (w_co w) = Some i" "j \<noteq> i"
  shows "co_holder (w_co (handle_fd cfg b j fd w)) = Some i"
    "co_holder (w_co (connect_done cfg ok lost j w)) = Some i"
    "co_holder (w_co (enter_wait_adapter cfg probe j w)) = Some i"
  using assms
  by (cases fd; auto simp: step_defs coordinator_defs split: ClientState.splits prod.splits if_splits)+

lemma outside_holder: "outside l \<Longrightarrow> ble_apply cfg l w = Some w' \<Longrightarrow> w_co w' = w_co w"
  by (cases l) (auto split: if_splits)

definition slot_lost :: "nat \<Rightarrow> RunWorld \<Rightarrow> bool" where
  "slot_lost i r \<longleftrightarrow> rw_phase r i = Ended \<and> co_holder (w_co (rw_world r)) = Some i"

lemma slot_lost_step:
  assumes "run_ok r" "slot_lost i r" "run_apply cfg l r = Some r'"
  shows "slot_lost i r'"
proof -
  have p: "rw_phase r i = Ended" "co_holder (w_co (rw_world r)) = Some i" using assms(2) by (simp_all add: slot_lost_def)
  have c: "cl_state (w_client (rw_world r) i) \<noteq> Connect"
    using assms(1) p(1) by (auto simp: run_ok_def loop_ok_def dest!: spec [of _ i])
  show ?thesis
  proof (cases l)
    case (Outside l')
    then obtain w' where w: "outside l'" "ble_apply cfg l' (rw_world r) = Some w'" "r' = r\<lparr>rw_world := w'\<rparr>"
      using assms(3) by (auto split: if_splits)
    from outside_holder [OF w(1,2)] p w(3) show ?thesis by (simp add: slot_lost_def)
  next
    case (Handle j b)
    then show ?thesis using assms(3) p
      by (cases "j = i") (auto simp: slot_lost_def Let_def holder_kept(1) simp del: handle_fd.simps split: phase.splits list.splits if_splits)
  next
    case (Connected j ok lost)
    then show ?thesis using assms(3) p c
      by (cases "j = i") (auto simp: slot_lost_def holder_kept(2) split: if_splits)
  next
    case (RunStart j created probe)
    then show ?thesis using assms(3) p
      by (cases "j = i") (auto simp: slot_lost_def holder_kept(3) split: if_splits)
  qed (use assms(3) p in \<open>auto simp: slot_lost_def split: if_splits\<close>)
qed

lemma slot_lost_run:
  "run_ok r \<Longrightarrow> slot_lost i r \<Longrightarrow> run_labels cfg ls r = Some r' \<Longrightarrow> slot_lost i r'"
  by (induction ls arbitrary: r) (auto split: Option.bind_splits dest: run_apply_ok slot_lost_step)

section \<open>Stopping\<close>

text \<open>The steps of the thread itself, the return from a blocking connect included.\<close>

fun own :: "nat \<Rightarrow> run_label \<Rightarrow> bool" where
  "own i (Wait j fds) = (j = i)"
| "own i (WaitFails j) = (j = i)"
| "own i (Handle j b) = (j = i)"
| "own i (Connected j ok lost) = (j = i)"
| "own i _ = False"

text \<open>How many own steps a thread whose stop event is set has left at most.\<close>

definition steps_left :: "nat \<Rightarrow> RunWorld \<Rightarrow> nat" where
  "steps_left i r =
    (case rw_phase r i of
       InBatch fds \<Rightarrow> 2 * length fds + (if cl_state (w_client (rw_world r) i) = Connect then 1 else 0) +
         (if StopFd \<in> set fds then 0 else 9)
     | _ \<Rightarrow> 0)"

definition stop_pending :: "nat \<Rightarrow> RunWorld \<Rightarrow> bool" where
  "stop_pending i r \<longleftrightarrow> rw_stop r i \<and> (\<exists>fds. rw_phase r i = InBatch fds)"

text \<open>The thread ended; if it left its loop by a stop, its client has let go of its peripheral.\<close>

definition thread_ended :: "bool \<Rightarrow> nat \<Rightarrow> RunWorld \<Rightarrow> bool" where
  "thread_ended failed i r \<longleftrightarrow> rw_phase r i = Ended \<and>
     (failed \<or> cl_state (w_client (rw_world r) i) = Stopping \<and> \<not> cl_peripheral (w_client (rw_world r) i))"

lemma fds_len: "distinct (fds :: RunFd list) \<Longrightarrow> length fds \<le> 4"
proof -
  assume "distinct fds"
  moreover have "x \<in> {StopFd, WorkFd, SlotFd, TimerFd}" for x by (cases x) simp_all
  then have "set fds \<subseteq> {StopFd, WorkFd, SlotFd, TimerFd}" by blast
  then have "card (set fds) \<le> card {StopFd, WorkFd, SlotFd, TimerFd}" by (intro card_mono) simp_all
  ultimately show ?thesis by (simp add: distinct_card)
qed

lemma outside_state: "outside l \<Longrightarrow> ble_apply cfg l w = Some w' \<Longrightarrow>
  cl_state (w_client w' i) = cl_state (w_client w i) \<and> cl_peripheral (w_client w' i) = cl_peripheral (w_client w i)"
  by (cases l) (auto split: if_splits)

lemma handle_not_stopping:
  assumes "loop_ok (InBatch (fd # fds)) (w_client w i)" "cl_state (w_client w i) \<noteq> Connect"
  shows "cl_state (w_client (handle_fd cfg b i fd w) i) = Stopping \<longleftrightarrow> fd = StopFd"
  using assms
  by (cases fd) (auto simp: loop_ok_def step_defs split: ClientState.splits prod.splits if_splits)

lemma handled_stop:
  "\<not> cl_peripheral (w_client (handle_fd cfg b i StopFd w) i)"
  by (simp add: on_stop_event_def teardown_peripheral_def Let_def)

lemma connected_state: "cl_state (w_client (connect_done cfg ok lost i w) i) \<in> {Online, Backoff}"
  by (simp add: connect_done_def enter_online_def enter_backoff_def Let_def)

text \<open>Each own step of a thread with a pending stop brings its end nearer, and no other step takes it back.\<close>

lemma stop_step:
  assumes ok: "run_ok r" and st: "stop_pending i r" and l: "run_apply cfg l r = Some r'"
  shows "own i l \<and> thread_ended (l = WaitFails i) i r' \<or>
    stop_pending i r' \<and> l \<noteq> WaitFails i \<and>
      (if own i l then steps_left i r' < steps_left i r else steps_left i r' = steps_left i r)"
proof -
  obtain fds where ph: "rw_phase r i = InBatch fds" "rw_stop r i" using st by (auto simp: stop_pending_def)
  have lo: "loop_ok (InBatch fds) (w_client (rw_world r) i)" using ok ph(1) by (auto simp: run_ok_def dest!: spec [of _ i])
  show ?thesis
  proof (cases l)
    case (RunStart j created probe)
    then show ?thesis using l ph
      by (cases "j = i") (auto simp: stop_pending_def steps_left_def others_kept(3) split: if_splits)
  next
    case (Wait j gs)
    show ?thesis
    proof (cases "j = i")
      case True
      then have w: "fds = []" "cl_state (w_client (rw_world r) i) \<noteq> Connect" "distinct gs" "StopFd \<in> set gs"
        "r' = set_phase i (InBatch gs) r"
        using l Wait ph by (auto split: if_splits)
      then show ?thesis using Wait True ph fds_len [OF w(3)] by (simp add: stop_pending_def steps_left_def)
    next
      case False
      then show ?thesis using l Wait ph by (auto simp: stop_pending_def steps_left_def split: if_splits)
    qed
  next
    case (WaitFails j)
    then show ?thesis using l ph
      by (cases "j = i") (auto simp: stop_pending_def steps_left_def thread_ended_def split: if_splits)
  next
    case (Handle j b)
    then obtain fd gs where h: "rw_phase r j = InBatch (fd # gs)" "cl_state (w_client (rw_world r) j) \<noteq> Connect"
      "rw_world r' = handle_fd (cfg j) b j fd (rw_world r)"
      "rw_phase r' = (rw_phase r)(j := if cl_state (w_client (rw_world r') j) = Stopping then Ended else InBatch gs)"
      "rw_stop r' = (if fd = StopFd then (rw_stop r)(j := False) else rw_stop r)"
      using l by (auto simp: Let_def split: phase.splits list.splits if_splits)
    show ?thesis
    proof (cases "j = i")
      case True
      then have f: "fds = fd # gs" using h(1) ph(1) by simp
      have c: "cl_state (w_client (rw_world r) i) \<noteq> Connect" using h(2) True by simp
      note ns = handle_not_stopping [OF lo [unfolded f] c, of "cfg i" b]
      show ?thesis
      proof (cases "fd = StopFd")
        case True
        then show ?thesis using Handle \<open>j = i\<close> ns h(3,4) handled_stop [of "cfg i" b i "rw_world r"]
          by (simp add: thread_ended_def)
      next
        case False
        then show ?thesis using Handle \<open>j = i\<close> ns h(3,4,5) ph f c
          by (simp add: stop_pending_def steps_left_def)
      qed
    next
      case False
      then show ?thesis using Handle h(3,4,5) ph
        by (simp add: stop_pending_def steps_left_def others_kept(1) del: handle_fd.simps)
    qed
  next
    case (Connected j ok' lost)
    then have c: "cl_state (w_client (rw_world r) j) = Connect"
      "r' = r\<lparr>rw_world := connect_done (cfg j) ok' lost j (rw_world r)\<rparr>"
      using l by (auto split: if_splits)
    then show ?thesis using Connected ph connected_state [of "cfg i" ok' lost i "rw_world r"]
      by (cases "j = i") (auto simp: stop_pending_def steps_left_def others_kept(2))
  next
    case (RequestStop j)
    then show ?thesis using l ph by (auto simp: stop_pending_def steps_left_def)
  next
    case (Outside l')
    then obtain w' where "outside l'" "ble_apply cfg l' (rw_world r) = Some w'" "r' = r\<lparr>rw_world := w'\<rparr>"
      using l by (auto split: if_splits)
    then show ?thesis using Outside ph outside_state [of l' cfg "rw_world r" w' i]
      by (simp add: stop_pending_def steps_left_def)
  qed
qed

lemma ended_step:
  assumes ok: "run_ok r" and e: "thread_ended failed i r" and l: "run_apply cfg l r = Some r'"
  shows "thread_ended failed i r'"
proof -
  have c: "cl_state (w_client (rw_world r) i) \<noteq> Connect" and ph: "rw_phase r i = Ended"
    using ok e by (auto simp: run_ok_def thread_ended_def loop_ok_def dest!: spec [of _ i])
  show ?thesis
  proof (cases l)
    case (Handle j b)
    then show ?thesis using l e ph
      by (cases "j = i") (auto simp: thread_ended_def Let_def others_kept(1) simp del: handle_fd.simps
        split: phase.splits list.splits if_splits)
  next
    case (Connected j ok' lost)
    then show ?thesis using l e c by (cases "j = i") (auto simp: thread_ended_def others_kept(2) split: if_splits)
  next
    case (RunStart j created probe)
    then show ?thesis using l e ph by (cases "j = i") (auto simp: thread_ended_def others_kept(3) split: if_splits)
  next
    case (Outside l')
    then obtain w' where "outside l'" "ble_apply cfg l' (rw_world r) = Some w'" "r' = r\<lparr>rw_world := w'\<rparr>"
      using l by (auto split: if_splits)
    then show ?thesis using e outside_state [of l' cfg "rw_world r" w' i] by (simp add: thread_ended_def)
  qed (use l e ph in \<open>auto simp: thread_ended_def split: if_splits\<close>)
qed

lemma ended_run:
  "run_ok r \<Longrightarrow> thread_ended failed i r \<Longrightarrow> run_labels cfg ls r = Some r' \<Longrightarrow> thread_ended failed i r'"
  by (induction ls arbitrary: r) (auto split: Option.bind_splits dest: ended_step run_apply_ok)

text \<open>Along every run: the thread has ended, or it has used up as much of what it had left as it made steps.\<close>

lemma stop_run:
  assumes "run_ok r" "stop_pending i r" "run_labels cfg ls r = Some r'"
  shows "thread_ended (WaitFails i \<in> set ls) i r' \<or>
    stop_pending i r' \<and> length (filter (own i) ls) + steps_left i r' \<le> steps_left i r"
  using assms
proof (induction ls arbitrary: r)
  case (Cons l ls)
  then obtain r1 where r1: "run_apply cfg l r = Some r1" "run_labels cfg ls r1 = Some r'"
    by (auto split: Option.bind_splits)
  have ok: "run_ok r1" by (rule run_apply_ok [OF Cons.prems(1) r1(1)])
  from stop_step [OF Cons.prems(1,2) r1(1)] show ?case
  proof (elim disjE conjE)
    assume "thread_ended (l = WaitFails i) i r1"
    from ended_run [OF ok this r1(2)] show ?thesis by (auto simp: thread_ended_def)
  next
    assume q: "stop_pending i r1" "l \<noteq> WaitFails i"
      and m: "if own i l then steps_left i r1 < steps_left i r else steps_left i r1 = steps_left i r"
    from Cons.IH [OF ok q(1) r1(2)] show ?thesis
    proof
      assume "thread_ended (WaitFails i \<in> set ls) i r'"
      then show ?thesis by (auto simp: thread_ended_def)
    next
      assume "stop_pending i r' \<and> length (filter (own i) ls) + steps_left i r' \<le> steps_left i r1"
      then show ?thesis using m by (simp split: if_splits)
    qed
  qed
qed simp

text \<open>And a thread with a pending stop always has a step to make.\<close>

lemma stop_progress:
  assumes "stop_pending i r"
  shows "\<exists>l. own i l \<and> l \<noteq> WaitFails i \<and> run_apply cfg l r \<noteq> None"
proof -
  obtain fds where ph: "rw_phase r i = InBatch fds" "rw_stop r i" using assms by (auto simp: stop_pending_def)
  show ?thesis
  proof (cases "cl_state (w_client (rw_world r) i) = Connect")
    case True
    then show ?thesis by (intro exI [of _ "Connected i True True"]) simp
  next
    case False
    show ?thesis
    proof (cases fds)
      case Nil
      have "run_apply cfg (Wait i (filter (readable r i) [StopFd, WorkFd, SlotFd])) r \<noteq> None"
        using False ph Nil by (simp add: list_all_iff)
      then show ?thesis by (intro exI [of _ "Wait i (filter (readable r i) [StopFd, WorkFd, SlotFd])"]) simp
    next
      case (Cons fd gs)
      have "run_apply cfg (Handle i True) r \<noteq> None" using False ph Cons by (simp add: Let_def)
      then show ?thesis by (intro exI [of _ "Handle i True"]) simp
    qed
  qed
qed

section \<open>Sample runs\<close>

text \<open>Client 0 has the slot; its scan found the device, and its scan timer expired in the same batch.\<close>

definition to_slot :: "run_label list" where
  "to_slot = [RunStart 0 True True, Outside (Signalled 0), Wait 0 [SlotFd]]"

definition to_late_match :: "(nat \<Rightarrow> BleSettings) \<Rightarrow> run_label list" where
  "to_late_match cfg = to_slot @ [Handle 0 True, Outside (ScanFound 0 (ble_address (cfg 0)) []),
     Wait 0 [WorkFd, TimerFd], Handle 0 True, Connected 0 False False]"

lemmas run_defs = run_init_def to_slot_def to_late_match_def step_defs coordinator_defs init_defs ids_match_def

section \<open>Properties\<close>

text \<open>C16: Every step of the loops is no step or one step of the clients' state machines, and every state they reach
  the state machines reach: a work or slot entry that has gone stale when its turn in the batch comes changes
  nothing.  So what is shown of the state machines, as that one client at a time scans or connects, holds of the loops.\<close>

theorem loops_refine_clients:
  assumes "run_reachable cfg r"
  shows "ble_reachable cfg (rw_world r) \<and>
    (\<forall>l r'. run_apply cfg l r = Some r' \<longrightarrow>
      rw_world r' = rw_world r \<or> (\<exists>l'. ble_apply cfg l' (rw_world r) = Some (rw_world r')))"
  using run_world_reachable [OF assms] run_apply_refines [OF run_reachable_ok [OF assms]] by blast

lemma loops_refine_clients_witness:
  "\<exists>r. run_labels sample_ble (to_late_match sample_ble) run_init = Some r \<and> ble_reachable sample_ble (rw_world r) \<and>
     cl_state (w_client (rw_world r) 0) = Backoff"
proof -
  obtain r where r: "run_labels sample_ble (to_late_match sample_ble) run_init = Some r"
    "cl_state (w_client (rw_world r) 0) = Backoff"
    by (simp add: run_defs)
  from loops_refine_clients [OF run_labels_reachable [OF run_reachable.Init r(1)]] r show ?thesis by blast
qed

text \<open>The two environment choices of the state machines, whether an adapter is found and how a connect ends, are
  exactly what the calls of the library can lead to: for each way they answer there is a choice with the same
  result, and for each choice there is a way.\<close>

theorem library_calls_are_choices:
  assumes "ble_reachable cfg w"
  shows "range (\<lambda>env. wait_adapter_calls (cfg i) env i w) = range (\<lambda>probe. enter_wait_adapter (cfg i) probe i w) \<and>
    (cl_state (w_client w i) = Connect \<longrightarrow>
      range (\<lambda>env. connect_calls (cfg i) env i w) = range (\<lambda>(ok, lost). connect_done (cfg i) ok lost i w))"
proof (intro conjI impI)
  show "range (\<lambda>env. wait_adapter_calls (cfg i) env i w) = range (\<lambda>probe. enter_wait_adapter (cfg i) probe i w)"
  proof (rule same_range)
    show "\<exists>env. wait_adapter_calls (cfg i) env i w = enter_wait_adapter (cfg i) probe i w" for probe
      by (rule exI [of _ "\<lparr>pb_enabled = Some probe, pb_adapters = Some [[]]\<rparr>"]) (simp add: wait_adapter_calls_eq)
  qed (auto simp: wait_adapter_calls_eq)
next
  assume "cl_state (w_client w i) = Connect"
  then have p: "cl_peripheral (w_client w i)" using connecting [OF assms] by blast
  note eq = connect_calls_eq [OF p, of "cfg i"]
  show "range (\<lambda>env. connect_calls (cfg i) env i w) = range (\<lambda>(ok, lost). connect_done (cfg i) ok lost i w)"
  proof (rule same_range)
    show "\<exists>env. connect_calls (cfg i) env i w = (case c of (ok, lost) \<Rightarrow> connect_done (cfg i) ok lost i w)" for c
      by (rule exI [of _ "\<lparr>ce_connect = True, ce_connected = fst c, ce_notify = True, ce_lost = snd c\<rparr>"])
         (simp add: eq case_prod_unfold)
  qed (auto simp: eq)
qed

lemma library_calls_are_choices_witness:
  "\<exists>w. ble_run sample_ble (to_connect sample_ble 0) world_init = Some w \<and>
     connect_done (sample_ble 0) True True 0 w \<in> range (\<lambda>env. connect_calls (sample_ble 0) env 0 w)"
proof -
  obtain w where w: "ble_run sample_ble (to_connect sample_ble 0) world_init = Some w" "cl_state (w_client w 0) = Connect"
    by (simp add: to_connect_def to_scan_def step_defs coordinator_defs init_defs ids_match_def)
  have "ble_reachable sample_ble w" by (rule ble_run_reachable [OF ble_reachable.start w(1)])
  from library_calls_are_choices [OF this, of 0] w show ?thesis by auto
qed

text \<open>C17: A stop is served on every run: from any state of a running thread whose stop event is set, also inside
  a blocking connect, whatever the library, the other threads and the batches are and whatever order they come in, the
  thread makes at most two steps for each entry of its batch and eight more before it ends, and as long as it has
  not ended it has a step to make (a blocking connect is taken to return, well or badly).  Unless
  \<open>epoll_wait\<close> failed, its client then has no peripheral and neither holds the slot nor waits for it.\<close>

theorem stop_ends_client:
  assumes "run_reachable cfg r" "rw_phase r i = InBatch fds" "rw_stop r i" "run_labels cfg ls r = Some r'"
  shows "if rw_phase r' i = Ended
    then WaitFails i \<in> set ls \<or>
      cl_state (w_client (rw_world r') i) = Stopping \<and> \<not> cl_peripheral (w_client (rw_world r') i) \<and>
      co_holder (w_co (rw_world r')) \<noteq> Some i \<and> i \<notin> set (co_waiters (w_co (rw_world r')))
    else length (filter (own i) ls) \<le> 2 * length fds + 8 \<and>
      (\<exists>l. own i l \<and> l \<noteq> WaitFails i \<and> run_apply cfg l r' \<noteq> None)"
proof -
  have st: "stop_pending i r" using assms(2,3) by (simp add: stop_pending_def)
  have le: "steps_left i r \<le> 2 * length fds + 10" using assms(2) by (simp add: steps_left_def)
  from stop_run [OF run_reachable_ok [OF assms(1)] st assms(4)]
  consider (ended) "thread_ended (WaitFails i \<in> set ls) i r'"
    | (pending) "stop_pending i r'" "length (filter (own i) ls) + steps_left i r' \<le> steps_left i r" by auto
  then show ?thesis
  proof cases
    case ended
    have "world_ok (rw_world r')"
      by (rule ble_reachable_ok [OF run_world_reachable [OF run_labels_reachable [OF assms(1,4)]]])
    then have "client_ok (w_co (rw_world r')) (w_inflight (rw_world r')) i (w_client (rw_world r') i)"
      by (simp add: world_ok_def)
    then have "cl_state (w_client (rw_world r') i) = Stopping \<Longrightarrow>
        co_holder (w_co (rw_world r')) \<noteq> Some i \<and> i \<notin> set (co_waiters (w_co (rw_world r')))"
      by (auto simp: client_ok_def)
    then show ?thesis using ended by (auto simp: thread_ended_def)
  next
    case pending
    then obtain gs where gs: "rw_phase r' i = InBatch gs" by (auto simp: stop_pending_def)
    then have "2 \<le> steps_left i r'" by (cases gs) (simp_all add: steps_left_def)
    then show ?thesis using pending(2) le gs stop_progress [OF pending(1), of cfg] by simp
  qed
qed

lemma stop_ends_client_witness:
  "\<exists>r r'. run_labels sample_ble (to_slot @ [RequestStop 0]) run_init = Some r \<and>
     run_labels sample_ble [Handle 0 True, Wait 0 [StopFd], Handle 0 True] r = Some r' \<and> rw_phase r' 0 = Ended \<and>
     co_holder (w_co (rw_world r')) \<noteq> Some 0"
proof -
  obtain r r' where r: "run_labels sample_ble (to_slot @ [RequestStop 0]) run_init = Some r"
    "rw_phase r 0 = InBatch [SlotFd]" "rw_stop r 0"
    "run_labels sample_ble [Handle 0 True, Wait 0 [StopFd], Handle 0 True] r = Some r'" "rw_phase r' 0 = Ended"
    by (simp add: run_defs)
  from stop_ends_client [OF run_labels_reachable [OF run_reachable.Init r(1)] r(2-4)] r show ?thesis by auto
qed

text \<open>C18: A thread that ends while its client holds the slot, which it does when \<open>epoll_wait\<close> fails then, keeps the slot:
  whatever happens after, stops included, the slot is never free again, and no other client ever scans or connects.\<close>

theorem failed_wait_keeps_slot:
  assumes "run_reachable cfg r" "rw_phase r i = Ended" "co_holder (w_co (rw_world r)) = Some i"
    and "run_labels cfg ls r = Some r'"
  shows "co_holder (w_co (rw_world r')) = Some i \<and>
    (\<forall>j. j \<noteq> i \<longrightarrow> cl_state (w_client (rw_world r') j) \<notin> {Scan, Connect})"
proof -
  have "slot_lost i r'"
    using slot_lost_run [OF run_reachable_ok [OF assms(1)] _ assms(4)] assms(2,3) by (simp add: slot_lost_def)
  then have h: "co_holder (w_co (rw_world r')) = Some i" by (simp add: slot_lost_def)
  have "world_ok (rw_world r')"
    by (rule ble_reachable_ok [OF run_world_reachable [OF run_labels_reachable [OF assms(1,4)]]])
  then have "client_ok (w_co (rw_world r')) (w_inflight (rw_world r')) j (w_client (rw_world r') j)" for j
    by (simp add: world_ok_def)
  then show ?thesis using h by (fastforce simp: client_ok_def)
qed

lemma failed_wait_keeps_slot_witness:
  "\<exists>r r'. run_labels sample_ble [RunStart 0 True True, WaitFails 0] run_init = Some r \<and>
     run_labels sample_ble [RunStart 1 True True, RequestStop 0] r = Some r' \<and>
     cl_state (w_client (rw_world r') 1) = WaitSlot \<and> co_holder (w_co (rw_world r')) = Some 0"
proof -
  obtain r r' where r: "run_labels sample_ble [RunStart 0 True True, WaitFails 0] run_init = Some r"
    "rw_phase r 0 = Ended" "co_holder (w_co (rw_world r)) = Some 0"
    "run_labels sample_ble [RunStart 1 True True, RequestStop 0] r = Some r'" "cl_state (w_client (rw_world r') 1) = WaitSlot"
    by (simp add: run_defs)
  from failed_wait_keeps_slot [OF run_labels_reachable [OF run_reachable.Init r(1)] r(2-4)] r show ?thesis by blast
qed

text \<open>A scan timer that expired in the batch of the match is handled after the connect, although \<open>enter(Connect)\<close>
  disarmed it: when the connect failed, the client leaves \<open>Backoff\<close> at once.\<close>

theorem stale_timer_skips_backoff:
  "\<exists>r r'. run_labels cfg (to_late_match cfg) run_init = Some r \<and> cl_state (w_client (rw_world r) 0) = Backoff \<and>
     run_apply cfg (Handle 0 True) r = Some r' \<and> cl_state (w_client (rw_world r') 0) = WaitSlot \<and>
     cl_timer (w_client (rw_world r') 0) = Some (sint (ble_reconnect_ms (cfg 0)))"
  by (simp add: run_defs)

end
