(* ===== verification/Ble_System.thy ===== *)
theory Ble_System
  imports Main_Start Ble_Run
begin

text \<open>
  The Bluetooth side and the main thread together: the loops of \<open>Ble_Run\<close>, with the queue of each
  client, and the dispatcher of \<open>Main_Loop\<close>, whose handler of a queue takes what is in it and
  hands it to the handler of the battery (src/ble_transport.cpp, \<open>start\<close> and \<open>pump\<close>).  The queue of a client is kept
  whole, and how much of it was taken is counted.
\<close>

section \<open>Queues and drivers\<close>

text \<open>Each battery with a queue has a driver, connected as \<open>up\<close> says.\<close>

definition queued :: "(nat \<Rightarrow> bool) \<Rightarrow> MainThread \<Rightarrow> bool" where
  "queued up s \<longleftrightarrow> (\<forall>b. mt_queues s b \<noteq> None \<longrightarrow> b < length (mt_drivers s) \<and> mt_drivers s ! b \<noteq> NoDriver \<and>
     (ss_connected (driver_state (mt_drivers s ! b)) \<longleftrightarrow> up b))"

lemma queued_cong: "mt_drivers s' = mt_drivers s \<Longrightarrow> mt_queues s' = mt_queues s \<Longrightarrow> queued up s' = queued up s"
  by (simp add: queued_def)

lemma queued_other:
  assumes "queued up s" "mt_queues s' = mt_queues s" "mt_drivers s' = (mt_drivers s)[i := d]" "mt_queues s i = None"
  shows "queued up s'"
  unfolding queued_def
proof (intro allI impI)
  fix b assume "mt_queues s' b \<noteq> None"
  then have "mt_queues s b \<noteq> None" "b \<noteq> i" using assms(2,4) by auto
  then show "b < length (mt_drivers s') \<and> mt_drivers s' ! b \<noteq> NoDriver \<and> (ss_connected (driver_state (mt_drivers s' ! b)) \<longleftrightarrow> up b)"
    using assms(1,3) by (simp add: queued_def)
qed

lemma port_call_queued:
  assumes "queued up s" "mt_queues s i = None" "port_call env i f s = Some s'"
  shows "queued up s'"
proof (cases "mt_ports s i")
  case None
  then show ?thesis using assms by (simp add: port_call_def)
next
  case (Some p)
  then obtain w where sink: "port_sink env i (drop (length (po_events p)) (uw_events w)) (port_put i w s) = Some s'"
    using assms(3) by (auto simp: port_call_def split: option.splits)
  show ?thesis
  proof (cases "i < length (mt_cfgs s)")
    case True
    then have "mt_queues s' = mt_queues s" "\<exists>d. mt_drivers s' = (mt_drivers s)[i := d]"
      using sink by (auto simp: port_sink_def port_put_def)
    then show ?thesis using queued_other [OF assms(1) _ _ assms(2)] by blast
  next
    case False
    then have "mt_queues s' = mt_queues s" "mt_drivers s' = mt_drivers s"
      using sink by (auto simp: port_sink_def port_put_def split: option.splits prod.splits if_splits)
    then show ?thesis using assms(1) queued_cong by blast
  qed
qed

section \<open>The start\<close>

lemma new_fd_queued: "new_fd env s = (fd, s') \<Longrightarrow> queued up s' = queued up s"
  by (auto simp: new_fd_def Let_def intro!: queued_cong)

lemma new_fd_fields: "new_fd env s = (fd, s') \<Longrightarrow> mt_queues s' = mt_queues s \<and> mt_drivers s' = mt_drivers s \<and> mt_cfgs s' = mt_cfgs s"
  by (auto simp: new_fd_def Let_def)

lemma add_timer_queued:
  assumes "main_add_timer env ms h s = Some s'"
  shows "queued up s' = queued up s"
  using assms by (intro queued_cong) (auto simp: main_add_timer_def new_fd_def Let_def)

lemma start_battery_queued:
  assumes st: "starting cfgs fds b s" and q: "queued (\<lambda>_. False) s" and b: "b < length cfgs"
    and s': "start_battery env b s = Some s'"
  shows "queued (\<lambda>_. False) s'"
proof (cases "battery_start (cfgs ! b)")
  case None
  then show ?thesis using s' q starting_fields(2) [OF st] by (simp add: start_battery_def)
next
  case (Some plan)
  note f = starting_fields [OF st]
  obtain fd s1 where n: "new_fd env s = (fd, s1)" by fastforce
  note n1 = new_fd_fields [OF n]
  have none: "mt_queues s1 b = None" using f(5) n1 by simp
  have q1: "queued (\<lambda>_. False) (set_driver b d s1)" for d
    using new_fd_queued [OF n] q none by (intro queued_other [of _ s1 "set_driver b d s1" b d]) (simp_all add: set_driver_def)
  have "\<exists>s2. queued (\<lambda>_. False) s2 \<and> (\<exists>s3. main_add_timer env (bs_poll_timer plan) (PollHandler b) s2 = Some s3 \<and>
      main_add_timer env (bs_settings_timer plan) (SettingsHandler b) s3 = Some s')"
  proof (cases "bs_transport plan")
    case (Uart dev baud ms)
    then obtain m s2 s3 where p: "start_port env b (uart_init dev (sint baud) (sint ms) fd)
        (set_driver b (PylontechDriver (handler_init m)) s1) = Some s2"
      and t: "main_add_timer env (bs_poll_timer plan) (PollHandler b) s2 = Some s3"
        "main_add_timer env (bs_settings_timer plan) (SettingsHandler b) s3 = Some s'"
      using s' Some n by (auto simp: start_battery_def f(2) Let_def split: Option.bind_splits)
    have "queued (\<lambda>_. False) s2"
    proof (rule port_call_queued [OF _ _ p [unfolded start_port_def]])
      show "mt_queues ((set_driver b (PylontechDriver (handler_init m)) s1)\<lparr>mt_ports := (mt_ports (set_driver b (PylontechDriver (handler_init m)) s1))
          (b \<mapsto> \<lparr>po_t = uart_init dev (sint baud) (sint ms) fd, po_events = [], po_kernel = me_kernel env b, po_calls = 0\<rparr>)\<rparr>) b = None"
        using none by (simp add: set_driver_def)
    qed (use q1 in \<open>simp add: queued_def\<close>)
    then show ?thesis using t by blast
  next
    case (Ble c)
    obtain d s3 where t: "main_add_timer env (bs_poll_timer plan) (PollHandler b)
          ((set_driver b (JkDriver (handler_init assembler_init)) s1)\<lparr>mt_disp := d,
            mt_queues := (mt_queues (set_driver b (JkDriver (handler_init assembler_init)) s1))(b \<mapsto> fd)\<rparr>) = Some s3"
        "main_add_timer env (bs_settings_timer plan) (SettingsHandler b) s3 = Some s'"
      using s' Some Ble n by (auto simp: start_battery_def f(2) Let_def split: Option.bind_splits)
    have "b < length (mt_drivers s1)" using f(3) b n1 by simp
    then have "queued (\<lambda>_. False) ((set_driver b (JkDriver (handler_init assembler_init)) s1)\<lparr>mt_disp := d,
            mt_queues := (mt_queues (set_driver b (JkDriver (handler_init assembler_init)) s1))(b \<mapsto> fd)\<rparr>)"
      using q1 [of "JkDriver (handler_init assembler_init)"]
      by (auto simp: queued_def set_driver_def handler_init_def shared_init_def)
    then show ?thesis using t by blast
  qed
  then show ?thesis using add_timer_queued by blast
qed

lemma start_batteries_queued:
  assumes "starting cfgs fds k s" "k \<le> length cfgs" "start_batteries env [k..<length cfgs] s = Some s'" "queued (\<lambda>_. False) s"
  shows "queued (\<lambda>_. False) s'"
  using assms
proof (induction "length cfgs - k" arbitrary: k s)
  case (Suc n)
  then have k: "k < length cfgs" by simp
  then obtain s1 where s1: "start_battery env k s = Some s1" "start_batteries env [Suc k..<length cfgs] s1 = Some s'"
    using Suc.prems(3) by (auto simp: upt_conv_Cons split: option.splits)
  have "starting cfgs fds (Suc k) s1" by (rule start_battery_inv [OF Suc.prems(1) k s1(1)])
  then show ?case
    using Suc.hyps(1) [of "Suc k" s1] Suc.hyps(2) k s1(2) start_battery_queued [OF Suc.prems(1,4) k s1(1)] by simp
qed simp

lemma main_start_queued:
  assumes ok: "fds_ok fds" and s: "main_start env wake_fd fds cfg h = Some s"
  shows "queued (\<lambda>_. False) s"
proof -
  let ?cfgs = "ac_batteries cfg"
  obtain s1 s2 where s1: "main_add_timer env 3600000 AggregateHandler (main_init wake_fd fds cfg h) = Some s1"
    and s2: "start_batteries env [0..<length ?cfgs] s1 = Some s2" and s3: "start_inverter env (ac_inverter cfg) s2 = Some s"
    using s by (auto simp: main_start_def split: Option.bind_splits)
  have st: "starting ?cfgs fds 0 s1" by (rule starting_timer [OF main_init_starting [OF ok] s1]) simp_all
  have "queued (\<lambda>_. False) (main_init wake_fd fds cfg h)" by (simp add: queued_def main_init_def)
  then have "queued (\<lambda>_. False) s1" using add_timer_queued [OF s1] by simp
  then have q2: "queued (\<lambda>_. False) s2"
    using start_batteries_queued [OF st _ s2] by simp
  have st2: "starting ?cfgs fds (length ?cfgs) s2"
    using start_batteries_inv [OF st _ s2] by simp
  obtain fd s3 where n: "new_fd env s2 = (fd, s3)" by fastforce
  note n1 = new_fd_fields [OF n]
  obtain s4 t where s4: "start_port env (length (mt_cfgs s3)) t s4 = Some s" "queued (\<lambda>_. False) s4" "mt_queues s4 = mt_queues s2"
    using s3 n new_fd_queued [OF n] q2 n1
    by (auto simp: start_inverter_def Let_def queued_def)
  have "mt_queues s4 (length (mt_cfgs s3)) = None" using starting_fields(2,5) [OF st2] n1 s4(3) by simp
  moreover have "queued (\<lambda>_. False) (s4\<lparr>mt_ports := p\<rparr>)" for p using s4(2) by (simp add: queued_def)
  ultimately show ?thesis by (intro port_call_queued [OF _ _ s4(1) [unfolded start_port_def]]) simp_all
qed

section \<open>The handlers\<close>

lemma main_exec_queued:
  assumes inv: "main_inv s" and q: "queued up s" and h: "dp_handlers (mt_disp s) x = Some h"
    and e: "main_exec env h s = Some s'"
  shows "queued (case h of PumpHandler b \<Rightarrow>
      up(b := link_after (map (event_of (me_clocks env (Suc (mt_calls s)))) (me_queue env (Suc (mt_calls s)) b)) (up b))
    | _ \<Rightarrow> up) s'"
proof -
  let ?s = "s\<lparr>mt_calls := Suc (mt_calls s)\<rparr>"
  have q': "queued up ?s" using q by (simp add: queued_def)
  have core: "main_core {} s" using inv by (simp add: main_inv_def)
  have events: "queued (up(b := link_after evs (up b))) (battery_events env b evs ?s)" for b evs
    using q by (auto simp: queued_def driver_run_link nth_list_update)
       (metis driver_run.elims Driver.distinct(1,3))+
  show ?thesis
  proof (cases h)
    case (PortHandler i uh)
    then have "mt_ports s i \<noteq> None" using core_registered(1) [OF core] h by auto
    then have "mt_queues ?s i = None" using core_registered(3) [OF core, of i] by (cases "mt_queues s i") auto
    from port_call_queued [OF q' this] e PortHandler show ?thesis by (simp add: main_exec.simps Let_def)
  next
    case (PumpHandler b)
    then show ?thesis using e events by (simp add: main_exec.simps Let_def) (metis (no_types))
  next
    case (PollHandler b)
    then show ?thesis using e events [of b "[PollTick]"] by (auto simp: main_exec.simps Let_def)
  next
    case (SettingsHandler b)
    then show ?thesis using e events [of b "[SettingsTick]"] by (auto simp: main_exec.simps Let_def)
  next
    case AggregateHandler
    then show ?thesis using e q by (auto simp: main_exec.simps Let_def queued_def)
  qed
qed

section \<open>Loops and dispatcher together\<close>

record System =
  sy_main :: MainThread
  sy_loops :: RunWorld
  sy_taken :: "nat \<Rightarrow> nat"

definition queue_of :: "System \<Rightarrow> nat \<Rightarrow> BmsEvent list" where
  "queue_of y b = cl_queue (w_client (rw_world (sy_loops y)) b)"

text \<open>What a handler of the dispatcher finds in the queue.\<close>

definition with_queues :: "MainEnv \<Rightarrow> System \<Rightarrow> MainEnv" where
  "with_queues env y = env\<lparr>me_queue := (\<lambda>_ b. drop (sy_taken y b) (queue_of y b))\<rparr>"

fun take_queue :: "MainHandler \<Rightarrow> System \<Rightarrow> nat \<Rightarrow> nat" where
  "take_queue (PumpHandler b) y = (sy_taken y)(b := length (queue_of y b))"
| "take_queue _ y = sy_taken y"

text \<open>A step of a management thread or of what surrounds it, or the handler of a registered descriptor.\<close>

inductive system_step :: "MainEnv \<Rightarrow> (nat \<Rightarrow> BleSettings) \<Rightarrow> System \<Rightarrow> System \<Rightarrow> bool" for env ble where
  Loop: "run_apply ble l (sy_loops y) = Some r \<Longrightarrow> system_step env ble y (y\<lparr>sy_loops := r\<rparr>)"
| Dispatch: "dp_handlers (mt_disp (sy_main y)) fd = Some h \<Longrightarrow>
    main_exec (with_queues env y) h (sy_main y) = Some s \<Longrightarrow>
    system_step env ble y (y\<lparr>sy_main := s, sy_taken := take_queue h y\<rparr>)"

definition system_init :: "MainThread \<Rightarrow> System" where
  "system_init s = \<lparr>sy_main = s, sy_loops = run_init, sy_taken = (\<lambda>_. 0)\<rparr>"

text \<open>Each driver has seen what was taken from its queue.\<close>

definition taken_link :: "System \<Rightarrow> nat \<Rightarrow> bool" where
  "taken_link y b = queue_link (take (sy_taken y b) (queue_of y b))"

definition system_ok :: "(nat \<Rightarrow> BleSettings) \<Rightarrow> MainThread \<Rightarrow> System \<Rightarrow> bool" where
  "system_ok ble s0 y \<longleftrightarrow> running s0 (sy_main y) \<and> run_reachable ble (sy_loops y) \<and>
     (\<forall>b. sy_taken y b \<le> length (queue_of y b)) \<and> queued (taken_link y) (sy_main y)"

text \<open>Queues only grow.\<close>

lemma queue_grows:
  assumes "ble_apply cfg l w = Some w'"
  shows "\<exists>new. cl_queue (w_client w' k) = cl_queue (w_client w k) @ new"
  using assms
  by (cases l)
     (auto simp: on_timer_expired_def on_slot_event_def on_work_event_def on_stop_event_def
       connect_done_def enter_wait_adapter_def enter_wait_slot_def enter_online_def enter_backoff_def
       enter_scan_def enter_connect_def start_scan_def queue_push_def Let_def
       split: if_splits ClientState.splits prod.splits)

lemma loop_queue_grows:
  assumes "run_reachable cfg r" "run_apply cfg l r = Some r'"
  shows "\<exists>new. cl_queue (w_client (rw_world r') k) = cl_queue (w_client (rw_world r) k) @ new"
  using run_apply_refines [OF run_reachable_ok [OF assms(1)] assms(2)] queue_grows by fastforce

lemma system_init_ok:
  assumes "fds_ok fds" "main_start env wake_fd fds cfg h = Some s"
  shows "system_ok ble s (system_init s)"
proof -
  have "taken_link (system_init s) = (\<lambda>_. False)" by (simp add: taken_link_def system_init_def fun_eq_iff)
  then show ?thesis
    using main_start_inv(1) [OF assms] main_start_queued [OF assms]
    by (simp add: system_ok_def running_def system_init_def run_reachable.Init)
qed

lemma system_step_ok:
  assumes ok: "system_ok ble s0 y" and step: "system_step env ble y y'"
  shows "system_ok ble s0 y'"
  using step
proof (cases rule: system_step.cases)
  case (Loop l r)
  have reach: "run_reachable ble (sy_loops y)" using ok by (simp add: system_ok_def)
  have "\<exists>new. queue_of y' b = queue_of y b @ new" for b
    using loop_queue_grows [OF reach Loop(2)] Loop(1) by (simp add: queue_of_def)
  then have grow: "sy_taken y b \<le> length (queue_of y b) \<Longrightarrow>
      sy_taken y b \<le> length (queue_of y' b) \<and> take (sy_taken y b) (queue_of y' b) = take (sy_taken y b) (queue_of y b)" for b
    by (metis append_eq_conv_conj le_trans length_append le_add1 take_append diff_is_0_eq take0 append_Nil2)
  have "taken_link y' = taken_link y"
    using grow ok Loop(1) by (auto simp: taken_link_def system_ok_def fun_eq_iff)
  then show ?thesis
    using ok Loop grow run_reachable.Next [OF reach Loop(2)] by (simp add: system_ok_def)
next
  case (Dispatch fd h s)
  have run: "running s0 (sy_main y)" and q: "queued (taken_link y) (sy_main y)" using ok by (simp_all add: system_ok_def)
  have inv: "main_inv (sy_main y)" using run by (simp add: running_def)
  have "main_inv s \<and> kept (sy_main y) s" using main_exec_inv [OF inv _ Dispatch(3)] Dispatch(2) by (auto intro: ranI)
  then have run': "running s0 s" using run by (simp add: running_def kept_def)
  have same: "queue_of y' = queue_of y" using Dispatch(1) by (simp add: queue_of_def fun_eq_iff)
  let ?n = "Suc (mt_calls (sy_main y))" and ?env = "with_queues env y"
  have link: "taken_link y' = (case h of PumpHandler b \<Rightarrow>
      (taken_link y)(b := link_after (map (event_of (me_clocks ?env ?n)) (me_queue ?env ?n b)) (taken_link y b))
    | _ \<Rightarrow> taken_link y)"
  proof (cases h)
    case (PumpHandler b)
    have "queue_link (queue_of y b) = link_after (map (event_of (me_clocks ?env ?n)) (drop (sy_taken y b) (queue_of y b))) (taken_link y b)"
      using link_after_append [of "map (event_of undefined) (take (sy_taken y b) (queue_of y b))"
          "map (event_of undefined) (drop (sy_taken y b) (queue_of y b))" False]
        link_after_ck [of "me_clocks ?env ?n" "drop (sy_taken y b) (queue_of y b)" "taken_link y b" undefined]
      by (simp add: taken_link_def flip: map_append)
    then show ?thesis using PumpHandler Dispatch(1) same by (auto simp: taken_link_def fun_eq_iff with_queues_def)
  qed (use Dispatch(1) same in \<open>simp_all add: taken_link_def fun_eq_iff\<close>)
  have "queued (taken_link y') s" unfolding link by (rule main_exec_queued [OF inv q Dispatch(2,3)])
  moreover have "sy_taken y' b \<le> length (queue_of y' b)" for b
    using ok Dispatch(1) same by (cases h) (simp_all add: system_ok_def)
  ultimately show ?thesis using ok run' Dispatch(1) by (simp add: system_ok_def)
qed

lemma system_steps_ok: "(system_step env ble)\<^sup>*\<^sup>* y y' \<Longrightarrow> system_ok ble s0 y \<Longrightarrow> system_ok ble s0 y'"
  by (induction rule: rtranclp_induct) (auto intro: system_step_ok)

text \<open>The handler of a queue, which takes all that is in it, can always run.\<close>

lemma pump_step:
  assumes "system_ok ble s0 y" "mt_queues (sy_main y) b = Some fd"
  shows "\<exists>y'. dp_handlers (mt_disp (sy_main y)) fd = Some (PumpHandler b) \<and> system_step env ble y y' \<and>
    sy_loops y' = sy_loops y \<and> sy_taken y' b = length (queue_of y b) \<and> mt_queues (sy_main y') = mt_queues (sy_main y)"
proof -
  have "main_core {} (sy_main y)" using assms(1) by (simp add: system_ok_def running_def main_inv_def)
  then have h: "dp_handlers (mt_disp (sy_main y)) fd = Some (PumpHandler b)"
    using core_registered(2) assms(2) by blast
  obtain s where s: "main_exec (with_queues env y) (PumpHandler b) (sy_main y) = Some s" "mt_queues s = mt_queues (sy_main y)"
    by (simp add: main_exec.simps Let_def)
  show ?thesis
    by (rule exI [of _ "y\<lparr>sy_main := s, sy_taken := take_queue (PumpHandler b) y\<rparr>"])
       (use h s system_step.Dispatch [OF h s(1), of ble] in simp)
qed

lemma caught_up:
  assumes ok: "system_ok ble s0 y" and q: "mt_queues (sy_main y) b \<noteq> None"
    and t: "sy_taken y b = length (queue_of y b)" and c: "cl_state (w_client (rw_world (sy_loops y)) b) \<noteq> Stopping"
  shows "ss_connected (b_state (batteries (sy_main y) ! b)) \<longleftrightarrow> cl_state (w_client (rw_world (sy_loops y)) b) = Online"
proof -
  have core: "main_core {} (sy_main y)" using ok by (simp add: system_ok_def running_def main_inv_def)
  have b: "b < length (mt_drivers (sy_main y))" "ss_connected (driver_state (mt_drivers (sy_main y) ! b)) \<longleftrightarrow> taken_link y b"
    using ok q unfolding system_ok_def queued_def by blast+
  have "ble_reachable ble (rw_world (sy_loops y))" using ok by (simp add: system_ok_def run_world_reachable)
  then have "queue_link (queue_of y b) \<longleftrightarrow> cl_state (w_client (rw_world (sy_loops y)) b) = Online"
    using queue_ok_reachable [of ble "rw_world (sy_loops y)" b] c by (simp add: queue_ok_def queue_of_def)
  moreover have "b < length (mt_cfgs (sy_main y))" using core b(1) by (simp add: main_core_def)
  ultimately show ?thesis using b(2) t batteries_nth [OF core] by (simp add: taken_link_def)
qed

section \<open>A sample run\<close>

text \<open>Client \<open>b\<close> goes online.\<close>

definition to_online :: "nat \<Rightarrow> run_label list" where
  "to_online b = [RunStart b True True, Outside (Signalled b), Wait b [SlotFd], Handle b True,
     Outside (ScanFound b (ble_address (sample_ble b)) []), Wait b [WorkFd], Handle b True, Connected b True False]"

lemma loops_in_system:
  "run_labels ble ls (sy_loops y) = Some r \<Longrightarrow> (system_step env ble)\<^sup>*\<^sup>* y (y\<lparr>sy_loops := r\<rparr>)"
proof (induction ls arbitrary: y)
  case Nil
  then show ?case by (cases y) simp
next
  case (Cons l ls)
  then obtain r1 where r1: "run_apply ble l (sy_loops y) = Some r1" "run_labels ble ls r1 = Some r"
    by (auto split: Option.bind_splits)
  have "(system_step env ble)\<^sup>*\<^sup>* (y\<lparr>sy_loops := r1\<rparr>) (y\<lparr>sy_loops := r\<rparr>)"
    using Cons.IH [of "y\<lparr>sy_loops := r1\<rparr>"] r1(2) by simp
  moreover have "system_step env ble y (y\<lparr>sy_loops := r1\<rparr>)" by (rule system_step.Loop [OF r1(1)])
  ultimately show ?case by (blast intro: converse_rtranclp_into_rtranclp)
qed

lemma sample_online:
  "\<exists>r. run_labels sample_ble (to_online 1) run_init = Some r \<and> cl_state (w_client (rw_world r) 1) = Online"
  by (simp add: to_online_def run_defs)

lemma sample_queue:
  "case main_start sample_main_env 3 {0, 1, 2, 3} sample_app Main_Start.sample_history of None \<Rightarrow> False
   | Some s \<Rightarrow> mt_queues s 1 \<noteq> None"
  by code_simp

section \<open>Properties\<close>

text \<open>C19: From the Bluetooth library to the inverter, whatever the configuration, if the process starts with
  finitely many open descriptors: in every state that the management threads and the dispatcher
  reach together, once the dispatcher has taken what is in the queue of a client that is not stopping, the battery
  counts as connected exactly when the client is online, and while it is not, no request that is to be answered from
  this battery is answered; and the handler of the queue stays registered, and one call of it takes all there is.\<close>

theorem bluetooth_battery_follows_client:
  assumes "fds_ok fds" "main_start env wake_fd fds cfg h = Some s"
    and "(system_step env ble)\<^sup>*\<^sup>* (system_init s) y" "mt_queues s b = Some fd"
  shows "(sy_taken y b = length (queue_of y b) \<and> cl_state (w_client (rw_world (sy_loops y)) b) \<noteq> Stopping \<longrightarrow>
      (ss_connected (b_state (batteries (sy_main y) ! b)) \<longleftrightarrow> cl_state (w_client (rw_world (sy_loops y)) b) = Online) \<and>
      (cl_state (w_client (rw_world (sy_loops y)) b) \<noteq> Online \<longrightarrow>
        (\<forall>slots now f. (case sl_mirror (slot_at slots f) of Some k \<Rightarrow> k | None \<Rightarrow> sl_battery (slot_at slots f)) = b \<longrightarrow>
          respond (batteries (sy_main y)) slots now f = Some None))) \<and>
    (\<exists>y'. dp_handlers (mt_disp (sy_main y)) fd = Some (PumpHandler b) \<and> system_step env ble y y' \<and>
      sy_loops y' = sy_loops y \<and> sy_taken y' b = length (queue_of y' b))"
proof -
  have ok: "system_ok ble s y" by (rule system_steps_ok [OF assms(3) system_init_ok [OF assms(1,2)]])
  then have q: "mt_queues (sy_main y) b = Some fd" using assms(4) by (simp add: system_ok_def running_def)
  have "respond (batteries (sy_main y)) slots now f = Some None"
    if "(case sl_mirror (slot_at slots f) of Some k \<Rightarrow> k | None \<Rightarrow> sl_battery (slot_at slots f)) = b"
      "\<not> ss_connected (b_state (batteries (sy_main y) ! b))" for slots now f
    using that by (intro respond_silent) (auto simp: ready_def is_fresh_def)
  then show ?thesis using caught_up [OF ok] q pump_step [OF ok q, of env] by (fastforce simp: queue_of_def)
qed

lemma bluetooth_battery_follows_client_witness:
  "\<exists>s y. main_start sample_main_env 3 {0, 1, 2, 3} sample_app Main_Start.sample_history = Some s \<and>
     (system_step sample_main_env sample_ble)\<^sup>*\<^sup>* (system_init s) y \<and> ss_connected (b_state (batteries (sy_main y) ! 1))"
proof -
  obtain s fd where s: "main_start sample_main_env 3 {0, 1, 2, 3} sample_app Main_Start.sample_history = Some s"
    "mt_queues s 1 = Some fd" using sample_queue by (auto split: option.splits)
  obtain r where r: "run_labels sample_ble (to_online 1) run_init = Some r" "cl_state (w_client (rw_world r) 1) = Online"
    using sample_online by blast
  let ?y = "(system_init s)\<lparr>sy_loops := r\<rparr>"
  have y: "(system_step sample_main_env sample_ble)\<^sup>*\<^sup>* (system_init s) ?y"
    using loops_in_system [of sample_ble "to_online 1" "system_init s"] r(1) by (simp add: system_init_def)
  note main = bluetooth_battery_follows_client [OF sample_main_ok s(1) _ s(2), of sample_ble]
  from main [OF y] obtain y' where y': "system_step sample_main_env sample_ble ?y y'" "sy_loops y' = r"
    "sy_taken y' 1 = length (queue_of y' 1)" by auto
  have "(system_step sample_main_env sample_ble)\<^sup>*\<^sup>* (system_init s) y'" by (rule rtranclp.rtrancl_into_rtrancl [OF y y'(1)])
  with main [OF this] y'(2,3) r(2) s(1) show ?thesis by auto
qed

end
