(* ===== verification/Serial_Line.thy ===== *)
theory Serial_Line
  imports Uart_Transport
begin

unbundle bit_operations_syntax

text \<open>
  src/uart_transport.cpp, the part of \<open>serial_open\<close> that sets the line: what \<open>termios\<close> holds after it,
  whatever it held before.  The flags are those of Linux; \<open>cfmakeraw\<close> is as its manual page says.
\<close>

section \<open>Settings of a line\<close>

record Termios =
  c_iflag :: "32 word"
  c_oflag :: "32 word"
  c_cflag :: "32 word"
  c_lflag :: "32 word"
  c_ispeed :: speed
  c_ospeed :: speed
  c_vmin :: "8 word"
  c_vtime :: "8 word"

definition IXON :: "32 word" where "IXON = 0x400"
definition IXANY :: "32 word" where "IXANY = 0x800"
definition IXOFF :: "32 word" where "IXOFF = 0x1000"
definition CSIZE :: "32 word" where "CSIZE = 0x30"
definition CS8 :: "32 word" where "CS8 = 0x30"
definition CSTOPB :: "32 word" where "CSTOPB = 0x40"
definition CREAD :: "32 word" where "CREAD = 0x80"
definition PARENB :: "32 word" where "PARENB = 0x100"
definition CLOCAL :: "32 word" where "CLOCAL = 0x800"
definition CRTSCTS :: "32 word" where "CRTSCTS = 0x80000000"

text \<open>What \<open>cfmakeraw\<close> clears: \<open>IGNBRK\<close>, \<open>BRKINT\<close>, \<open>PARMRK\<close>, \<open>ISTRIP\<close>, \<open>INLCR\<close>, \<open>IGNCR\<close>, \<open>ICRNL\<close>, \<open>IXON\<close>;
  \<open>OPOST\<close>; \<open>ECHO\<close>, \<open>ECHONL\<close>, \<open>ICANON\<close>, \<open>ISIG\<close>, \<open>IEXTEN\<close>.\<close>

definition raw_iflags :: "32 word" where "raw_iflags = 0x1 OR 0x2 OR 0x8 OR 0x20 OR 0x40 OR 0x80 OR 0x100 OR IXON"
definition raw_oflags :: "32 word" where "raw_oflags = 0x1"
definition raw_lflags :: "32 word" where "raw_lflags = 0x8 OR 0x40 OR 0x2 OR 0x1 OR 0x8000"

definition cfmakeraw :: "Termios \<Rightarrow> Termios" where
  "cfmakeraw t = t\<lparr>c_iflag := c_iflag t AND NOT raw_iflags, c_oflag := c_oflag t AND NOT raw_oflags,
     c_lflag := c_lflag t AND NOT raw_lflags, c_cflag := (c_cflag t AND NOT (CSIZE OR PARENB)) OR CS8,
     c_vmin := 1, c_vtime := 0\<rparr>"

definition line_settings :: "speed \<Rightarrow> Termios \<Rightarrow> Termios" where
  "line_settings speed t =
    (let t = cfmakeraw t;
         t = t\<lparr>c_ispeed := speed\<rparr>;
         t = t\<lparr>c_ospeed := speed\<rparr>;
         t = t\<lparr>c_cflag := (c_cflag t AND NOT CSIZE) OR CS8\<rparr>;
         t = t\<lparr>c_cflag := c_cflag t AND NOT PARENB\<rparr>;
         t = t\<lparr>c_cflag := c_cflag t AND NOT CSTOPB\<rparr>;
         t = t\<lparr>c_cflag := c_cflag t AND NOT CRTSCTS\<rparr>;
         t = t\<lparr>c_cflag := c_cflag t OR (CLOCAL OR CREAD)\<rparr>;
         t = t\<lparr>c_iflag := c_iflag t AND NOT (IXON OR IXOFF OR IXANY)\<rparr>
     in t\<lparr>c_vmin := 0, c_vtime := 0\<rparr>)"

text \<open>\<open>serial_open\<close> on a port whose line has the settings \<open>t\<close>.\<close>

definition serial_open_line :: "Kernel \<Rightarrow> int \<Rightarrow> int set \<Rightarrow> Termios \<Rightarrow> (int \<times> int set) \<times> Termios" where
  "serial_open_line k baud fds t =
    (if \<not> k_open k then ((-1, fds), t)
     else
       let fd = lowest_free (fds \<union> set (k_foreign k)); fds = insert fd fds; speed = baud_to_speed baud
       in if speed = B0 then ((-1, fds - {fd}), t)
          else if \<not> k_tcgetattr k then ((-1, fds - {fd}), t)
          else let tio = line_settings speed t
          in if \<not> k_tcsetattr k then ((-1, fds - {fd}), t)
             else ((fd, fds), tio))"

text \<open>A raw line with eight data bits, no parity, one stop bit, no flow control, whose reads do not wait.\<close>

definition raw_8n1 :: "speed \<Rightarrow> Termios \<Rightarrow> bool" where
  "raw_8n1 speed t \<longleftrightarrow> c_ispeed t = speed \<and> c_ospeed t = speed \<and>
     c_cflag t AND CSIZE = CS8 \<and> c_cflag t AND PARENB = 0 \<and> c_cflag t AND CSTOPB = 0 \<and> c_cflag t AND CRTSCTS = 0 \<and>
     c_cflag t AND CLOCAL = CLOCAL \<and> c_cflag t AND CREAD = CREAD \<and>
     c_iflag t AND (raw_iflags OR IXOFF OR IXANY) = 0 \<and> c_oflag t AND raw_oflags = 0 \<and> c_lflag t AND raw_lflags = 0 \<and>
     c_vmin t = 0 \<and> c_vtime t = 0"

lemmas flag_defs = IXON_def IXANY_def IXOFF_def CSIZE_def CS8_def CSTOPB_def CREAD_def PARENB_def CLOCAL_def CRTSCTS_def
  raw_iflags_def raw_oflags_def raw_lflags_def

lemma masked: "(x OR m) AND m' = (x AND m') OR (m AND m')" for x m m' :: "32 word"
  by (rule bit.conj_disj_distrib2)

lemma outside_mask: "m AND k = 0 \<Longrightarrow> NOT k AND m = m" for m k :: "32 word"
  by (auto simp: bit_eq_iff bit_simps)

lemma line_is_raw: "raw_8n1 speed (line_settings speed t)"
  by (simp add: raw_8n1_def line_settings_def cfmakeraw_def Let_def masked and.assoc flag_defs)

lemma other_flags_kept:
  "c_cflag (line_settings speed t) AND NOT (CSIZE OR PARENB OR CSTOPB OR CRTSCTS OR CLOCAL OR CREAD) =
   c_cflag t AND NOT (CSIZE OR PARENB OR CSTOPB OR CRTSCTS OR CLOCAL OR CREAD)"
  by (simp add: line_settings_def cfmakeraw_def Let_def masked and.assoc flag_defs)

section \<open>Properties\<close>

text \<open>A port that is opened has a raw line at the speed of its configuration with eight data bits, no parity, one
  stop bit, no flow control and reads that do not wait, whatever settings another program left; its other control flags
  stay, and when the opening fails all settings stay.\<close>

theorem opened_port_is_raw:
  assumes "finite fds"
  shows "fst (serial_open_line k baud fds t) = serial_open k baud fds \<and>
   (case serial_open_line k baud fds t of ((fd, _), t') \<Rightarrow>
      if 0 \<le> fd
      then baud_to_speed baud \<noteq> B0 \<and> raw_8n1 (baud_to_speed baud) t' \<and>
        (\<forall>m. m AND (CSIZE OR PARENB OR CSTOPB OR CRTSCTS OR CLOCAL OR CREAD) = 0 \<longrightarrow> c_cflag t' AND m = c_cflag t AND m)
      else t' = t)"
proof -
  have "0 \<le> lowest_free (fds \<union> set (k_foreign k))" using lowest_free [of "fds \<union> set (k_foreign k)"] assms by simp
  moreover have "c_cflag (line_settings speed t) AND m = c_cflag t AND m"
    if "m AND (CSIZE OR PARENB OR CSTOPB OR CRTSCTS OR CLOCAL OR CREAD) = 0" for m speed
  proof -
    let ?k = "NOT (CSIZE OR PARENB OR CSTOPB OR CRTSCTS OR CLOCAL OR CREAD)"
    have "x AND m = (x AND ?k) AND m" for x :: "32 word" by (simp only: and.assoc outside_mask [OF that])
    then show ?thesis by (metis other_flags_kept)
  qed
  ultimately show ?thesis
    by (auto simp: serial_open_line_def serial_open_def Let_def line_is_raw)
qed

text \<open>A line in canonical mode with flow control.\<close>

lemma opened_port_is_raw_witness:
  "\<exists>t'. serial_open_line \<lparr>k_foreign = [], k_open = True, k_tcgetattr = True, k_tcsetattr = True, k_epoll_add = True,
       k_reads = [], k_expired = False\<rparr> 9600 {0, 1, 2}
     \<lparr>c_iflag = 0x1500, c_oflag = 1, c_cflag = 0x800009AD, c_lflag = 2, c_ispeed = B1200, c_ospeed = B1200, c_vmin = 1, c_vtime = 5\<rparr> =
       ((3, {0, 1, 2, 3}), t') \<and> raw_8n1 B9600 t'"
proof -
  let ?k = "\<lparr>k_foreign = [], k_open = True, k_tcgetattr = True, k_tcsetattr = True, k_epoll_add = True, k_reads = [], k_expired = False\<rparr>"
  let ?t = "\<lparr>c_iflag = 0x1500, c_oflag = 1, c_cflag = 0x800009AD, c_lflag = 2, c_ispeed = B1200, c_ospeed = B1200, c_vmin = 1, c_vtime = 5\<rparr>"
  have "lowest_free {0, 1, 2} = 3" by code_simp
  then have "serial_open_line ?k 9600 {0, 1, 2} ?t = ((3, {0, 1, 2, 3}), line_settings B9600 ?t)"
    by (simp add: serial_open_line_def baud_to_speed_def insert_commute)
  with opened_port_is_raw [of "{0, 1, 2}" ?k 9600 ?t] show ?thesis by (simp add: baud_to_speed_def)
qed

end
