(* ===== verification/Spec2Isabelle.thy ===== *)
theory Spec2Isabelle
  imports Bridge_Main Config_File Captured_Frames Ble_System Serial_Line
begin

text \<open>
  A verification library of the BMS bridge, a C++ daemon between the battery management
  systems of several batteries and a solar inverter.  It polls each battery over Bluetooth (JK
  BMS) or a serial line (Pylontech), keeps the last state of each, pretends to the inverter
  that it is a stack of Pylontech modules, stores the telemetry in SQLite and shows it over
  HTTP.

  \<^bold>\<open>The parts and their theories.\<close>
  Bytes from a battery enter through a transport: \<open>Uart_Transport\<close> (src/uart_transport.cpp) on
  the event loop \<open>Dispatcher\<close> (src/dispatcher.cpp), with the settings of the line in \<open>Serial_Line\<close>, or \<open>Ble_Client\<close>
  (src/ble_client.cpp, ble_transport.cpp; \<open>Ble_Run\<close> is the loop of its threads), whose clients hand their events to the dispatcher through \<open>Event_Queue\<close>
  (src/event_queue.cpp) and share the slot of \<open>Scan_Coordinator\<close>
  (src/ble_scan_coordinator.cpp).  \<open>Os_Primitives\<close> (src/event.cpp, timer.cpp, thread.cpp) is what both rest on.
  The transport calls the handler of its battery, \<open>Bms_Handler\<close> (src/bms_handler.cpp), which
  feeds a protocol: \<open>Jk_Driver\<close> (src/jk_protocol_driver.cpp) over \<open>Jk_Frame\<close> and \<open>Jk_Parse\<close>
  (src/jk_protocol.cpp), or \<open>Pylontech_Master\<close> (src/pylontech_master.cpp) over
  \<open>Pylontech_Frame\<close>, \<open>Pylontech_Stream\<close>, \<open>Pylontech_Payload\<close> (src/pylontech.cpp).  Both fill
  the data of \<open>Jk_Data\<close> (include/jk_protocol.hpp).  The handler writes \<open>Shared_State\<close>
  (include/shared_state.hpp) and the \<open>History\<close> (src/history.cpp; \<open>Daily\<close> is its query of one
  month).  \<open>Inverter\<close> (src/inverter.cpp) answers the inverter from the shared states with the
  response builders of \<open>Pylontech_Respond\<close> (src/pylontech.cpp); \<open>Inverter_Link\<close> puts it on its serial
  transport; and \<open>Http\<close>
  (src/http_server.cpp) serves both.  \<open>Config\<close> (src/config.cpp) reads and checks the
  configuration, with the tables of options in \<open>Config_File\<close>; \<open>Battery\<close> (src/battery.cpp) chooses
  transport and protocol; \<open>Main_Program\<close> (src/main.cpp, logger.cpp) has the command line, the log level and the
  start of the history.  \<open>Main_Loop\<close> is the main thread: every transport, queue and timer on the one dispatcher and
  the one table of descriptors, from its start to its end, and \<open>Main_Start\<close> its theorems.  \<open>History_Open\<close> and
  \<open>Http_Loop\<close> are the lives of the history and of the web server, and \<open>Bridge_Main\<close> is \<open>main\<close> as a whole.
  \<open>Captured_Frames\<close> runs the frames of tests/ through the model.  \<open>Prelude\<close> holds the
  machine types, checked reads and shared lemmas.

  \<^bold>\<open>How the code is modelled.\<close>
  A class is a record of its members and each method a function from state to state, named as in the code; an enum is a
  datatype; an integer is a word of its width, read with \<open>sint\<close> where it is signed.  A read
  through a raw pointer is a checked read, \<open>None\<close> outside the buffer, and that no input causes
  one is a theorem.  A division by zero is \<open>None\<close> as well (\<open>respond\<close>).  Loops are recursive
  functions with a measure, so they are total; no function has fuel.  The two loops that depend on the outside
  world (\<open>write_loop\<close>, \<open>dispatcher_run\<close>) recurse over the answers of the kernel, and
  \<open>write_loop\<close> says by \<open>None\<close> that it has not returned yet.  The clients of \<open>Ble_Client\<close> are
  one step relation over all clients, with reachability and an invariant; so are the pushes and
  pops of \<open>Event_Queue\<close>, at the grain of its lock and of the reads and writes of the eventfd.  In \<open>Ble_Client\<close> a push is one
  step, which \<open>no_wakeup_lost\<close> and \<open>pump_catches_up\<close> justify.  Clocks are readings in
  milliseconds, passed in.  Energies are exact rationals.  Libraries that are not part of the
  repository are parameters: libconfuse (\<open>cfg_file\<close>), SQLite (each statement is the function its text denotes; whether it is
  executed, and after how many rows a query fails, is an argument: \<open>AppendEnv\<close>, \<open>RowIdEnv\<close>, \<open>QueryEnv\<close> and
  \<open>AggregateEnv\<close>), SimpleBLE (the environment of the steps), libevent and cJSON
  (parsed requests and reply trees), \<open>realpath\<close> and files (\<open>HttpWorld\<close>).  \<open>epoll_wait\<close> is level-triggered: a thread
  of a client wakes up with every one of its three events that is pending, beside entries that arrive meanwhile.

  \<^bold>\<open>Interfaces.\<close>
  \<open>battery_protocol\<close> is the contract of a protocol driver, with interpretations for both drivers, and
  \<open>driven_battery\<close> the lemmas on the handler over it; \<open>frame_loop\<close> the receive loop around the
  frame parser, shared by the master driver and the inverter; \<open>exclusive_slot\<close> the scan slot;
  \<open>wakeup_flag\<close> the event flag; \<open>dispatched\<close> a program on the dispatcher, interpreted on the
  UART transport, once with its invariant and once with the bound of its reads in addition, and on the
  main thread (\<open>main\<close>).  A transport names its handlers by a function, so that the same
  definitions run with a dispatcher of their own and on the shared one.

  \<^bold>\<open>What is shown.\<close>
  Framing: built frames parse back, every single damaged digit is detected, the parser never
  reads outside its buffer and always makes progress, streams with junk between frames
  resynchronise.  JK: the assembler stays within its bound, frames in arbitrary pieces are delivered once, the table of
  cells is read as laid out.  Inverter: it answers only from live data, in the order of the
  requests, also when reads and lost connections cut them (\<open>requests_answered_on_the_line\<close>); its modules add up to the battery within rounding; when it would divide by zero.  Bluetooth:
  scanning and connecting is exclusive, the slot never leaks, the shared state follows the
  link, no event of a client is lost or left in the queue; the loops over batches of descriptors refine this
  (\<open>loops_refine_clients\<close>), and every run of a thread that was told to stop ends it, within a bound, and frees its slot.  \<open>Ble_System\<close> runs these loops beside the main thread: what
  the library does to a battery is what the inverter sees of it (\<open>bluetooth_battery_follows_client\<close>).  UART: the sink sees bracketed connections, no descriptor leaks, the link is never
  stuck; and the same of all ports together on the shared dispatcher (\<open>ports_never_stuck\<close>), where each battery
  is connected exactly while its port is open, a signal ends the loop, and the end closes every port, unless the process
  gets stuck in stopping its web server (\<open>process_outcome\<close>).  Where an accepted \<open>reconnect_ms\<close> is negative, a port that
  closed is dead, and the statements on ports say so.  History: a sample is stored whole or not at all, reads back in every query that does not fail, aggregation
  misses no day, months are exact, the tables keep what the schema declares, the constructor gives a usable
  history or throws.  HTTP: paging descends and ends, with every sample delivered or a failed query, files stay below the root.
  Configuration and start: accepted configurations are consistent and are the file over the defaults, reserves find their
  mirror, every battery is listed.  Several theorems state defects of the code as it is, among them
  \<open>genuine_responses_ignored\<close>, \<open>lost_disconnect_is_forever\<close>, \<open>negative_backoff_never_reopens\<close>,
  \<open>stray_start_byte_loses_frame\<close>, \<open>early_stop_hangs\<close>, \<open>failed_wait_keeps_slot\<close>, \<open>request_after_reconnect_lost\<close>,
  \<open>failed_query_ends_paging\<close>, \<open>purge_skipped_when_nothing_pending\<close> and \<open>crash_condition\<close>.

  \<^bold>\<open>Not modelled.\<close>
  The construction of the log sinks, log
  lines, the printing of JSON.  \<open>ROLLBACK\<close> always restores the tables, and \<open>is_connected\<close> and \<open>services\<close> of the
  Bluetooth library do not throw.  A transport tells its sink what happened after the call, not during it (\<open>port_call\<close>), which
  no sink can see.  \<open>Http\<close> and the main thread use the history with both connections open; the guards for a missing one are
  in \<open>History_Open\<close>.  Of a time point the part below a millisecond is
  dropped, and integers that a client sends and that do not fit an \<open>int\<close> are undefined in C and not
  treated.  Locks are modelled by atomic steps; the memory model is not.
\<close>

section \<open>Configuration and address map\<close>

lemma mirror_found:
  assumes "bc_name (b_cfg (bs ! k)) = bc_mirror (b_cfg b)" "k < length bs" "\<not> bc_monitored (b_cfg b)"
    "distinct (map (\<lambda>b. bc_name (b_cfg b)) bs)"
  shows "mirror_of bs b = Some k"
proof -
  have "bc_name (b_cfg (bs ! ([0..<length bs] ! j))) \<noteq> bc_mirror (b_cfg b)" if "j < k" for j
    using nth_eq_iff_index_eq [OF assms(4), of j k] assms(1,2) that by auto
  then have "find (\<lambda>i. bc_name (b_cfg (bs ! i)) = bc_mirror (b_cfg b)) [0..<length bs] = Some k"
    unfolding find_Some_iff by (intro exI [of _ k]) (simp add: assms(1,2))
  then show ?thesis using assms(3) by (simp add: mirror_of_def)
qed

text \<open>When the batteries are those of an accepted configuration, every reserve finds its mirror in
  the address map, the mirror is the one battery its block names, and it is monitored:
  the values of a reserve always come from a battery that is polled.\<close>

theorem reserves_have_mirrors:
  assumes "load_config garbage rc cfg AppConfig_default = Inr out"
    and "map b_cfg bs = ac_batteries out"
    and "i < length bs" "\<not> bc_monitored (b_cfg (bs ! i))"
  shows "\<exists>k. mirror_of bs (bs ! i) = Some k \<and> k < length bs \<and> bc_monitored (b_cfg (bs ! k)) \<and>
    bc_name (b_cfg (bs ! k)) = bc_mirror (b_cfg (bs ! i))"
proof -
  note c = load_config_cases [OF assms(1)]
  have d: "distinct (map (\<lambda>b. bc_name (b_cfg b)) bs)"
  proof -
    have "distinct (map bc_name (map b_cfg bs))" using read_batteries_ok [OF c(1)] assms(2) by simp
    then show ?thesis by (simp only: map_map comp_def)
  qed
  have "b_cfg (bs ! i) \<in> set (ac_batteries out)"
    unfolding assms(2) [symmetric] using assms(3) by simp
  then have "mirror_ok (ac_batteries out) (b_cfg (bs ! i))" using check_mirrors_ok [OF c(3)] by blast
  then obtain m where m: "m \<in> set (map b_cfg bs)" "bc_name m = bc_mirror (b_cfg (bs ! i))" "bc_monitored m"
    using assms(2,4) by (auto simp: mirror_ok_def)
  then obtain k where k: "k < length bs" "b_cfg (bs ! k) = m" by (auto simp: in_set_conv_nth)
  from mirror_found [of bs k "bs ! i"] k m assms(4) d show ?thesis by auto
qed

lemma reserves_have_mirrors_witness:
  "\<exists>out. load_config Ttl CFG_SUCCESS (sample_file [sample_monitored, sample_reserve]) AppConfig_default = Inr out \<and>
     (let bs = map (\<lambda>c. \<lparr>b_cfg = c, b_state = shared_init\<rparr>) (ac_batteries out)
      in \<exists>k. mirror_of bs (bs ! 1) = Some k \<and> bc_monitored (b_cfg (bs ! k)))"
proof -
  have "\<exists>out. load_config Ttl CFG_SUCCESS (sample_file [sample_monitored, sample_reserve])
      AppConfig_default = Inr out \<and> length (ac_batteries out) = 2 \<and> \<not> bc_monitored (ac_batteries out ! 1)"
    by (simp add: load_config_def sample_file_def sample_monitored_def sample_reserve_def
        sample_sec_def AppConfig_default_def sstr_def sint_of_def read_battery_def link_from_str_def
        bc_monitored_def Let_def)
  then obtain out where out: "load_config Ttl CFG_SUCCESS (sample_file [sample_monitored, sample_reserve])
      AppConfig_default = Inr out" "length (ac_batteries out) = 2" "\<not> bc_monitored (ac_batteries out ! 1)"
    by blast
  let ?bs = "map (\<lambda>c. \<lparr>b_cfg = c, b_state = shared_init\<rparr>) (ac_batteries out)"
  have "map b_cfg ?bs = ac_batteries out" by (simp add: comp_def)
  from reserves_have_mirrors [OF out(1) this, of 1] out show ?thesis by (auto simp: Let_def)
qed

end
